(* ===== verification/OC_Prelude.thy ===== *)
theory OC_Prelude
  imports Main "HOL-Library.Word" "HOL-Library.Char_ord" "HOL-Library.List_Lexorder"
    "HOL-Library.Multiset"
begin

text \<open>
  The ground the components of the opencoin development stand on: the names of the machine
  types of the Go code, its strings and byte slices, errors as values, and the lemmas on
  words and lists that several components use.

  Go's \<open>uint64\<close> is \<open>64 word\<close>; \<open>int64\<close> is the same type read with \<open>sint\<close> and
  compared with the signed order \<open>\<le>s\<close> and \<open><s\<close>, so that \<open>uint64(x)\<close> and \<open>int64(x)\<close> are
  the identity as in Go. A \<open>[]byte\<close> is a list of \<open>8 word\<close>, with the nil and the empty
  slice identified (the code only ever asks for \<open>len\<close>). A Go string is a HOL string, one
  character per byte, with the conversions \<open>[]byte(s)\<close> and \<open>string(b)\<close> written out.
\<close>

unbundle bit_operations_syntax

section \<open>Machine types\<close>

type_synonym u8 = "8 word"
type_synonym u16 = "16 word"
type_synonym u32 = "32 word"
type_synonym u64 = "64 word"
type_synonym i64 = "64 word"

type_synonym bytes = "8 word list"

text \<open>\<open>types.Address\<close> is a string, \<open>types.Hash\<close> an array of 32 bytes.\<close>

type_synonym address = string
type_synonym hash = bytes

definition zero_hash :: hash where
  "zero_hash = replicate 32 0"

definition max_u64 :: u64 where
  "max_u64 = - 1"

section \<open>Errors\<close>

text \<open>
  A Go error is its message; a function that returns \<open>(T, error)\<close> returns \<open>error + T\<close>,
  with \<open>Inl\<close> the error. A value formatted into a message is left out of it.
\<close>

type_synonym error = string

fun bind_err :: "error + 'a \<Rightarrow> ('a \<Rightarrow> error + 'b) \<Rightarrow> error + 'b" where
  "bind_err (Inl e) f = Inl e"
| "bind_err (Inr x) f = f x"

lemma bind_err_Inr [simp]: "bind_err r f = Inr y \<longleftrightarrow> (\<exists>x. r = Inr x \<and> f x = Inr y)"
  by (cases r) auto

lemma bind_err_Inl: "bind_err r f = Inl e \<longleftrightarrow> r = Inl e \<or> (\<exists>x. r = Inr x \<and> f x = Inl e)"
  by (cases r) auto

lemma bind_err_assoc: "bind_err (bind_err r f) g = bind_err r (\<lambda>x. bind_err (f x) g)"
  by (cases r) auto

lemma bind_err_Inr_right [simp]: "bind_err r Inr = r"
  by (cases r) auto

lemma bind_err_cong [fundef_cong]:
  "r = r' \<Longrightarrow> (\<And>x. r' = Inr x \<Longrightarrow> f x = g x) \<Longrightarrow> bind_err r f = bind_err r' g"
  by (cases r') auto

text \<open>\<open>guard_err c e\<close> is \<open>if c \<open>{ return e }\<close>\<close>: the error when the condition holds.\<close>

definition guard_err :: "bool \<Rightarrow> error \<Rightarrow> (error + 'a) \<Rightarrow> error + 'a" where
  "guard_err c e r = (if c then Inl e else r)"

lemma guard_err_Inr [simp]: "guard_err c e r = Inr y \<longleftrightarrow> \<not> c \<and> r = Inr y"
  by (simp add: guard_err_def)

lemma guard_err_True [simp]: "guard_err True e r = Inl e"
  and guard_err_False [simp]: "guard_err False e r = r"
  by (simp_all add: guard_err_def)

section \<open>Strings and bytes\<close>

definition bytes_of :: "string \<Rightarrow> bytes" where
  "bytes_of s = map (\<lambda>c. word_of_nat (of_char c)) s"

definition string_of :: "bytes \<Rightarrow> string" where
  "string_of b = map (\<lambda>w. char_of (unat w)) b"

lemma string_of_bytes_of [simp]: "string_of (bytes_of s) = s"
  by (induction s) (simp_all add: string_of_def bytes_of_def unat_of_nat take_bit_nat_def)

lemma bytes_of_string_of [simp]: "bytes_of (string_of b) = b"
proof -
  have "unat w mod 256 = unat w" for w :: "8 word"
    using unsigned_less [of w, where ?'a = nat] by simp
  then show ?thesis
    by (induction b) (simp_all add: string_of_def bytes_of_def)
qed

lemma bytes_of_inject [simp]: "bytes_of s = bytes_of t \<longleftrightarrow> s = t"
  by (metis string_of_bytes_of)

lemma length_bytes_of [simp]: "length (bytes_of s) = length s"
  by (simp add: bytes_of_def)

lemma bytes_of_append [simp]: "bytes_of (s @ t) = bytes_of s @ bytes_of t"
  by (simp add: bytes_of_def)

lemma bytes_of_Nil [simp]: "bytes_of [] = []"
  by (simp add: bytes_of_def)

section \<open>Saturating and wrapping 64-bit arithmetic\<close>

lemma unat_max_u64 [simp]: "unat max_u64 = 2 ^ 64 - 1"
  by (simp add: max_u64_def unsigned_minus_1_eq_mask mask_eq_exp_minus_1)

lemma unat_u64_less: "unat (x :: u64) < 2 ^ 64"
  using unsigned_less [of x, where ?'a = nat] by simp

lemma unat_u64_le: "unat (x :: u64) \<le> 2 ^ 64 - 1"
  using unat_u64_less [of x] by simp

text \<open>The code's overflow test \<open>b > max / a\<close>, as a statement on the product.\<close>

lemma mult_overflow_test:
  fixes a b :: u64
  assumes "a \<noteq> 0"
  shows "max_u64 div a < b \<longleftrightarrow> 2 ^ 64 - 1 < unat a * unat b"
proof -
  have "0 < unat a" using assms by (simp add: unat_gt_0)
  then show ?thesis
    by (simp add: word_less_nat_alt unat_div div_less_iff_less_mult mult.commute)
qed

lemma unat_mult_small:
  fixes a b :: u64
  assumes "unat a * unat b \<le> 2 ^ 64 - 1"
  shows "unat (a * b) = unat a * unat b"
  using assms by (subst unat_mult_lem [THEN iffD1]) auto

text \<open>The code's overflow test \<open>a > max - b\<close>, as a statement on the sum.\<close>

lemma add_overflow_test:
  fixes a b :: u64
  shows "max_u64 - b < a \<longleftrightarrow> 2 ^ 64 - 1 < unat a + unat b"
proof -
  have "b \<le> max_u64" using unat_u64_le [of b] by (simp add: word_le_nat_alt)
  then have "unat (max_u64 - b) = 2 ^ 64 - 1 - unat b"
    by (simp add: unat_sub)
  then show ?thesis using unat_u64_le [of b] by (simp add: word_less_nat_alt) arith
qed

lemma unat_add_small:
  fixes a b :: u64
  assumes "unat a + unat b \<le> 2 ^ 64 - 1"
  shows "unat (a + b) = unat a + unat b"
  using assms by (subst unat_add_lem [THEN iffD1]) auto

lemma unat_sub_small:
  fixes a b :: u64
  assumes "\<not> a < b"
  shows "unat (a - b) = unat a - unat b"
  using assms by (simp add: unat_sub)

end
