(* ===== verification/Wire.thy ===== *)
theory Wire
  imports OC_Prelude
begin

text \<open>
  The interface to \<open>google.golang.org/protobuf/encoding/protowire\<close>, which every codec of the
  program is written over. The package is not part of the repository: it is a parameter, the
  record \<open>protowire\<close> of its functions, and what the code relies on is the locale
  \<open>protowire_laws\<close>, the documented behaviour of the wire format. A negative length, which is
  how the package reports a parse error, is \<open>None\<close>; field numbers and wire types are naturals.

  On top of it stands what the decoders of the program share: the loop
  \<open>for len(b) > 0 { num, typ, n := ConsumeTag(b); b = b[n:]; switch num \<dots> }\<close>, once, over the
  body of the switch, and the three ways a case of the switch consumes its field.
\<close>

section \<open>The functions of the package that the code calls\<close>

record protowire =
  AppendTag :: "bytes \<Rightarrow> nat \<Rightarrow> nat \<Rightarrow> bytes"
  AppendVarint :: "bytes \<Rightarrow> u64 \<Rightarrow> bytes"
  AppendBytes :: "bytes \<Rightarrow> bytes \<Rightarrow> bytes"
  ConsumeTag :: "bytes \<Rightarrow> (nat \<times> nat \<times> nat) option"
  ConsumeVarint :: "bytes \<Rightarrow> (u64 \<times> nat) option"
  ConsumeBytes :: "bytes \<Rightarrow> (bytes \<times> nat) option"
  ConsumeFieldValue :: "nat \<Rightarrow> nat \<Rightarrow> bytes \<Rightarrow> nat option"

abbreviation (input) VarintType :: nat where "VarintType \<equiv> 0"
abbreviation (input) BytesType :: nat where "BytesType \<equiv> 2"

text \<open>
  The documented behaviour: the append functions extend their argument by an encoding that
  depends only on the value; the consume functions return what was appended and its length,
  whatever follows; and no consume function claims more bytes than there are, a tag at least
  one. Field numbers are \<open>1\<close> to \<open>2 ^ 29 - 1\<close> and wire types \<open>0\<close> to \<open>5\<close>.
\<close>

locale protowire_laws =
  fixes pw :: protowire
  assumes AppendTag_eq: "b \<noteq> [] \<Longrightarrow> AppendTag pw b num wt = b @ AppendTag pw [] num wt"
    and AppendVarint_eq: "b \<noteq> [] \<Longrightarrow> AppendVarint pw b x = b @ AppendVarint pw [] x"
    and AppendBytes_eq: "b \<noteq> [] \<Longrightarrow> AppendBytes pw b v = b @ AppendBytes pw [] v"
    and ConsumeTag_AppendTag:
      "1 \<le> num \<Longrightarrow> num < 2 ^ 29 \<Longrightarrow> wt \<le> 5 \<Longrightarrow>
       ConsumeTag pw (AppendTag pw [] num wt @ r)
         = Some (num, wt, length (AppendTag pw [] num wt))"
    and ConsumeVarint_AppendVarint:
      "ConsumeVarint pw (AppendVarint pw [] x @ r) = Some (x, length (AppendVarint pw [] x))"
    and ConsumeBytes_AppendBytes:
      "ConsumeBytes pw (AppendBytes pw [] v @ r) = Some (v, length (AppendBytes pw [] v))"
    and ConsumeTag_bounds: "ConsumeTag pw b = Some (num, wt, n) \<Longrightarrow> 0 < n \<and> n \<le> length b"
    and ConsumeVarint_bounds: "ConsumeVarint pw b = Some (x, n) \<Longrightarrow> n \<le> length b"
    and ConsumeBytes_bounds: "ConsumeBytes pw b = Some (v, n) \<Longrightarrow> n \<le> length b"
    and ConsumeFieldValue_bounds: "ConsumeFieldValue pw num wt b = Some n \<Longrightarrow> n \<le> length b"

text \<open>\<open>AppendTag\<close> followed by the append of the field's value, the pair of calls every encoder
  makes for every field.\<close>

definition put_bytes :: "protowire \<Rightarrow> bytes \<Rightarrow> nat \<Rightarrow> bytes \<Rightarrow> bytes" where
  "put_bytes pw b num v = AppendBytes pw (AppendTag pw b num BytesType) v"

definition put_varint :: "protowire \<Rightarrow> bytes \<Rightarrow> nat \<Rightarrow> u64 \<Rightarrow> bytes" where
  "put_varint pw b num x = AppendVarint pw (AppendTag pw b num VarintType) x"

section \<open>The decoding loop and its field readers\<close>

text \<open>
  \<open>take_bytes\<close>, \<open>take_varint\<close> and \<open>skip_field\<close> are the shapes of a case of the switch: the
  check of the wire type, the consume call with its error, and the advance \<open>b = b[n:]\<close>.
\<close>

definition take_bytes :: "protowire \<Rightarrow> nat \<Rightarrow> error \<Rightarrow> error \<Rightarrow> bytes \<Rightarrow> error + (bytes \<times> bytes)" where
  "take_bytes pw wt e_typ e_val b =
     (if wt \<noteq> BytesType then Inl e_typ
      else case ConsumeBytes pw b of None \<Rightarrow> Inl e_val | Some (v, n) \<Rightarrow> Inr (v, drop n b))"

definition take_varint :: "protowire \<Rightarrow> nat \<Rightarrow> error \<Rightarrow> error \<Rightarrow> bytes \<Rightarrow> error + (u64 \<times> bytes)" where
  "take_varint pw wt e_typ e_val b =
     (if wt \<noteq> VarintType then Inl e_typ
      else case ConsumeVarint pw b of None \<Rightarrow> Inl e_val | Some (v, n) \<Rightarrow> Inr (v, drop n b))"

definition skip_field :: "protowire \<Rightarrow> nat \<Rightarrow> nat \<Rightarrow> error \<Rightarrow> bytes \<Rightarrow> 's \<Rightarrow> error + (bytes \<times> 's)" where
  "skip_field pw num wt e_val b s =
     (case ConsumeFieldValue pw num wt b of None \<Rightarrow> Inl e_val | Some n \<Rightarrow> Inr (drop n b, s))"

text \<open>
  The loop stops because every round drops the tag. Over a \<open>protowire\<close> that consumes nothing
  it would not: that outcome is the value \<open>diverges\<close>, which is no error of the code, and the
  lemma \<open>decode_loop_returns\<close> below shows that the laws exclude it.
\<close>

definition diverges :: error where
  "diverges = ''(does not return)''"

lemma Cons_eq_diverges [simp]:
  "x # xs = diverges \<longleftrightarrow> x = CHR ''('' \<and> xs = ''does not return)''"
  by (simp add: diverges_def)

function decode_loop ::
  "protowire \<Rightarrow> error \<Rightarrow> (nat \<Rightarrow> nat \<Rightarrow> bytes \<Rightarrow> 's \<Rightarrow> error + (bytes \<times> 's)) \<Rightarrow> bytes \<Rightarrow> 's \<Rightarrow> error + 's"
where
  "decode_loop pw e_tag field b s =
     (if b = [] then Inr s
      else case ConsumeTag pw b of
        None \<Rightarrow> Inl e_tag
      | Some (num, wt, n) \<Rightarrow>
          (case field num wt (drop n b) s of
             Inl e \<Rightarrow> Inl e
           | Inr (b', s') \<Rightarrow>
               if length b' < length b then decode_loop pw e_tag field b' s' else Inl diverges))"
  by pat_completeness auto
termination
  by (relation "measure (\<lambda>(pw, e_tag, field, b, s). length b)") auto

declare decode_loop.simps [simp del]

lemma decode_loop_Nil [simp]: "decode_loop pw e_tag field [] s = Inr s"
  by (simp add: decode_loop.simps)

text \<open>What a switch promises the loop: it leaves no more bytes than it was given, and it does
  not itself run forever.\<close>

definition reads_within :: "bytes \<Rightarrow> error + (bytes \<times> 's) \<Rightarrow> bool" where
  "reads_within b r =
     (case r of Inl e \<Rightarrow> e \<noteq> diverges | Inr (b', s') \<Rightarrow> length b' \<le> length b)"

definition field_reader :: "(nat \<Rightarrow> nat \<Rightarrow> bytes \<Rightarrow> 's \<Rightarrow> error + (bytes \<times> 's)) \<Rightarrow> bool" where
  "field_reader field \<longleftrightarrow> (\<forall>num wt b s. reads_within b (field num wt b s))"

lemma field_reader_shrinks:
  assumes "field_reader field" and "field num wt b s = Inr (b', s')"
  shows "length b' \<le> length b"
proof -
  have "reads_within b (field num wt b s)" using assms(1) by (simp add: field_reader_def)
  then show ?thesis using assms(2) by (simp add: reads_within_def)
qed

lemma field_reader_returns:
  assumes "field_reader field"
  shows "field num wt b s \<noteq> Inl diverges"
proof -
  have "reads_within b (field num wt b s)" using assms by (simp add: field_reader_def)
  then show ?thesis by (auto simp: reads_within_def)
qed

section \<open>Lemmas over the laws\<close>

context protowire_laws
begin

lemma tag_nonempty [simp]:
  assumes "1 \<le> num" "num < 2 ^ 29" "wt \<le> 5"
  shows "AppendTag pw [] num wt \<noteq> []"
proof
  assume "AppendTag pw [] num wt = []"
  then have "ConsumeTag pw [] = Some (num, wt, 0)" using ConsumeTag_AppendTag [OF assms, of "[]"] by simp
  then show False using ConsumeTag_bounds by blast
qed

lemma varint_value [simp]:
  "take_varint pw VarintType e1 e2 (AppendVarint pw [] x @ r) = Inr (x, r)"
  by (simp add: take_varint_def ConsumeVarint_AppendVarint)

lemma varint_value_end [simp]: "take_varint pw VarintType e1 e2 (AppendVarint pw [] x) = Inr (x, [])"
  using varint_value [of e1 e2 x "[]"] by simp

lemma bytes_value [simp]: "take_bytes pw BytesType e1 e2 (AppendBytes pw [] v @ r) = Inr (v, r)"
  by (simp add: take_bytes_def ConsumeBytes_AppendBytes)

lemma bytes_value_end [simp]: "take_bytes pw BytesType e1 e2 (AppendBytes pw [] v) = Inr (v, [])"
  using bytes_value [of e1 e2 v "[]"] by simp

lemma take_varint_shrinks: "take_varint pw wt e1 e2 b = Inr (x, b') \<Longrightarrow> length b' \<le> length b"
  by (auto simp: take_varint_def split: if_splits option.splits)

lemma take_bytes_shrinks: "take_bytes pw wt e1 e2 b = Inr (v, b') \<Longrightarrow> length b' \<le> length b"
  by (auto simp: take_bytes_def split: if_splits option.splits)

lemma skip_field_shrinks: "skip_field pw num wt e b s = Inr (b', s') \<Longrightarrow> length b' \<le> length b"
  by (auto simp: skip_field_def split: option.splits)

text \<open>One round of the loop on an encoded field is the case of the switch for its number.\<close>

lemma decode_loop_field:
  assumes "field_reader field" and "1 \<le> num" "num < 2 ^ 29" "wt \<le> 5"
  shows "decode_loop pw e_tag field (AppendTag pw [] num wt @ r) s
       = bind_err (field num wt r s) (\<lambda>(b', s'). decode_loop pw e_tag field b' s')"
proof (cases "field num wt r s")
  case (Inl e)
  then show ?thesis using assms(2-4)
    by (simp add: decode_loop.simps [of pw e_tag field "AppendTag pw [] num wt @ r" s]
        ConsumeTag_AppendTag)
next
  case (Inr res)
  obtain b' s' where res: "res = (b', s')" by force
  have "length b' \<le> length r" using field_reader_shrinks [OF assms(1)] Inr res by simp
  moreover have "0 < length (AppendTag pw [] num wt)" using assms(2-4) by simp
  ultimately have "length b' < length (AppendTag pw [] num wt @ r)"
    by (simp only: length_append)
  with Inr res show ?thesis using assms(2-4)
    by (simp add: decode_loop.simps [of pw e_tag field "AppendTag pw [] num wt @ r" s]
        ConsumeTag_AppendTag)
qed

lemma put_bytes_append:
  "1 \<le> num \<Longrightarrow> num < 2 ^ 29 \<Longrightarrow> put_bytes pw b num v
     = b @ AppendTag pw [] num BytesType @ AppendBytes pw [] v"
  using AppendTag_eq [of b num BytesType]
  by (cases "b = []") (simp_all add: put_bytes_def AppendBytes_eq [of "_ @ _"] AppendBytes_eq)

lemma put_varint_append:
  "1 \<le> num \<Longrightarrow> num < 2 ^ 29 \<Longrightarrow> put_varint pw b num x
     = b @ AppendTag pw [] num VarintType @ AppendVarint pw [] x"
  using AppendTag_eq [of b num VarintType]
  by (cases "b = []") (simp_all add: put_varint_def AppendVarint_eq [of "_ @ _"] AppendVarint_eq)

text \<open>The equations that run a decoder over what an encoder wrote.\<close>

lemmas wire_roundtrip = put_bytes_append put_varint_append decode_loop_field

text \<open>Under the laws the loop always returns: every round is shorter than the one before.\<close>

lemma decode_loop_returns [simp]:
  assumes "field_reader field" and "e_tag \<noteq> diverges"
  shows "decode_loop pw e_tag field b s \<noteq> Inl diverges"
  using assms
proof (induction "length b" arbitrary: b s rule: less_induct)
  case less
  show ?case
  proof (cases "b = [] \<or> ConsumeTag pw b = None")
    case True
    then show ?thesis using less.prems by (auto simp: decode_loop.simps [of pw e_tag field b s])
  next
    case False
    then obtain num wt n where tag: "ConsumeTag pw b = Some (num, wt, n)" by auto
    then have "length (drop n b) < length b" using ConsumeTag_bounds [OF tag] False by (cases b) auto
    moreover have "length b' \<le> length (drop n b)" if "field num wt (drop n b) s = Inr (b', s')" for b' s'
      by (rule field_reader_shrinks [OF less.prems(1) that])
    moreover have "field num wt (drop n b) s \<noteq> Inl diverges"
      by (rule field_reader_returns [OF less.prems(1)])
    ultimately show ?thesis using False tag less
      by (auto simp: decode_loop.simps [of pw e_tag field b s] split: sum.splits)
  qed
qed

end

text \<open>What a case of the switch may do is closed under the readers, so that \<open>field_reader\<close>
  of a decoder is one call of the simplifier over the cases of its switch.\<close>

lemma reads_within_take_bytes:
  assumes "e1 \<noteq> diverges" "e2 \<noteq> diverges" "\<And>v. g v \<noteq> Inl diverges"
  shows "reads_within b
    (bind_err (take_bytes pw wt e1 e2 b) (\<lambda>(v, b'). bind_err (g v) (\<lambda>x. Inr (b', f v x))))"
proof (cases "take_bytes pw wt e1 e2 b")
  case (Inl e)
  then show ?thesis using assms(1,2)
    by (auto simp: reads_within_def take_bytes_def split: if_splits option.splits)
next
  case (Inr res)
  obtain v b' where "res = (v, b')" by force
  then show ?thesis using Inr assms(3) [of v]
    by (cases "g v") (auto simp: reads_within_def take_bytes_def split: if_splits option.splits)
qed

lemma reads_within_guard:
  assumes "e1 \<noteq> diverges" "e2 \<noteq> diverges" "e3 \<noteq> diverges"
  shows "reads_within b
    (bind_err (take_bytes pw wt e1 e2 b) (\<lambda>(v, b'). guard_err (c v) e3 (Inr (b', f v))))"
  using assms
  by (auto simp: reads_within_def take_bytes_def guard_err_def split: if_splits option.splits)

lemma reads_within_bytes:
  assumes "e1 \<noteq> diverges" "e2 \<noteq> diverges"
  shows "reads_within b (bind_err (take_bytes pw wt e1 e2 b) (\<lambda>(v, b'). Inr (b', f v)))"
  using assms by (auto simp: reads_within_def take_bytes_def split: if_splits option.splits)

lemma reads_within_varint:
  assumes "e1 \<noteq> diverges" "e2 \<noteq> diverges"
  shows "reads_within b (bind_err (take_varint pw wt e1 e2 b) (\<lambda>(v, b'). Inr (b', f v)))"
  using assms by (auto simp: reads_within_def take_varint_def split: if_splits option.splits)

lemma reads_within_skip:
  assumes "e \<noteq> diverges"
  shows "reads_within b (skip_field pw num wt e b s)"
  using assms by (auto simp: reads_within_def skip_field_def split: option.splits)

lemmas reads_within_intros = reads_within_take_bytes reads_within_guard reads_within_bytes reads_within_varint
  reads_within_skip

section \<open>A codec of the wire format\<close>

text \<open>
  An instance of the interface, written from the published wire format: base-128 varints,
  low group first, tags \<open>num * 8 + wt\<close>, length-prefixed bytes. It shows that the laws can
  hold, and the witnesses evaluate over it. It is not the package: groups are not skipped,
  and the length prefix has no bound, as a HOL list has none.
\<close>

fun varint_of :: "nat \<Rightarrow> bytes" where
  "varint_of n = (if n < 128 then [word_of_nat n]
                  else word_of_nat (128 + n mod 128) # varint_of (n div 128))"

declare varint_of.simps [simp del]

fun read_varint :: "bytes \<Rightarrow> (nat \<times> nat) option" where
  "read_varint [] = None"
| "read_varint (w # ws) =
     (if w < 128 then Some (unat w, 1)
      else case read_varint ws of
        None \<Rightarrow> None
      | Some (v, k) \<Rightarrow> Some (unat w - 128 + 128 * v, Suc k))"

definition wire_format :: protowire where
  "wire_format = \<lparr>
     AppendTag = (\<lambda>b num wt. b @ varint_of (num * 8 + wt)),
     AppendVarint = (\<lambda>b x. b @ varint_of (unat x)),
     AppendBytes = (\<lambda>b v. b @ varint_of (length v) @ v),
     ConsumeTag = (\<lambda>b. case read_varint b of
         None \<Rightarrow> None
       | Some (v, k) \<Rightarrow> if 1 \<le> v div 8 \<and> v div 8 < 2 ^ 31 then Some (v div 8, v mod 8, k) else None),
     ConsumeVarint = (\<lambda>b. case read_varint b of
         None \<Rightarrow> None
       | Some (v, k) \<Rightarrow> if v < 2 ^ 64 \<and> k \<le> 10 then Some (word_of_nat v, k) else None),
     ConsumeBytes = (\<lambda>b. case read_varint b of
         None \<Rightarrow> None
       | Some (v, k) \<Rightarrow> if v \<le> length b - k then Some (take v (drop k b), k + v) else None),
     ConsumeFieldValue = (\<lambda>num wt b.
       if wt = 0 then map_option snd (read_varint b)
       else if wt = 1 then (if 8 \<le> length b then Some 8 else None)
       else if wt = 5 then (if 4 \<le> length b then Some 4 else None)
       else if wt = 2 then (case read_varint b of
           None \<Rightarrow> None
         | Some (v, k) \<Rightarrow> if v \<le> length b - k then Some (k + v) else None)
       else None)\<rparr>"

lemma read_varint_of: "read_varint (varint_of n @ r) = Some (n, length (varint_of n))"
proof (induction n rule: varint_of.induct)
  case (1 n)
  show ?case
  proof (cases "n < 128")
    case True
    then show ?thesis by (simp add: varint_of.simps [of n] word_less_nat_alt unat_of_nat)
  next
    case False
    then have ih: "read_varint (varint_of (n div 128) @ r) = Some (n div 128, length (varint_of (n div 128)))"
      using "1.IH" by simp
    define w :: u8 where "w = word_of_nat (128 + n mod 128)"
    have "128 + n mod 128 < 256" by simp
    then have "unat w = 128 + n mod 128"
      unfolding w_def by (simp add: unat_of_nat del: of_nat_add)
    then show ?thesis using False ih
      by (simp add: varint_of.simps [of n] word_less_nat_alt flip: w_def del: of_nat_add)
  qed
qed

lemma read_varint_bounds: "read_varint b = Some (v, k) \<Longrightarrow> 0 < k \<and> k \<le> length b"
  by (induction b arbitrary: v k) (auto split: if_splits option.splits)

lemma length_varint_of: "n < 2 ^ (7 * Suc m) \<Longrightarrow> length (varint_of n) \<le> Suc m"
proof (induction m arbitrary: n)
  case 0
  then show ?case by (simp add: varint_of.simps [of n])
next
  case (Suc m)
  have "n div 128 < 2 ^ (7 * Suc m)"
    using Suc.prems by (simp add: less_mult_imp_div_less power_add)
  then show ?case using Suc.IH [of "n div 128"] by (simp add: varint_of.simps [of n])
qed

interpretation wire: protowire_laws wire_format
proof
  fix b r :: bytes and num wt n :: nat
  show "AppendTag wire_format b num wt = b @ AppendTag wire_format [] num wt"
    by (simp add: wire_format_def)
  assume "1 \<le> num" "num < 2 ^ 29" "wt \<le> 5"
  then show "ConsumeTag wire_format (AppendTag wire_format [] num wt @ r)
      = Some (num, wt, length (AppendTag wire_format [] num wt))"
    by (simp add: wire_format_def read_varint_of)
next
  fix b r :: bytes and x :: u64
  show "AppendVarint wire_format b x = b @ AppendVarint wire_format [] x"
    by (simp add: wire_format_def)
  have "unat x < 2 ^ (7 * Suc 9)" using unat_u64_less [of x] by simp
  then have "length (varint_of (unat x)) \<le> 10" using length_varint_of by fastforce
  then show "ConsumeVarint wire_format (AppendVarint wire_format [] x @ r)
      = Some (x, length (AppendVarint wire_format [] x))"
    using unat_u64_less [of x] by (simp add: wire_format_def read_varint_of)
next
  fix b r v :: bytes
  show "AppendBytes wire_format b v = b @ AppendBytes wire_format [] v"
    by (simp add: wire_format_def)
  show "ConsumeBytes wire_format (AppendBytes wire_format [] v @ r)
      = Some (v, length (AppendBytes wire_format [] v))"
    using read_varint_of [of "length v" "v @ r"] by (simp add: wire_format_def)
next
  fix b :: bytes and num wt n :: nat
  assume "ConsumeTag wire_format b = Some (num, wt, n)"
  then show "0 < n \<and> n \<le> length b"
    by (auto simp: wire_format_def dest: read_varint_bounds split: option.splits if_splits)
next
  fix b :: bytes and x :: u64 and n :: nat
  assume "ConsumeVarint wire_format b = Some (x, n)"
  then show "n \<le> length b"
    by (auto simp: wire_format_def dest: read_varint_bounds split: option.splits if_splits)
next
  fix b v :: bytes and n :: nat
  assume "ConsumeBytes wire_format b = Some (v, n)"
  then show "n \<le> length b"
    by (fastforce simp: wire_format_def dest: read_varint_bounds split: option.splits if_splits)
next
  fix b :: bytes and num wt n :: nat
  assume "ConsumeFieldValue wire_format num wt b = Some n"
  then show "n \<le> length b"
    by (fastforce simp: wire_format_def dest: read_varint_bounds split: option.splits if_splits)
qed

end
