(* ===== verification/Types.thy ===== *)
theory Types
  imports OC_Prelude
begin

text \<open>
  The data model, \<open>pkg/types/types.go\<close>: one record per struct, with the fields in the order
  of the source and a prefix per struct (several structs have a \<open>Height\<close> or a \<open>Signature\<close>).
  A pointer that the code tests for nil is an \<open>option\<close>; a Go map is a partial function.
\<close>

record transaction =
  tx_From :: address
  tx_To :: address
  tx_Nonce :: u64
  tx_Payload :: bytes
  tx_Signature :: bytes

record block =
  bl_Height :: u64
  bl_PrevHash :: hash
  bl_StateRoot :: hash
  bl_Timestamp :: i64
  bl_Proposer :: address
  bl_Transactions :: "transaction option list"
  bl_ValidatorSigs :: "bytes list"

record state_node =
  sn_RootHash :: hash
  sn_Parents :: "hash list"
  sn_Height :: u64

record proposal =
  prop_Block :: "block option"
  prop_Round :: u64
  prop_ProposerSig :: bytes

record precommit_vote =
  vote_BlockHash :: hash
  vote_Height :: u64
  vote_Round :: u64
  vote_Validator :: address
  vote_Signature :: bytes

record quorum_certificate =
  qc_BlockHash :: hash
  qc_Height :: u64
  qc_Round :: u64
  qc_SigBitmap :: bytes
  qc_AggregatedSig :: bytes
  qc_Signatures :: "bytes list"

record view_change =
  vc_Height :: u64
  vc_Round :: u64
  vc_Validator :: address
  vc_Signature :: bytes

record validator =
  val_OperatorAddress :: address
  val_ConsensusPubKey :: bytes
  val_Power :: u64
  val_Stake :: u64
  val_Delegations :: "address \<rightharpoonup> u64"
  val_Commission :: u16
  val_Index :: u32
  val_JailedUntilEpoch :: u64

record validator_set =
  vs_Validators :: "validator list"
  vs_TotalPower :: u64
  vs_IndexByAddr :: "address \<rightharpoonup> u32"

record account =
  acct_Address :: address
  acct_Balance :: u64
  acct_Nonce :: u64
  acct_Stake :: u64
  acct_RC :: u64
  acct_RCMax :: u64
  acct_LastRCEffectiveTime :: i64
  acct_Code :: bytes
  acct_PubKey :: bytes

record governance_proposal =
  gp_ID :: u64
  gp_Title :: string
  gp_Description :: string
  gp_ParamKey :: string
  gp_ParamValue :: string
  gp_Submitter :: address

text \<open>\<open>VoteOption\<close> is a \<open>uint8\<close>: any byte is a value of it, the five named ones included.\<close>

type_synonym vote_option = u8

definition VoteOptionUnspecified :: vote_option where "VoteOptionUnspecified = 0"
definition VoteOptionYes :: vote_option where "VoteOptionYes = 1"
definition VoteOptionNo :: vote_option where "VoteOptionNo = 2"
definition VoteOptionAbstain :: vote_option where "VoteOptionAbstain = 3"
definition VoteOptionVeto :: vote_option where "VoteOptionVeto = 4"

record governance_vote =
  gv_ProposalID :: u64
  gv_Voter :: address
  gv_Option :: vote_option

text \<open>\<open>&types.Account{Address: addr}\<close>: every other field has its zero value.\<close>

definition zero_account :: "address \<Rightarrow> account" where
  "zero_account addr = \<lparr>acct_Address = addr, acct_Balance = 0, acct_Nonce = 0, acct_Stake = 0,
     acct_RC = 0, acct_RCMax = 0, acct_LastRCEffectiveTime = 0, acct_Code = [], acct_PubKey = []\<rparr>"

definition zero_transaction :: transaction where
  "zero_transaction = \<lparr>tx_From = [], tx_To = [], tx_Nonce = 0, tx_Payload = [], tx_Signature = []\<rparr>"

definition zero_block :: block where
  "zero_block = \<lparr>bl_Height = 0, bl_PrevHash = zero_hash, bl_StateRoot = zero_hash, bl_Timestamp = 0,
     bl_Proposer = [], bl_Transactions = [], bl_ValidatorSigs = []\<rparr>"

end
