(* ===== verification/Encoding.thy ===== *)
theory Encoding
  imports Wire Types
begin

text \<open>
  The canonical encodings, \<open>pkg/encoding/protobuf.go\<close>, \<open>unmarshal.go\<close> and \<open>hash.go\<close>: the
  deterministic protobuf encoding of every message, the decoders of transactions and blocks,
  and the hashes. SHA-256 is a parameter \<open>sha256\<close>, a function on bytes.

  The lemmas show that decoding inverts encoding, hence that the encodings that are hashed
  and signed determine the message they were made from.
\<close>

section \<open>Encoders\<close>

definition MarshalTransaction :: "protowire \<Rightarrow> transaction option \<Rightarrow> error + bytes" where
  "MarshalTransaction pw txn =
     (case txn of
        None \<Rightarrow> Inl ''transaction is nil''
      | Some tx \<Rightarrow>
          let b = [];
              b = put_bytes pw b 1 (bytes_of (tx_From tx));
              b = put_bytes pw b 2 (bytes_of (tx_To tx));
              b = put_varint pw b 3 (tx_Nonce tx);
              b = put_bytes pw b 4 (tx_Payload tx);
              b = put_bytes pw b 5 (tx_Signature tx)
          in Inr b)"

text \<open>The loop over \<open>block.Transactions\<close>, with the error of the first nil entry.\<close>

fun put_transactions :: "protowire \<Rightarrow> bytes \<Rightarrow> transaction option list \<Rightarrow> error + bytes" where
  "put_transactions pw b [] = Inr b"
| "put_transactions pw b (tx # txs) =
     bind_err (MarshalTransaction pw tx) (\<lambda>txBytes. put_transactions pw (put_bytes pw b 6 txBytes) txs)"

fun put_repeated :: "protowire \<Rightarrow> nat \<Rightarrow> bytes \<Rightarrow> bytes list \<Rightarrow> bytes" where
  "put_repeated pw num b [] = b"
| "put_repeated pw num b (v # vs) = put_repeated pw num (put_bytes pw b num v) vs"

definition MarshalBlockForHash :: "protowire \<Rightarrow> block option \<Rightarrow> error + bytes" where
  "MarshalBlockForHash pw blk =
     (case blk of
        None \<Rightarrow> Inl ''block is nil''
      | Some block \<Rightarrow>
          let b = [];
              b = put_varint pw b 1 (bl_Height block);
              b = put_bytes pw b 2 (bl_PrevHash block);
              b = put_bytes pw b 3 (bl_StateRoot block);
              b = put_varint pw b 4 (bl_Timestamp block);
              b = put_bytes pw b 5 (bytes_of (bl_Proposer block))
          in put_transactions pw b (bl_Transactions block))"

definition MarshalBlock :: "protowire \<Rightarrow> block option \<Rightarrow> error + bytes" where
  "MarshalBlock pw blk =
     (case blk of
        None \<Rightarrow> Inl ''block is nil''
      | Some block \<Rightarrow>
          let b = [];
              b = put_varint pw b 1 (bl_Height block);
              b = put_bytes pw b 2 (bl_PrevHash block);
              b = put_bytes pw b 3 (bl_StateRoot block);
              b = put_varint pw b 4 (bl_Timestamp block);
              b = put_bytes pw b 5 (bytes_of (bl_Proposer block))
          in bind_err (put_transactions pw b (bl_Transactions block))
               (\<lambda>b. Inr (put_repeated pw 7 b (bl_ValidatorSigs block))))"

definition MarshalStateNode :: "protowire \<Rightarrow> state_node option \<Rightarrow> error + bytes" where
  "MarshalStateNode pw nd =
     (case nd of
        None \<Rightarrow> Inl ''state node is nil''
      | Some node \<Rightarrow>
          let b = [];
              b = put_bytes pw b 1 (sn_RootHash node);
              b = put_repeated pw 2 b (sn_Parents node);
              b = put_varint pw b 3 (sn_Height node)
          in Inr b)"

definition MarshalProposal :: "protowire \<Rightarrow> proposal option \<Rightarrow> error + bytes" where
  "MarshalProposal pw prop =
     (case prop of
        None \<Rightarrow> Inl ''proposal is nil''
      | Some p \<Rightarrow>
          bind_err (MarshalBlock pw (prop_Block p)) (\<lambda>blockBytes.
          let b = [];
              b = put_bytes pw b 1 blockBytes;
              b = put_varint pw b 2 (prop_Round p);
              b = put_bytes pw b 3 (prop_ProposerSig p)
          in Inr b))"

definition MarshalPrecommitVote :: "protowire \<Rightarrow> precommit_vote option \<Rightarrow> error + bytes" where
  "MarshalPrecommitVote pw vote =
     (case vote of
        None \<Rightarrow> Inl ''precommit vote is nil''
      | Some v \<Rightarrow>
          let b = [];
              b = put_bytes pw b 1 (vote_BlockHash v);
              b = put_varint pw b 2 (vote_Height v);
              b = put_varint pw b 3 (vote_Round v);
              b = put_bytes pw b 4 (bytes_of (vote_Validator v));
              b = put_bytes pw b 5 (vote_Signature v)
          in Inr b)"

definition MarshalQuorumCertificate :: "protowire \<Rightarrow> quorum_certificate option \<Rightarrow> error + bytes" where
  "MarshalQuorumCertificate pw cert =
     (case cert of
        None \<Rightarrow> Inl ''quorum certificate is nil''
      | Some qc \<Rightarrow>
          let b = [];
              b = put_bytes pw b 1 (qc_BlockHash qc);
              b = put_varint pw b 2 (qc_Height qc);
              b = put_varint pw b 3 (qc_Round qc);
              b = put_bytes pw b 4 (qc_SigBitmap qc);
              b = (if qc_AggregatedSig qc \<noteq> [] then put_bytes pw b 5 (qc_AggregatedSig qc) else b)
          in Inr (put_repeated pw 6 b (qc_Signatures qc)))"

definition MarshalViewChange :: "protowire \<Rightarrow> view_change option \<Rightarrow> error + bytes" where
  "MarshalViewChange pw vch =
     (case vch of
        None \<Rightarrow> Inl ''view change is nil''
      | Some vc \<Rightarrow>
          let b = [];
              b = put_varint pw b 1 (vc_Height vc);
              b = put_varint pw b 2 (vc_Round vc);
              b = put_bytes pw b 3 (bytes_of (vc_Validator vc));
              b = put_bytes pw b 4 (vc_Signature vc)
          in Inr b)"

text \<open>\<open>binary.BigEndian.PutUint64\<close> into a buffer of eight bytes.\<close>

definition MarshalUint64 :: "u64 \<Rightarrow> bytes" where
  "MarshalUint64 v =
     [ucast (drop_bit 56 v), ucast (drop_bit 48 v), ucast (drop_bit 40 v), ucast (drop_bit 32 v),
      ucast (drop_bit 24 v), ucast (drop_bit 16 v), ucast (drop_bit 8 v), ucast v]"

section \<open>Decoders\<close>

definition transaction_field ::
  "protowire \<Rightarrow> nat \<Rightarrow> nat \<Rightarrow> bytes \<Rightarrow> transaction \<Rightarrow> error + (bytes \<times> transaction)"
where
  "transaction_field pw num wt b tx =
     (if num = 1 then
        bind_err (take_bytes pw wt ''invalid from type'' ''invalid from'' b)
          (\<lambda>(v, b). Inr (b, tx\<lparr>tx_From := string_of v\<rparr>))
      else if num = 2 then
        bind_err (take_bytes pw wt ''invalid to type'' ''invalid to'' b)
          (\<lambda>(v, b). Inr (b, tx\<lparr>tx_To := string_of v\<rparr>))
      else if num = 3 then
        bind_err (take_varint pw wt ''invalid nonce type'' ''invalid nonce'' b)
          (\<lambda>(v, b). Inr (b, tx\<lparr>tx_Nonce := v\<rparr>))
      else if num = 4 then
        bind_err (take_bytes pw wt ''invalid payload type'' ''invalid payload'' b)
          (\<lambda>(v, b). Inr (b, tx\<lparr>tx_Payload := v\<rparr>))
      else if num = 5 then
        bind_err (take_bytes pw wt ''invalid signature type'' ''invalid signature'' b)
          (\<lambda>(v, b). Inr (b, tx\<lparr>tx_Signature := v\<rparr>))
      else skip_field pw num wt ''invalid transaction field'' b tx)"

definition UnmarshalTransaction :: "protowire \<Rightarrow> bytes \<Rightarrow> error + transaction" where
  "UnmarshalTransaction pw b =
     (if b = [] then Inl ''empty transaction''
      else decode_loop pw ''invalid transaction tag'' (transaction_field pw) b zero_transaction)"

definition block_field ::
  "protowire \<Rightarrow> nat \<Rightarrow> nat \<Rightarrow> bytes \<Rightarrow> block \<Rightarrow> error + (bytes \<times> block)"
where
  "block_field pw num wt b block =
     (if num = 1 then
        bind_err (take_varint pw wt ''invalid height type'' ''invalid height'' b)
          (\<lambda>(v, b). Inr (b, block\<lparr>bl_Height := v\<rparr>))
      else if num = 2 then
        bind_err (take_bytes pw wt ''invalid prev_hash type'' ''invalid prev_hash'' b)
          (\<lambda>(v, b). guard_err (length v \<noteq> 32) ''invalid prev_hash'' (Inr (b, block\<lparr>bl_PrevHash := v\<rparr>)))
      else if num = 3 then
        bind_err (take_bytes pw wt ''invalid state_root type'' ''invalid state_root'' b)
          (\<lambda>(v, b). guard_err (length v \<noteq> 32) ''invalid state_root'' (Inr (b, block\<lparr>bl_StateRoot := v\<rparr>)))
      else if num = 4 then
        bind_err (take_varint pw wt ''invalid timestamp type'' ''invalid timestamp'' b)
          (\<lambda>(v, b). Inr (b, block\<lparr>bl_Timestamp := v\<rparr>))
      else if num = 5 then
        bind_err (take_bytes pw wt ''invalid proposer type'' ''invalid proposer'' b)
          (\<lambda>(v, b). Inr (b, block\<lparr>bl_Proposer := string_of v\<rparr>))
      else if num = 6 then
        bind_err (take_bytes pw wt ''invalid tx type'' ''invalid tx bytes'' b)
          (\<lambda>(v, b). bind_err (UnmarshalTransaction pw v)
             (\<lambda>tx. Inr (b, block\<lparr>bl_Transactions := bl_Transactions block @ [Some tx]\<rparr>)))
      else if num = 7 then
        bind_err (take_bytes pw wt ''invalid validator sig type'' ''invalid validator sig'' b)
          (\<lambda>(v, b). Inr (b, block\<lparr>bl_ValidatorSigs := bl_ValidatorSigs block @ [v]\<rparr>))
      else skip_field pw num wt ''invalid block field'' b block)"

definition UnmarshalBlock :: "protowire \<Rightarrow> bytes \<Rightarrow> error + block" where
  "UnmarshalBlock pw b =
     (if b = [] then Inl ''empty block''
      else decode_loop pw ''invalid block tag'' (block_field pw) b zero_block)"

section \<open>Hashes\<close>

definition HashBytes :: "(bytes \<Rightarrow> hash) \<Rightarrow> bytes \<Rightarrow> hash" where
  "HashBytes sha256 data = sha256 data"

definition HashTransaction :: "protowire \<Rightarrow> (bytes \<Rightarrow> hash) \<Rightarrow> transaction option \<Rightarrow> error + hash" where
  "HashTransaction pw sha256 tx = bind_err (MarshalTransaction pw tx) (\<lambda>b. Inr (HashBytes sha256 b))"

definition HashBlock :: "protowire \<Rightarrow> (bytes \<Rightarrow> hash) \<Rightarrow> block option \<Rightarrow> error + hash" where
  "HashBlock pw sha256 block = bind_err (MarshalBlockForHash pw block) (\<lambda>b. Inr (HashBytes sha256 b))"

definition HashBlockFull :: "protowire \<Rightarrow> (bytes \<Rightarrow> hash) \<Rightarrow> block option \<Rightarrow> error + hash" where
  "HashBlockFull pw sha256 block = bind_err (MarshalBlock pw block) (\<lambda>b. Inr (HashBytes sha256 b))"

definition HashStateNode :: "protowire \<Rightarrow> (bytes \<Rightarrow> hash) \<Rightarrow> state_node option \<Rightarrow> error + hash" where
  "HashStateNode pw sha256 node = bind_err (MarshalStateNode pw node) (\<lambda>b. Inr (HashBytes sha256 b))"

definition HashQuorumCertificate ::
  "protowire \<Rightarrow> (bytes \<Rightarrow> hash) \<Rightarrow> quorum_certificate option \<Rightarrow> error + hash" where
  "HashQuorumCertificate pw sha256 qc =
     bind_err (MarshalQuorumCertificate pw qc) (\<lambda>b. Inr (HashBytes sha256 b))"

definition HashProposal :: "protowire \<Rightarrow> (bytes \<Rightarrow> hash) \<Rightarrow> proposal option \<Rightarrow> error + hash" where
  "HashProposal pw sha256 p = bind_err (MarshalProposal pw p) (\<lambda>b. Inr (HashBytes sha256 b))"

definition HashPrecommitVote ::
  "protowire \<Rightarrow> (bytes \<Rightarrow> hash) \<Rightarrow> precommit_vote option \<Rightarrow> error + hash" where
  "HashPrecommitVote pw sha256 v = bind_err (MarshalPrecommitVote pw v) (\<lambda>b. Inr (HashBytes sha256 b))"

definition HashViewChange :: "protowire \<Rightarrow> (bytes \<Rightarrow> hash) \<Rightarrow> view_change option \<Rightarrow> error + hash" where
  "HashViewChange pw sha256 vc = bind_err (MarshalViewChange pw vc) (\<lambda>b. Inr (HashBytes sha256 b))"

definition HashBytesOrErr :: "(bytes \<Rightarrow> hash) \<Rightarrow> bytes \<Rightarrow> error option \<Rightarrow> error + hash" where
  "HashBytesOrErr sha256 data err =
     (case err of Some e \<Rightarrow> Inl (''hash bytes: '' @ e) | None \<Rightarrow> Inr (HashBytes sha256 data))"

section \<open>Decoding inverts encoding\<close>

text \<open>The switches at a given field number, the form in which the decoding loop meets them.\<close>

lemmas transaction_field_at =
  transaction_field_def [of _ "Suc 0"] transaction_field_def [of _ "numeral n" for n]

lemmas block_field_at = block_field_def [of _ "Suc 0"] block_field_def [of _ "numeral n" for n]

lemma transaction_field_reader [simp]: "field_reader (transaction_field pw)"
  by (auto simp: field_reader_def transaction_field_def intro!: reads_within_intros)

lemma MarshalTransaction_Some: "\<exists>b. MarshalTransaction pw (Some tx) = Inr b"
  by (simp add: MarshalTransaction_def Let_def)

text \<open>The fields both block encoders write first.\<close>

definition block_header :: "protowire \<Rightarrow> block \<Rightarrow> bytes" where
  "block_header pw blk = put_bytes pw (put_varint pw (put_bytes pw (put_bytes pw (put_varint pw []
     1 (bl_Height blk)) 2 (bl_PrevHash blk)) 3 (bl_StateRoot blk)) 4 (bl_Timestamp blk))
     5 (bytes_of (bl_Proposer blk))"

context protowire_laws
begin

lemma MarshalTransaction_nonempty: "MarshalTransaction pw txn = Inr b \<Longrightarrow> b \<noteq> []"
  by (auto simp: MarshalTransaction_def Let_def put_bytes_append put_varint_append
      split: option.splits)

lemma UnmarshalTransaction_returns: "UnmarshalTransaction pw b \<noteq> Inl diverges"
  by (simp add: UnmarshalTransaction_def)

lemma transaction_roundtrip:
  assumes "MarshalTransaction pw (Some tx) = Inr b"
  shows "UnmarshalTransaction pw b = Inr tx"
proof -
  have "b \<noteq> []" using assms by (rule MarshalTransaction_nonempty)
  then show ?thesis using assms
    by (auto simp: MarshalTransaction_def UnmarshalTransaction_def Let_def wire_roundtrip
        transaction_field_at zero_transaction_def)
qed

lemma block_field_reader [simp]: "field_reader (block_field pw)"
  using UnmarshalTransaction_returns
  by (auto simp: field_reader_def block_field_def intro!: reads_within_intros)

lemma UnmarshalBlock_returns: "UnmarshalBlock pw b \<noteq> Inl diverges"
  by (simp add: UnmarshalBlock_def)

lemma put_repeated_append:
  assumes "1 \<le> num" "num < 2 ^ 29"
  shows "put_repeated pw num b vs = b @ put_repeated pw num [] vs"
proof (induction vs arbitrary: b)
  case (Cons v vs)
  have "put_bytes pw b num v = b @ put_bytes pw [] num v"
    using assms by (simp add: put_bytes_append)
  then show ?case
    by (simp add: Cons [of "b @ put_bytes pw [] num v"] Cons [of "put_bytes pw [] num v"])
qed simp

lemma put_repeated_Cons:
  assumes "1 \<le> num" "num < 2 ^ 29"
  shows "put_repeated pw num [] (v # vs)
       = AppendTag pw [] num BytesType @ AppendBytes pw [] v @ put_repeated pw num [] vs"
proof -
  have "put_repeated pw num [] (v # vs) = put_bytes pw [] num v @ put_repeated pw num [] vs"
    using put_repeated_append [OF assms, of "put_bytes pw [] num v" vs] by simp
  then show ?thesis using assms by (simp add: put_bytes_append)
qed

lemma put_transactions_append:
  "put_transactions pw b txs = bind_err (put_transactions pw [] txs) (\<lambda>e. Inr (b @ e))"
proof (induction txs arbitrary: b)
  case (Cons tx txs)
  have "put_bytes pw b 6 v = b @ put_bytes pw [] 6 v" for v
    by (simp add: put_bytes_append)
  then show ?case
    by (cases "MarshalTransaction pw tx"; cases "put_transactions pw [] txs")
      (simp_all add: Cons [of "b @ put_bytes pw [] 6 v" for v] Cons [of "put_bytes pw [] 6 v" for v])
qed simp

lemma put_transactions_Cons:
  assumes "put_transactions pw [] (Some tx # txs) = Inr e"
  obtains txb e' where "MarshalTransaction pw (Some tx) = Inr txb"
    and "put_transactions pw [] txs = Inr e'"
    and "e = AppendTag pw [] 6 BytesType @ AppendBytes pw [] txb @ e'"
proof -
  obtain txb where txb: "MarshalTransaction pw (Some tx) = Inr txb"
    using MarshalTransaction_Some by blast
  then have "put_transactions pw (put_bytes pw [] 6 txb) txs = Inr e" using assms by simp
  then obtain e' where "put_transactions pw [] txs = Inr e'" "e = put_bytes pw [] 6 txb @ e'"
    unfolding put_transactions_append [of "put_bytes pw [] 6 txb"] by auto
  with txb that show thesis by (simp add: put_bytes_append)
qed

lemma put_transactions_total:
  "None \<notin> set txs \<Longrightarrow> \<exists>e. put_transactions pw b txs = Inr e"
proof (induction txs arbitrary: b)
  case (Cons tx txs)
  then obtain tx' where "tx = Some tx'" by (cases tx) auto
  then show ?case using Cons MarshalTransaction_Some [of pw tx'] by auto
qed simp

lemma put_transactions_nil_entry:
  "None \<in> set txs \<Longrightarrow> put_transactions pw b txs = Inl ''transaction is nil''"
proof (induction txs arbitrary: b)
  case (Cons tx txs)
  show ?case
  proof (cases tx)
    case (Some tx')
    then show ?thesis using Cons MarshalTransaction_Some [of pw tx'] by auto
  qed (simp add: MarshalTransaction_def)
qed simp

text \<open>Reading the repeated fields back appends them to what the block already holds.\<close>

lemma decode_transactions:
  assumes "None \<notin> set txs" and "put_transactions pw [] txs = Inr e"
  shows "decode_loop pw et (block_field pw) (e @ r) blk
       = decode_loop pw et (block_field pw) r (blk\<lparr>bl_Transactions := bl_Transactions blk @ txs\<rparr>)"
  using assms
proof (induction txs arbitrary: e blk)
  case (Cons tx txs)
  then obtain tx' where tx: "tx = Some tx'" by (cases tx) auto
  then have "put_transactions pw [] (Some tx' # txs) = Inr e" using Cons.prems(2) by simp
  then obtain txb e' where enc: "MarshalTransaction pw (Some tx') = Inr txb"
    "put_transactions pw [] txs = Inr e'"
    "e = AppendTag pw [] 6 BytesType @ AppendBytes pw [] txb @ e'"
    by (rule put_transactions_Cons)
  then show ?case using Cons.IH [OF _ enc(2)] Cons.prems(1) tx transaction_roundtrip [OF enc(1)]
    by (simp add: decode_loop_field block_field_at)
qed simp

lemma decode_signatures:
  "decode_loop pw et (block_field pw) (put_repeated pw 7 [] vs) blk
   = Inr (blk\<lparr>bl_ValidatorSigs := bl_ValidatorSigs blk @ vs\<rparr>)"
proof (induction vs arbitrary: blk)
  case (Cons v vs)
  have "put_repeated pw 7 [] (v # vs)
      = AppendTag pw [] 7 BytesType @ AppendBytes pw [] v @ put_repeated pw 7 [] vs"
    by (rule put_repeated_Cons) simp_all
  then show ?case by (simp del: put_repeated.simps add: decode_loop_field block_field_at Cons)
qed simp

lemma MarshalBlockForHash_eq:
  "MarshalBlockForHash pw (Some blk)
   = bind_err (put_transactions pw [] (bl_Transactions blk)) (\<lambda>e. Inr (block_header pw blk @ e))"
  using put_transactions_append [of "block_header pw blk"]
  by (simp add: MarshalBlockForHash_def Let_def block_header_def)

lemma MarshalBlock_eq:
  "MarshalBlock pw (Some blk)
   = bind_err (MarshalBlockForHash pw (Some blk))
       (\<lambda>b. Inr (b @ put_repeated pw 7 [] (bl_ValidatorSigs blk)))"
proof (cases "MarshalBlockForHash pw (Some blk)")
  case (Inr b)
  have "put_repeated pw 7 b (bl_ValidatorSigs blk) = b @ put_repeated pw 7 [] (bl_ValidatorSigs blk)"
    by (rule put_repeated_append) simp_all
  with Inr show ?thesis by (simp add: MarshalBlock_def MarshalBlockForHash_def Let_def)
qed (simp add: MarshalBlock_def MarshalBlockForHash_def Let_def)

lemma decode_header:
  assumes "length (bl_PrevHash blk) = 32" "length (bl_StateRoot blk) = 32"
  shows "decode_loop pw et (block_field pw) (block_header pw blk @ r) zero_block
       = decode_loop pw et (block_field pw) r (blk\<lparr>bl_Transactions := [], bl_ValidatorSigs := []\<rparr>)"
  using assms by (cases blk) (simp add: block_header_def wire_roundtrip block_field_at zero_block_def)

lemma block_header_nonempty: "block_header pw blk \<noteq> []"
  by (simp add: block_header_def put_bytes_append put_varint_append)

text \<open>A block as Go can hold one: its hashes are arrays of 32 bytes. A nil transaction is the
  one value that has no encoding.\<close>

lemma block_roundtrip:
  assumes "length (bl_PrevHash blk) = 32" "length (bl_StateRoot blk) = 32"
    and "MarshalBlock pw (Some blk) = Inr b"
  shows "UnmarshalBlock pw b = Inr blk"
proof -
  obtain e where e: "put_transactions pw [] (bl_Transactions blk) = Inr e"
    and b: "b = block_header pw blk @ e @ put_repeated pw 7 [] (bl_ValidatorSigs blk)"
    using assms(3) unfolding MarshalBlock_eq MarshalBlockForHash_eq by auto
  have some: "None \<notin> set (bl_Transactions blk)"
    using e put_transactions_nil_entry [of "bl_Transactions blk" "[]"] by auto
  show ?thesis
    by (simp add: UnmarshalBlock_def b block_header_nonempty decode_header [OF assms(1,2)]
        decode_transactions [OF some e] decode_signatures)
qed

text \<open>The hashed encoding is the full one of the block without its signatures.\<close>

lemma MarshalBlockForHash_no_sigs:
  "MarshalBlockForHash pw (Some blk) = MarshalBlock pw (Some (blk\<lparr>bl_ValidatorSigs := []\<rparr>))"
  unfolding MarshalBlock_eq MarshalBlockForHash_eq by (simp add: block_header_def bind_err_assoc)

lemma MarshalBlockForHash_inject:
  assumes "length (bl_PrevHash blk) = 32" "length (bl_StateRoot blk) = 32"
    and "length (bl_PrevHash blk') = 32" "length (bl_StateRoot blk') = 32"
    and "MarshalBlockForHash pw (Some blk) = Inr b" "MarshalBlockForHash pw (Some blk') = Inr b"
  shows "blk\<lparr>bl_ValidatorSigs := []\<rparr> = blk'\<lparr>bl_ValidatorSigs := []\<rparr>"
proof -
  have "UnmarshalBlock pw b = Inr (blk\<lparr>bl_ValidatorSigs := []\<rparr>)"
    using assms(1,2,5) by (intro block_roundtrip) (simp_all flip: MarshalBlockForHash_no_sigs)
  moreover have "UnmarshalBlock pw b = Inr (blk'\<lparr>bl_ValidatorSigs := []\<rparr>)"
    using assms(3,4,6) by (intro block_roundtrip) (simp_all flip: MarshalBlockForHash_no_sigs)
  ultimately show ?thesis by simp
qed

text \<open>The messages that are signed determine what was signed.\<close>

lemma MarshalTransaction_inject:
  assumes "MarshalTransaction pw (Some tx) = MarshalTransaction pw (Some tx')"
  shows "tx = tx'"
proof -
  obtain b where "MarshalTransaction pw (Some tx) = Inr b" using MarshalTransaction_Some by blast
  then show ?thesis using assms transaction_roundtrip [of tx b] transaction_roundtrip [of tx' b] by simp
qed

end

section \<open>Properties\<close>

text \<open>Property C32. A block with hashes of 32 bytes is encoded unless it holds a nil transaction,
  which is the only error, and decoding the encoding gives the block back: every transaction
  and signature, in order.\<close>

theorem block_codec_roundtrip:
  assumes "protowire_laws pw" and "length (bl_PrevHash blk) = 32" and "length (bl_StateRoot blk) = 32"
  shows "if None \<in> set (bl_Transactions blk)
       then MarshalBlock pw (Some blk) = Inl ''transaction is nil''
       else \<exists>b. MarshalBlock pw (Some blk) = Inr b \<and> UnmarshalBlock pw b = Inr blk"
proof (cases "None \<in> set (bl_Transactions blk)")
  case True
  then have "put_transactions pw [] (bl_Transactions blk) = Inl ''transaction is nil''"
    by (rule protowire_laws.put_transactions_nil_entry [OF assms(1)])
  with True show ?thesis
    by (simp add: protowire_laws.MarshalBlock_eq [OF assms(1)] protowire_laws.MarshalBlockForHash_eq [OF assms(1)])
next
  case False
  then obtain e where "put_transactions pw [] (bl_Transactions blk) = Inr e"
    using protowire_laws.put_transactions_total [OF assms(1)] by blast
  then obtain b where "MarshalBlock pw (Some blk) = Inr b"
    by (simp add: protowire_laws.MarshalBlock_eq [OF assms(1)] protowire_laws.MarshalBlockForHash_eq [OF assms(1)])
  with False protowire_laws.block_roundtrip [OF assms this] show ?thesis by simp
qed

lemma block_codec_roundtrip_witness:
  "\<exists>b. MarshalBlock wire_format (Some (zero_block\<lparr>bl_Height := 300, bl_ValidatorSigs := [[1], []]\<rparr>)) = Inr b
     \<and> UnmarshalBlock wire_format b = Inr (zero_block\<lparr>bl_Height := 300, bl_ValidatorSigs := [[1], []]\<rparr>)"
  using block_codec_roundtrip [OF wire.protowire_laws_axioms,
      of "zero_block\<lparr>bl_Height := 300, bl_ValidatorSigs := [[1], []]\<rparr>"]
  by (simp add: zero_block_def zero_hash_def)

text \<open>Property. The block hash commits to everything in the block but the validator
  signatures: two blocks with the same hash differ at most in their signatures, or their two
  header encodings are a collision of the hash function.\<close>

theorem block_hash_commits:
  assumes "protowire_laws pw"
    and "length (bl_PrevHash b1) = 32" "length (bl_StateRoot b1) = 32"
    and "length (bl_PrevHash b2) = 32" "length (bl_StateRoot b2) = 32"
    and "HashBlock pw sha256 (Some b1) = Inr h" and "HashBlock pw sha256 (Some b2) = Inr h"
  shows "b1\<lparr>bl_ValidatorSigs := []\<rparr> = b2\<lparr>bl_ValidatorSigs := []\<rparr>
       \<or> (\<exists>m1 m2. MarshalBlockForHash pw (Some b1) = Inr m1 \<and> MarshalBlockForHash pw (Some b2) = Inr m2
            \<and> m1 \<noteq> m2 \<and> sha256 m1 = sha256 m2)"
proof -
  obtain m1 m2 where m: "MarshalBlockForHash pw (Some b1) = Inr m1" "MarshalBlockForHash pw (Some b2) = Inr m2"
    "sha256 m1 = h" "sha256 m2 = h"
    using assms(6,7) by (auto simp: HashBlock_def HashBytes_def)
  show ?thesis
  proof (cases "m1 = m2")
    case True
    then show ?thesis
      using protowire_laws.MarshalBlockForHash_inject [OF assms(1-5) m(1)] m(2) by simp
  qed (use m in simp)
qed

lemma block_hash_commits_witness:
  "bl_Height ((zero_block\<lparr>bl_Height := 5, bl_ValidatorSigs := [[1]]\<rparr>)\<lparr>bl_ValidatorSigs := []\<rparr>) = 5
   \<and> (\<exists>h. HashBlock wire_format id (Some (zero_block\<lparr>bl_Height := 5, bl_ValidatorSigs := [[1]]\<rparr>)) = Inr h
        \<and> HashBlock wire_format id (Some (zero_block\<lparr>bl_Height := 5\<rparr>)) = Inr h)"
proof -
  define b1 b2 where "b1 = zero_block\<lparr>bl_Height := 5, bl_ValidatorSigs := [[1]]\<rparr>"
    and "b2 = zero_block\<lparr>bl_Height := 5\<rparr>"
  have len: "length (bl_PrevHash b1) = 32" "length (bl_StateRoot b1) = 32"
    "length (bl_PrevHash b2) = 32" "length (bl_StateRoot b2) = 32"
    by (simp_all add: b1_def b2_def zero_block_def zero_hash_def)
  obtain h where h: "HashBlock wire_format id (Some b1) = Inr h" "HashBlock wire_format id (Some b2) = Inr h"
    by (simp add: HashBlock_def wire.MarshalBlockForHash_eq b1_def b2_def zero_block_def block_header_def)
  from block_hash_commits [OF wire.protowire_laws_axioms len h]
  have "bl_Height (b1\<lparr>bl_ValidatorSigs := []\<rparr>) = bl_Height (b2\<lparr>bl_ValidatorSigs := []\<rparr>)"
    by (auto simp: HashBlock_def HashBytes_def)
  with h show ?thesis by (simp add: b1_def b2_def)
qed

end
