(* ===== verification/Payload.thy ===== *)
theory Payload
  imports Encoding
begin

text \<open>
  Transaction payloads, \<open>pkg/tx/payload.go\<close> and \<open>payload_encoding.go\<close>: the seven payload
  structs, their encoding as field \<open>1\<close> to \<open>7\<close> of the envelope with the optional sender key as
  field \<open>8\<close>, and the decoder with its duplicate checks. Each decoder is the shared loop over
  the body of its switch. The lemmas show that decoding inverts encoding for every payload
  and key, and that the decoder returns on every input.
\<close>

section \<open>Payloads\<close>

record transfer =
  tr_To :: address
  tr_Amount :: u64

record stake_delegate =
  sd_Validator :: address
  sd_Amount :: u64

record stake_undelegate =
  su_Validator :: address
  su_Amount :: u64

record contract_deploy =
  cd_WASMCode :: bytes
  cd_Salt :: bytes

record contract_call =
  cc_Address :: address
  cc_Method :: string
  cc_Args :: "bytes list"

record proposal_payload =
  pp_Title :: string
  pp_Description :: string
  pp_ParamKey :: string
  pp_ParamValue :: string

record vote_payload =
  vp_ProposalID :: u64
  vp_Option :: vote_option

text \<open>The interface \<open>Payload\<close>: a value of one of the structs. A type switch on a pointer does
  what it does on the value.\<close>

datatype payload =
  Transfer transfer
| StakeDelegate stake_delegate
| StakeUndelegate stake_undelegate
| ContractDeploy contract_deploy
| ContractCall contract_call
| GovernanceProposal proposal_payload
| GovernanceVote vote_payload

fun PayloadType :: "payload \<Rightarrow> nat" where
  "PayloadType (Transfer _) = 1"
| "PayloadType (StakeDelegate _) = 2"
| "PayloadType (StakeUndelegate _) = 3"
| "PayloadType (ContractDeploy _) = 4"
| "PayloadType (ContractCall _) = 5"
| "PayloadType (GovernanceProposal _) = 6"
| "PayloadType (GovernanceVote _) = 7"

record payload_envelope =
  env_Payload :: "payload option"
  env_SenderPubKey :: bytes

section \<open>Encoders\<close>

definition encodeTransfer :: "protowire \<Rightarrow> transfer \<Rightarrow> bytes" where
  "encodeTransfer pw t =
     (let inner = [];
          inner = put_bytes pw inner 1 (bytes_of (tr_To t));
          inner = put_varint pw inner 2 (tr_Amount t)
      in put_bytes pw [] 1 inner)"

definition encodeStakeDelegate :: "protowire \<Rightarrow> stake_delegate \<Rightarrow> bytes" where
  "encodeStakeDelegate pw t =
     (let inner = [];
          inner = put_bytes pw inner 1 (bytes_of (sd_Validator t));
          inner = put_varint pw inner 2 (sd_Amount t)
      in put_bytes pw [] 2 inner)"

definition encodeStakeUndelegate :: "protowire \<Rightarrow> stake_undelegate \<Rightarrow> bytes" where
  "encodeStakeUndelegate pw t =
     (let inner = [];
          inner = put_bytes pw inner 1 (bytes_of (su_Validator t));
          inner = put_varint pw inner 2 (su_Amount t)
      in put_bytes pw [] 3 inner)"

definition encodeContractDeploy :: "protowire \<Rightarrow> contract_deploy \<Rightarrow> bytes" where
  "encodeContractDeploy pw t =
     (let inner = [];
          inner = put_bytes pw inner 1 (cd_WASMCode t);
          inner = put_bytes pw inner 2 (cd_Salt t)
      in put_bytes pw [] 4 inner)"

definition encodeContractCall :: "protowire \<Rightarrow> contract_call \<Rightarrow> bytes" where
  "encodeContractCall pw t =
     (let inner = [];
          inner = put_bytes pw inner 1 (bytes_of (cc_Address t));
          inner = put_bytes pw inner 2 (bytes_of (cc_Method t));
          inner = put_repeated pw 3 inner (cc_Args t)
      in put_bytes pw [] 5 inner)"

definition encodeGovernanceProposal :: "protowire \<Rightarrow> proposal_payload \<Rightarrow> bytes" where
  "encodeGovernanceProposal pw t =
     (let inner = [];
          inner = put_bytes pw inner 1 (bytes_of (pp_Title t));
          inner = put_bytes pw inner 2 (bytes_of (pp_Description t));
          inner = put_bytes pw inner 3 (bytes_of (pp_ParamKey t));
          inner = put_bytes pw inner 4 (bytes_of (pp_ParamValue t))
      in put_bytes pw [] 6 inner)"

definition encodeGovernanceVote :: "protowire \<Rightarrow> vote_payload \<Rightarrow> bytes" where
  "encodeGovernanceVote pw t =
     (let inner = [];
          inner = put_varint pw inner 1 (vp_ProposalID t);
          inner = put_varint pw inner 2 (ucast (vp_Option t))
      in put_bytes pw [] 7 inner)"

fun encode_variant :: "protowire \<Rightarrow> payload \<Rightarrow> bytes" where
  "encode_variant pw (Transfer v) = encodeTransfer pw v"
| "encode_variant pw (StakeDelegate v) = encodeStakeDelegate pw v"
| "encode_variant pw (StakeUndelegate v) = encodeStakeUndelegate pw v"
| "encode_variant pw (ContractDeploy v) = encodeContractDeploy pw v"
| "encode_variant pw (ContractCall v) = encodeContractCall pw v"
| "encode_variant pw (GovernanceProposal v) = encodeGovernanceProposal pw v"
| "encode_variant pw (GovernanceVote v) = encodeGovernanceVote pw v"

definition EncodePayload :: "protowire \<Rightarrow> payload option \<Rightarrow> bytes \<Rightarrow> error + bytes" where
  "EncodePayload pw p senderPubKey =
     (case p of
        None \<Rightarrow> Inl ''payload is nil''
      | Some v \<Rightarrow>
          let out = encode_variant pw v;
              out = (if senderPubKey \<noteq> [] then put_bytes pw out 8 senderPubKey else out)
          in Inr out)"

section \<open>Decoders\<close>

definition transfer_field ::
  "protowire \<Rightarrow> nat \<Rightarrow> nat \<Rightarrow> bytes \<Rightarrow> transfer \<Rightarrow> error + (bytes \<times> transfer)"
where
  "transfer_field pw num wt b out =
     (if num = 1 then
        bind_err (take_bytes pw wt ''invalid transfer to type'' ''invalid transfer to'' b)
          (\<lambda>(v, b). Inr (b, out\<lparr>tr_To := string_of v\<rparr>))
      else if num = 2 then
        bind_err (take_varint pw wt ''invalid transfer amount type'' ''invalid transfer amount'' b)
          (\<lambda>(v, b). Inr (b, out\<lparr>tr_Amount := v\<rparr>))
      else skip_field pw num wt ''invalid transfer field'' b out)"

definition decodeTransfer :: "protowire \<Rightarrow> bytes \<Rightarrow> error + payload" where
  "decodeTransfer pw b =
     bind_err (decode_loop pw ''invalid transfer tag'' (transfer_field pw) b
        \<lparr>tr_To = [], tr_Amount = 0\<rparr>)
       (\<lambda>out. Inr (Transfer out))"

definition delegate_field ::
  "protowire \<Rightarrow> nat \<Rightarrow> nat \<Rightarrow> bytes \<Rightarrow> stake_delegate \<Rightarrow> error + (bytes \<times> stake_delegate)"
where
  "delegate_field pw num wt b out =
     (if num = 1 then
        bind_err (take_bytes pw wt ''invalid validator type'' ''invalid validator'' b)
          (\<lambda>(v, b). Inr (b, out\<lparr>sd_Validator := string_of v\<rparr>))
      else if num = 2 then
        bind_err (take_varint pw wt ''invalid amount type'' ''invalid amount'' b)
          (\<lambda>(v, b). Inr (b, out\<lparr>sd_Amount := v\<rparr>))
      else skip_field pw num wt ''invalid delegate field'' b out)"

definition decodeStakeDelegate :: "protowire \<Rightarrow> bytes \<Rightarrow> error + payload" where
  "decodeStakeDelegate pw b =
     bind_err (decode_loop pw ''invalid stake delegate tag'' (delegate_field pw) b
        \<lparr>sd_Validator = [], sd_Amount = 0\<rparr>)
       (\<lambda>out. Inr (StakeDelegate out))"

definition undelegate_field ::
  "protowire \<Rightarrow> nat \<Rightarrow> nat \<Rightarrow> bytes \<Rightarrow> stake_undelegate \<Rightarrow> error + (bytes \<times> stake_undelegate)"
where
  "undelegate_field pw num wt b out =
     (if num = 1 then
        bind_err (take_bytes pw wt ''invalid validator type'' ''invalid validator'' b)
          (\<lambda>(v, b). Inr (b, out\<lparr>su_Validator := string_of v\<rparr>))
      else if num = 2 then
        bind_err (take_varint pw wt ''invalid amount type'' ''invalid amount'' b)
          (\<lambda>(v, b). Inr (b, out\<lparr>su_Amount := v\<rparr>))
      else skip_field pw num wt ''invalid undelegate field'' b out)"

definition decodeStakeUndelegate :: "protowire \<Rightarrow> bytes \<Rightarrow> error + payload" where
  "decodeStakeUndelegate pw b =
     bind_err (decode_loop pw ''invalid stake undelegate tag'' (undelegate_field pw) b
        \<lparr>su_Validator = [], su_Amount = 0\<rparr>)
       (\<lambda>out. Inr (StakeUndelegate out))"

definition deploy_field ::
  "protowire \<Rightarrow> nat \<Rightarrow> nat \<Rightarrow> bytes \<Rightarrow> contract_deploy \<Rightarrow> error + (bytes \<times> contract_deploy)"
where
  "deploy_field pw num wt b out =
     (if num = 1 then
        bind_err (take_bytes pw wt ''invalid wasm code type'' ''invalid wasm code'' b)
          (\<lambda>(v, b). Inr (b, out\<lparr>cd_WASMCode := v\<rparr>))
      else if num = 2 then
        bind_err (take_bytes pw wt ''invalid salt type'' ''invalid salt'' b)
          (\<lambda>(v, b). Inr (b, out\<lparr>cd_Salt := v\<rparr>))
      else skip_field pw num wt ''invalid deploy field'' b out)"

definition decodeContractDeploy :: "protowire \<Rightarrow> bytes \<Rightarrow> error + payload" where
  "decodeContractDeploy pw b =
     bind_err (decode_loop pw ''invalid contract deploy tag'' (deploy_field pw) b
        \<lparr>cd_WASMCode = [], cd_Salt = []\<rparr>)
       (\<lambda>out. Inr (ContractDeploy out))"

definition call_field ::
  "protowire \<Rightarrow> nat \<Rightarrow> nat \<Rightarrow> bytes \<Rightarrow> contract_call \<Rightarrow> error + (bytes \<times> contract_call)"
where
  "call_field pw num wt b out =
     (if num = 1 then
        bind_err (take_bytes pw wt ''invalid address type'' ''invalid address'' b)
          (\<lambda>(v, b). Inr (b, out\<lparr>cc_Address := string_of v\<rparr>))
      else if num = 2 then
        bind_err (take_bytes pw wt ''invalid method type'' ''invalid method'' b)
          (\<lambda>(v, b). Inr (b, out\<lparr>cc_Method := string_of v\<rparr>))
      else if num = 3 then
        bind_err (take_bytes pw wt ''invalid args type'' ''invalid arg'' b)
          (\<lambda>(v, b). Inr (b, out\<lparr>cc_Args := cc_Args out @ [v]\<rparr>))
      else skip_field pw num wt ''invalid call field'' b out)"

definition decodeContractCall :: "protowire \<Rightarrow> bytes \<Rightarrow> error + payload" where
  "decodeContractCall pw b =
     bind_err (decode_loop pw ''invalid contract call tag'' (call_field pw) b
        \<lparr>cc_Address = [], cc_Method = [], cc_Args = []\<rparr>)
       (\<lambda>out. Inr (ContractCall out))"

definition proposal_field ::
  "protowire \<Rightarrow> nat \<Rightarrow> nat \<Rightarrow> bytes \<Rightarrow> proposal_payload \<Rightarrow> error + (bytes \<times> proposal_payload)"
where
  "proposal_field pw num wt b out =
     (if num = 1 then
        bind_err (take_bytes pw wt ''invalid title type'' ''invalid title'' b)
          (\<lambda>(v, b). Inr (b, out\<lparr>pp_Title := string_of v\<rparr>))
      else if num = 2 then
        bind_err (take_bytes pw wt ''invalid description type'' ''invalid description'' b)
          (\<lambda>(v, b). Inr (b, out\<lparr>pp_Description := string_of v\<rparr>))
      else if num = 3 then
        bind_err (take_bytes pw wt ''invalid param key type'' ''invalid param key'' b)
          (\<lambda>(v, b). Inr (b, out\<lparr>pp_ParamKey := string_of v\<rparr>))
      else if num = 4 then
        bind_err (take_bytes pw wt ''invalid param value type'' ''invalid param value'' b)
          (\<lambda>(v, b). Inr (b, out\<lparr>pp_ParamValue := string_of v\<rparr>))
      else skip_field pw num wt ''invalid governance field'' b out)"

definition decodeGovernanceProposal :: "protowire \<Rightarrow> bytes \<Rightarrow> error + payload" where
  "decodeGovernanceProposal pw b =
     bind_err (decode_loop pw ''invalid governance proposal tag'' (proposal_field pw) b
        \<lparr>pp_Title = [], pp_Description = [], pp_ParamKey = [], pp_ParamValue = []\<rparr>)
       (\<lambda>out. Inr (GovernanceProposal out))"

definition vote_field ::
  "protowire \<Rightarrow> nat \<Rightarrow> nat \<Rightarrow> bytes \<Rightarrow> vote_payload \<Rightarrow> error + (bytes \<times> vote_payload)"
where
  "vote_field pw num wt b out =
     (if num = 1 then
        bind_err (take_varint pw wt ''invalid proposal id type'' ''invalid proposal id'' b)
          (\<lambda>(v, b). Inr (b, out\<lparr>vp_ProposalID := v\<rparr>))
      else if num = 2 then
        bind_err (take_varint pw wt ''invalid vote option type'' ''invalid vote option'' b)
          (\<lambda>(v, b). Inr (b, out\<lparr>vp_Option := ucast v\<rparr>))
      else skip_field pw num wt ''invalid vote field'' b out)"

definition decodeGovernanceVote :: "protowire \<Rightarrow> bytes \<Rightarrow> error + payload" where
  "decodeGovernanceVote pw b =
     bind_err (decode_loop pw ''invalid governance vote tag'' (vote_field pw) b
        \<lparr>vp_ProposalID = 0, vp_Option = VoteOptionUnspecified\<rparr>)
       (\<lambda>out. Inr (GovernanceVote out))"

text \<open>The shape of the cases \<open>1\<close> to \<open>7\<close> of \<open>DecodePayload\<close>: consume, advance, refuse a second
  payload, decode.\<close>

definition payload_case ::
  "protowire \<Rightarrow> nat \<Rightarrow> error \<Rightarrow> error \<Rightarrow> (bytes \<Rightarrow> error + payload) \<Rightarrow> bytes \<Rightarrow> payload_envelope
   \<Rightarrow> error + (bytes \<times> payload_envelope)"
where
  "payload_case pw wt e_typ e_val dec b env =
     bind_err (take_bytes pw wt e_typ e_val b) (\<lambda>(v, b).
       bind_err (guard_err (env_Payload env \<noteq> None) ''duplicate payload'' (dec v))
         (\<lambda>p. Inr (b, env\<lparr>env_Payload := Some p\<rparr>)))"

definition payload_field ::
  "protowire \<Rightarrow> nat \<Rightarrow> nat \<Rightarrow> bytes \<Rightarrow> payload_envelope \<Rightarrow> error + (bytes \<times> payload_envelope)"
where
  "payload_field pw num wt b env =
     (if num = 1 then
        payload_case pw wt ''unexpected transfer wire type'' ''invalid transfer bytes''
          (decodeTransfer pw) b env
      else if num = 2 then
        payload_case pw wt ''unexpected stake delegate wire type'' ''invalid stake delegate bytes''
          (decodeStakeDelegate pw) b env
      else if num = 3 then
        payload_case pw wt ''unexpected stake undelegate wire type'' ''invalid stake undelegate bytes''
          (decodeStakeUndelegate pw) b env
      else if num = 4 then
        payload_case pw wt ''unexpected contract deploy wire type'' ''invalid contract deploy bytes''
          (decodeContractDeploy pw) b env
      else if num = 5 then
        payload_case pw wt ''unexpected contract call wire type'' ''invalid contract call bytes''
          (decodeContractCall pw) b env
      else if num = 6 then
        payload_case pw wt ''unexpected governance proposal wire type'' ''invalid governance proposal bytes''
          (decodeGovernanceProposal pw) b env
      else if num = 7 then
        payload_case pw wt ''unexpected governance vote wire type'' ''invalid governance vote bytes''
          (decodeGovernanceVote pw) b env
      else if num = 8 then
        guard_err (wt \<noteq> BytesType) ''unexpected sender_pubkey wire type''
       (guard_err (env_SenderPubKey env \<noteq> []) ''duplicate sender_pubkey''
          (bind_err (take_bytes pw wt ''unexpected sender_pubkey wire type'' ''invalid sender_pubkey bytes'' b)
             (\<lambda>(v, b). Inr (b, env\<lparr>env_SenderPubKey := v\<rparr>))))
      else skip_field pw num wt ''invalid payload field'' b env)"

definition DecodePayload :: "protowire \<Rightarrow> bytes \<Rightarrow> error + payload_envelope" where
  "DecodePayload pw payload =
     (if payload = [] then Inl ''empty payload''
      else bind_err (decode_loop pw ''invalid payload tag'' (payload_field pw) payload
             \<lparr>env_Payload = None, env_SenderPubKey = []\<rparr>)
        (\<lambda>env. guard_err (env_Payload env = None) ''payload not found'' (Inr env)))"

section \<open>Decoding returns, and inverts encoding\<close>

lemma field_readers:
  "field_reader (transfer_field pw)"
  "field_reader (delegate_field pw)"
  "field_reader (undelegate_field pw)"
  "field_reader (deploy_field pw)"
  "field_reader (call_field pw)"
  "field_reader (proposal_field pw)"
  "field_reader (vote_field pw)"
  by (auto simp: field_reader_def transfer_field_def delegate_field_def undelegate_field_def deploy_field_def call_field_def proposal_field_def vote_field_def
      intro!: reads_within_intros)

declare field_readers [simp]

lemmas payload_field_at =
  transfer_field_def [of _ "Suc 0"] transfer_field_def [of _ "numeral n" for n]
  delegate_field_def [of _ "Suc 0"] delegate_field_def [of _ "numeral n" for n]
  undelegate_field_def [of _ "Suc 0"] undelegate_field_def [of _ "numeral n" for n]
  deploy_field_def [of _ "Suc 0"] deploy_field_def [of _ "numeral n" for n]
  call_field_def [of _ "Suc 0"] call_field_def [of _ "numeral n" for n]
  proposal_field_def [of _ "Suc 0"] proposal_field_def [of _ "numeral n" for n]
  vote_field_def [of _ "Suc 0"] vote_field_def [of _ "numeral n" for n]
  payload_field_def [of _ "Suc 0"] payload_field_def [of _ "numeral n" for n]

lemma reads_within_payload_case:
  assumes "e1 \<noteq> diverges" "e2 \<noteq> diverges" "\<And>v. dec v \<noteq> Inl diverges"
  shows "reads_within b (payload_case pw wt e1 e2 dec b env)"
  unfolding payload_case_def
  by (rule reads_within_take_bytes) (use assms in \<open>auto simp: guard_err_def\<close>)

context protowire_laws
begin

lemma decoders_return:
  "decodeTransfer pw b \<noteq> Inl diverges"
  "decodeStakeDelegate pw b \<noteq> Inl diverges"
  "decodeStakeUndelegate pw b \<noteq> Inl diverges"
  "decodeContractDeploy pw b \<noteq> Inl diverges"
  "decodeContractCall pw b \<noteq> Inl diverges"
  "decodeGovernanceProposal pw b \<noteq> Inl diverges"
  "decodeGovernanceVote pw b \<noteq> Inl diverges"
  by (auto simp: bind_err_Inl decodeTransfer_def decodeStakeDelegate_def decodeStakeUndelegate_def
      decodeContractDeploy_def decodeContractCall_def decodeGovernanceProposal_def
      decodeGovernanceVote_def)

lemma payload_field_reader [simp]: "field_reader (payload_field pw)"
  using decoders_return
  by (auto simp: field_reader_def payload_field_def guard_err_def reads_within_def [of _ "Inl _"]
      intro!: reads_within_intros reads_within_payload_case)

lemma DecodePayload_returns: "DecodePayload pw b \<noteq> Inl diverges"
  by (auto simp: DecodePayload_def bind_err_Inl guard_err_def split: if_splits)

lemma decode_args:
  "decode_loop pw et (call_field pw) (put_repeated pw 3 [] vs) out
   = Inr (out\<lparr>cc_Args := cc_Args out @ vs\<rparr>)"
proof (induction vs arbitrary: out)
  case (Cons v vs)
  have "put_repeated pw 3 [] (v # vs)
      = AppendTag pw [] 3 BytesType @ AppendBytes pw [] v @ put_repeated pw 3 [] vs"
    by (rule put_repeated_Cons) simp_all
  then show ?case
    by (simp del: put_repeated.simps add: decode_loop_field payload_field_at Cons)
qed simp

lemma ucast_u8_u64_u8 [simp]: "ucast (ucast (x :: u8) :: u64) = x"
  by (rule bit_word_eqI) (simp add: bit_simps)

text \<open>What each inner decoder makes of the bytes its encoder framed.\<close>

lemma inner_roundtrips:
  "decodeTransfer pw (put_varint pw (put_bytes pw [] 1 (bytes_of (tr_To t))) 2 (tr_Amount t))
     = Inr (Transfer t)"
  "decodeStakeDelegate pw (put_varint pw (put_bytes pw [] 1 (bytes_of (sd_Validator d))) 2 (sd_Amount d))
     = Inr (StakeDelegate d)"
  "decodeStakeUndelegate pw (put_varint pw (put_bytes pw [] 1 (bytes_of (su_Validator u))) 2 (su_Amount u))
     = Inr (StakeUndelegate u)"
  "decodeContractDeploy pw (put_bytes pw (put_bytes pw [] 1 (cd_WASMCode c)) 2 (cd_Salt c))
     = Inr (ContractDeploy c)"
  "decodeGovernanceProposal pw (put_bytes pw (put_bytes pw (put_bytes pw (put_bytes pw []
       1 (bytes_of (pp_Title g))) 2 (bytes_of (pp_Description g))) 3 (bytes_of (pp_ParamKey g)))
       4 (bytes_of (pp_ParamValue g))) = Inr (GovernanceProposal g)"
  "decodeGovernanceVote pw (put_varint pw (put_varint pw [] 1 (vp_ProposalID v)) 2 (ucast (vp_Option v)))
     = Inr (GovernanceVote v)"
  by (simp_all add: decodeTransfer_def decodeStakeDelegate_def decodeStakeUndelegate_def
      decodeContractDeploy_def decodeGovernanceProposal_def decodeGovernanceVote_def
      wire_roundtrip payload_field_at)

lemma decodeContractCall_roundtrip:
  "decodeContractCall pw (put_repeated pw 3 (put_bytes pw (put_bytes pw [] 1 (bytes_of (cc_Address c)))
     2 (bytes_of (cc_Method c))) (cc_Args c)) = Inr (ContractCall c)"
proof -
  have "put_repeated pw 3 b (cc_Args c) = b @ put_repeated pw 3 [] (cc_Args c)" for b
    by (rule put_repeated_append) simp_all
  from this [of "put_bytes pw (put_bytes pw [] 1 (bytes_of (cc_Address c))) 2 (bytes_of (cc_Method c))"]
  show ?thesis
    by (simp add: decodeContractCall_def wire_roundtrip payload_field_at decode_args)
qed

lemma payload_field_payload:
  assumes "env_Payload env = None" and "1 \<le> num" "num \<le> 7"
    and "[decodeTransfer, decodeStakeDelegate, decodeStakeUndelegate, decodeContractDeploy,
      decodeContractCall, decodeGovernanceProposal, decodeGovernanceVote] ! (num - 1) = dec"
    and "dec pw inner = Inr p"
  shows "payload_field pw num BytesType (AppendBytes pw [] inner @ r) env
       = Inr (r, env\<lparr>env_Payload := Some p\<rparr>)"
proof -
  have "num \<in> {1, 2, 3, 4, 5, 6, 7}" using assms(2,3) by auto
  then show ?thesis using assms(1,4,5)
    by (auto simp: payload_field_def payload_case_def)
qed

lemma variant_roundtrip:
  obtains inner where "encode_variant pw p = put_bytes pw [] (PayloadType p) inner"
    and "\<And>r env. env_Payload env = None \<Longrightarrow>
      payload_field pw (PayloadType p) BytesType (AppendBytes pw [] inner @ r) env
        = Inr (r, env\<lparr>env_Payload := Some p\<rparr>)"
proof -
  have "\<exists>inner. encode_variant pw p = put_bytes pw [] (PayloadType p) inner \<and>
      ([decodeTransfer, decodeStakeDelegate, decodeStakeUndelegate, decodeContractDeploy,
        decodeContractCall, decodeGovernanceProposal, decodeGovernanceVote] ! (PayloadType p - 1))
        pw inner = Inr p"
    by (cases p) (auto simp: encodeTransfer_def encodeStakeDelegate_def encodeStakeUndelegate_def
      encodeContractDeploy_def encodeContractCall_def encodeGovernanceProposal_def
      encodeGovernanceVote_def Let_def inner_roundtrips [simplified] decodeContractCall_roundtrip [simplified])
  moreover have "1 \<le> PayloadType p" "PayloadType p \<le> 7" by (cases p; simp)+
  ultimately show thesis using that payload_field_payload by metis
qed

lemma EncodePayload_decodes:
  assumes "EncodePayload pw (Some p) pk = Inr out"
  shows "DecodePayload pw out = Inr \<lparr>env_Payload = Some p, env_SenderPubKey = pk\<rparr>"
proof -
  obtain inner where enc: "encode_variant pw p = put_bytes pw [] (PayloadType p) inner"
    and run: "\<And>r env. env_Payload env = None \<Longrightarrow>
      payload_field pw (PayloadType p) BytesType (AppendBytes pw [] inner @ r) env
        = Inr (r, env\<lparr>env_Payload := Some p\<rparr>)"
    using variant_roundtrip [of p] by blast
  have num: "1 \<le> PayloadType p" "PayloadType p < 2 ^ 29" by (cases p; simp)+
  define tl where "tl = (if pk = [] then [] else AppendTag pw [] 8 BytesType @ AppendBytes pw [] pk)"
  have out: "out = AppendTag pw [] (PayloadType p) BytesType @ AppendBytes pw [] inner @ tl"
    using assms num by (simp add: EncodePayload_def Let_def enc tl_def put_bytes_append split: if_splits)
  have "decode_loop pw et (payload_field pw) tl env = Inr (env\<lparr>env_SenderPubKey := pk\<rparr>)"
    if "env_SenderPubKey env = []" for et env
    using that by (cases env) (simp add: tl_def wire_roundtrip payload_field_at)
  then have "decode_loop pw et (payload_field pw) out \<lparr>env_Payload = None, env_SenderPubKey = []\<rparr>
      = Inr \<lparr>env_Payload = Some p, env_SenderPubKey = pk\<rparr>" for et
    unfolding out using num by (simp add: decode_loop_field run)
  moreover have "out \<noteq> []" unfolding out using num by simp
  ultimately show ?thesis by (simp add: DecodePayload_def)
qed

lemma DecodePayload_payload:
  assumes "DecodePayload pw b = Inr env"
  obtains p where "env_Payload env = Some p"
  using assms by (auto simp: DecodePayload_def split: if_splits)

end

lemma EncodePayload_Some: "\<exists>out. EncodePayload pw (Some p) pk = Inr out"
  by (simp add: EncodePayload_def Let_def)

section \<open>Properties\<close>

text \<open>Property C33. For every payload and every sender key (present or not), \<open>EncodePayload\<close>
  succeeds and \<open>DecodePayload\<close> gives back exactly that payload and that key.\<close>

theorem payload_roundtrip:
  assumes "protowire_laws pw"
  shows "\<exists>out. EncodePayload pw (Some p) pk = Inr out
       \<and> DecodePayload pw out = Inr \<lparr>env_Payload = Some p, env_SenderPubKey = pk\<rparr>"
  using EncodePayload_Some [of pw p pk] protowire_laws.EncodePayload_decodes [OF assms] by blast

lemma payload_roundtrip_witness:
  "\<exists>out. EncodePayload wire_format
       (Some (ContractCall \<lparr>cc_Address = ''ocn1x'', cc_Method = ''m'', cc_Args = [[1], [], [2, 3]]\<rparr>)) [9, 9] = Inr out
     \<and> DecodePayload wire_format out = Inr \<lparr>env_Payload =
         Some (ContractCall \<lparr>cc_Address = ''ocn1x'', cc_Method = ''m'', cc_Args = [[1], [], [2, 3]]\<rparr>),
         env_SenderPubKey = [9, 9]\<rparr>"
  by (rule payload_roundtrip [OF wire.protowire_laws_axioms])

text \<open>Property. \<open>DecodePayload\<close> returns on every input, over any wire package that keeps the
  laws; when it accepts, the envelope holds a payload.\<close>

theorem decode_payload_total:
  assumes "protowire_laws pw"
  shows "DecodePayload pw b \<noteq> Inl diverges
       \<and> (\<forall>env. DecodePayload pw b = Inr env \<longrightarrow> env_Payload env \<noteq> None)"
  using protowire_laws.DecodePayload_returns [OF assms, of b]
  by (auto simp: DecodePayload_def split: if_splits)

lemma decode_payload_total_witness:
  "DecodePayload wire_format [255, 255] \<noteq> Inl diverges
   \<and> DecodePayload wire_format [255, 255] = Inl ''invalid payload tag''"
  using decode_payload_total [OF wire.protowire_laws_axioms, of "[255, 255]"]
  by (simp add: DecodePayload_def decode_loop.simps wire_format_def)

end
