(* ===== verification/Crypto.thy ===== *)
theory Crypto
  imports OC_Prelude
begin

text \<open>
  The cryptographic layer, \<open>pkg/crypto\<close>: addresses derived from Ed25519 keys
  (\<open>address.go\<close>), Ed25519 (\<open>ed25519.go\<close>), and the Dilithium signer and verifier
  (\<open>dilithium.go\<close>, with \<open>dilithium_nocgo.go\<close> for builds without cgo).

  The primitives themselves (SHA-256, Ed25519, the bech32 package, the C code of Dilithium)
  are parameters: the record \<open>crypto_lib\<close>. \<open>SignC\<close> and \<open>VerifyC\<close> of a build with cgo are
  its fields; those of a build without are the definitions below.
\<close>

record crypto_lib =
  Sum256 :: "bytes \<Rightarrow> hash"
  Ed25519Verify :: "bytes \<Rightarrow> bytes \<Rightarrow> bytes \<Rightarrow> bool"
  Ed25519Sign :: "bytes \<Rightarrow> bytes \<Rightarrow> bytes"
  ConvertBits :: "bytes \<Rightarrow> nat \<Rightarrow> nat \<Rightarrow> bool \<Rightarrow> error + bytes"
  Bech32Encode :: "string \<Rightarrow> bytes \<Rightarrow> error + string"
  Bech32Decode :: "string \<Rightarrow> error + (string \<times> bytes)"

section \<open>Addresses\<close>

definition AddressHRP :: string where
  "AddressHRP = ''ocn''"

definition AddressHashSize :: nat where
  "AddressHashSize = 20"

text \<open>\<open>fmt.Errorf("...: %w", err)\<close>: the wrapped message follows the prefix.\<close>

definition wrap_err :: "string \<Rightarrow> error + 'a \<Rightarrow> error + 'a" where
  "wrap_err prefix r = (case r of Inl e \<Rightarrow> Inl (prefix @ e) | Inr x \<Rightarrow> Inr x)"

lemma wrap_err_Inr [simp]: "wrap_err p r = Inr x \<longleftrightarrow> r = Inr x"
  by (simp add: wrap_err_def split: sum.split)

definition AddressFromPubKey :: "crypto_lib \<Rightarrow> bytes \<Rightarrow> error + string" where
  "AddressFromPubKey cl pub =
     guard_err (pub = []) ''empty public key''
    (let sum = Sum256 cl pub;
         addrBytes = take AddressHashSize sum
     in bind_err (wrap_err ''bech32 convert: '' (ConvertBits cl addrBytes 8 5 True))
          (\<lambda>conv. wrap_err ''bech32 encode: '' (Bech32Encode cl AddressHRP conv)))"

definition DecodeAddress :: "crypto_lib \<Rightarrow> string \<Rightarrow> error + bytes" where
  "DecodeAddress cl addr =
     bind_err (wrap_err ''bech32 decode: '' (Bech32Decode cl addr)) (\<lambda>(hrp, data).
     guard_err (hrp \<noteq> AddressHRP) ''invalid address hrp''
    (bind_err (wrap_err ''bech32 convert: '' (ConvertBits cl data 5 8 False)) (\<lambda>out.
     guard_err (length out \<noteq> AddressHashSize) ''invalid address length'' (Inr out))))"

section \<open>Ed25519\<close>

definition Ed25519PublicKeySize :: nat where "Ed25519PublicKeySize = 32"
definition Ed25519PrivateKeySize :: nat where "Ed25519PrivateKeySize = 64"
definition Ed25519SignatureSize :: nat where "Ed25519SignatureSize = 64"

definition SignEd25519 :: "crypto_lib \<Rightarrow> bytes \<Rightarrow> bytes \<Rightarrow> error + bytes" where
  "SignEd25519 cl priv msg =
     guard_err (length priv \<noteq> Ed25519PrivateKeySize) ''invalid ed25519 private key''
       (Inr (Ed25519Sign cl priv msg))"

definition VerifyEd25519 :: "crypto_lib \<Rightarrow> bytes \<Rightarrow> bytes \<Rightarrow> bytes \<Rightarrow> bool" where
  "VerifyEd25519 cl pub msg sig =
     (if length pub \<noteq> Ed25519PublicKeySize then False else Ed25519Verify cl pub msg sig)"

section \<open>Dilithium\<close>

text \<open>\<open>Signer\<close> and \<open>Verifier\<close> are interfaces: a value of one is the record of its methods.\<close>

record signer =
  Sign :: "bytes \<Rightarrow> error + bytes"
  PublicKey :: bytes

record verifier =
  Verify :: "bytes \<Rightarrow> bytes \<Rightarrow> bytes \<Rightarrow> bool"

text \<open>The native functions behind them, by the build: \<open>SignC(privateKey, message)\<close> and
  \<open>VerifyC(publicKey, message, signature)\<close>.\<close>

record dilithium =
  SignC :: "bytes \<Rightarrow> bytes \<Rightarrow> error + bytes"
  VerifyC :: "bytes \<Rightarrow> bytes \<Rightarrow> bytes \<Rightarrow> bool"

definition dilithium_nocgo :: dilithium where
  "dilithium_nocgo = \<lparr>
     SignC = (\<lambda>privateKey message.
       Inl ''dilithium: CGO not enabled; build with CGO to use native Dilithium implementation''),
     VerifyC = (\<lambda>publicKey message signature. False)\<rparr>"

definition DilithiumSigner_Sign :: "dilithium \<Rightarrow> bytes \<Rightarrow> bytes \<Rightarrow> error + bytes" where
  "DilithiumSigner_Sign dil privateKey message =
     guard_err (privateKey = []) ''private key not set'' (SignC dil privateKey message)"

definition NewDilithiumSigner :: "dilithium \<Rightarrow> bytes \<Rightarrow> bytes \<Rightarrow> signer" where
  "NewDilithiumSigner dil publicKey privateKey =
     \<lparr>Sign = DilithiumSigner_Sign dil privateKey, PublicKey = publicKey\<rparr>"

definition DilithiumVerifier_Verify :: "dilithium \<Rightarrow> bytes \<Rightarrow> bytes \<Rightarrow> bytes \<Rightarrow> bool" where
  "DilithiumVerifier_Verify dil message signature publicKey =
     (if publicKey = [] \<or> signature = [] then False else VerifyC dil publicKey message signature)"

definition NewDilithiumVerifier :: "dilithium \<Rightarrow> verifier" where
  "NewDilithiumVerifier dil = \<lparr>Verify = DilithiumVerifier_Verify dil\<rparr>"

text \<open>Without cgo nothing signs and nothing verifies.\<close>

lemma nocgo_never_signs: "\<exists>e. DilithiumSigner_Sign dilithium_nocgo sk msg = Inl e"
  by (auto simp: DilithiumSigner_Sign_def dilithium_nocgo_def guard_err_def)

lemma nocgo_never_verifies: "\<not> DilithiumVerifier_Verify dilithium_nocgo msg sig pk"
  by (simp add: DilithiumVerifier_Verify_def dilithium_nocgo_def)

end
