(* ===== verification/Tx.thy ===== *)
theory Tx
  imports Payload Crypto
begin

text \<open>
  Authentication of transactions, \<open>pkg/tx/signing.go\<close> and \<open>verify.go\<close>: the bytes that are
  signed, which key a transaction must be verified against, and the verification. The lemmas
  show that the signed bytes determine every field but the signature, and that an accepted
  key is the one the sender's address is derived from.
\<close>

section \<open>Definitions\<close>

definition SigningBytes :: "protowire \<Rightarrow> transaction option \<Rightarrow> error + bytes" where
  "SigningBytes pw txn =
     (case txn of
        None \<Rightarrow> Inr []
      | Some tx \<Rightarrow> let copyTx = tx\<lparr>tx_Signature := []\<rparr> in MarshalTransaction pw (Some copyTx))"

definition ensureAddressMatches :: "crypto_lib \<Rightarrow> address \<Rightarrow> bytes \<Rightarrow> error + unit" where
  "ensureAddressMatches cl addr pubKey =
     bind_err (wrap_err ''derive address: '' (AddressFromPubKey cl pubKey)) (\<lambda>derived.
     guard_err (derived \<noteq> addr) ''sender address mismatch'' (Inr ()))"

definition ResolveSenderPubKey ::
  "crypto_lib \<Rightarrow> transaction option \<Rightarrow> bytes \<Rightarrow> bytes \<Rightarrow> error + (bytes \<times> bool)"
where
  "ResolveSenderPubKey cl txn stored payloadPubKey =
     (case txn of
        None \<Rightarrow> Inl ''tx is nil''
      | Some tx \<Rightarrow>
          guard_err (payloadPubKey \<noteq> [] \<and> length payloadPubKey \<noteq> Ed25519PublicKeySize)
            ''invalid sender_pubkey length''
         (guard_err (stored \<noteq> [] \<and> length stored \<noteq> Ed25519PublicKeySize)
            ''invalid stored pubkey length''
         (if stored = [] then
            guard_err (payloadPubKey = []) ''sender_pubkey required for first spend''
           (bind_err (ensureAddressMatches cl (tx_From tx) payloadPubKey)
              (\<lambda>_. Inr (payloadPubKey, True)))
          else
            guard_err (payloadPubKey \<noteq> [] \<and> payloadPubKey \<noteq> stored)
              ''sender_pubkey does not match registered key''
           (bind_err (ensureAddressMatches cl (tx_From tx) stored)
              (\<lambda>_. Inr (stored, False))))))"

definition VerifySignature ::
  "protowire \<Rightarrow> crypto_lib \<Rightarrow> transaction option \<Rightarrow> bytes \<Rightarrow> error + unit"
where
  "VerifySignature pw cl txn pubKey =
     (case txn of
        None \<Rightarrow> Inl ''tx is nil''
      | Some tx \<Rightarrow>
          guard_err (length pubKey \<noteq> Ed25519PublicKeySize) ''invalid pubkey length''
         (guard_err (length (tx_Signature tx) \<noteq> Ed25519SignatureSize) ''invalid signature length''
         (bind_err (SigningBytes pw (Some tx)) (\<lambda>signBytes.
          guard_err (\<not> VerifyEd25519 cl pubKey signBytes (tx_Signature tx)) ''invalid signature''
            (Inr ())))))"

section \<open>Lemmas\<close>

lemma ensureAddressMatches_ok:
  "ensureAddressMatches cl addr pk = Inr u \<longleftrightarrow> AddressFromPubKey cl pk = Inr addr"
  by (auto simp: ensureAddressMatches_def)

lemma ResolveSenderPubKey_ok:
  "ResolveSenderPubKey cl (Some tx) stored pk = Inr (key, register) \<longleftrightarrow>
     length key = Ed25519PublicKeySize \<and> AddressFromPubKey cl key = Inr (tx_From tx) \<and>
     (if stored = [] then register \<and> key = pk
      else \<not> register \<and> key = stored \<and> (pk = [] \<or> pk = stored))"
  by (auto simp: ResolveSenderPubKey_def ensureAddressMatches_ok Ed25519PublicKeySize_def)

lemma SigningBytes_Some:
  "SigningBytes pw (Some tx) = MarshalTransaction pw (Some (tx\<lparr>tx_Signature := []\<rparr>))"
  by (simp add: SigningBytes_def Let_def)

lemma VerifySignature_ok:
  "VerifySignature pw cl (Some tx) pk = Inr u \<longleftrightarrow>
     length pk = Ed25519PublicKeySize \<and> length (tx_Signature tx) = Ed25519SignatureSize \<and>
     (\<exists>msg. SigningBytes pw (Some tx) = Inr msg \<and> Ed25519Verify cl pk msg (tx_Signature tx))"
  by (auto simp: VerifySignature_def VerifyEd25519_def split: if_splits)

context protowire_laws
begin

lemma SigningBytes_inject:
  assumes "SigningBytes pw (Some tx) = SigningBytes pw (Some tx')"
  shows "tx\<lparr>tx_Signature := []\<rparr> = tx'\<lparr>tx_Signature := []\<rparr>"
  using assms unfolding SigningBytes_Some by (rule MarshalTransaction_inject)

end

section \<open>Properties\<close>

text \<open>Property. \<open>ResolveSenderPubKey\<close> accepts exactly a 32-byte key from which the sender's
  address is derived: the payload's key, to be registered, when the account has none, and
  otherwise the account's own key, which a key in the payload must equal.\<close>

theorem sender_key_binds_address:
  "ResolveSenderPubKey cl (Some tx) stored pk = Inr (key, register) \<longleftrightarrow>
     length key = 32 \<and> AddressFromPubKey cl key = Inr (tx_From tx) \<and>
     (if stored = [] then register \<and> key = pk
      else \<not> register \<and> key = stored \<and> (pk = [] \<or> pk = stored))"
  by (simp add: ResolveSenderPubKey_ok Ed25519PublicKeySize_def)

text \<open>Property C37. The signed bytes commit to the sender, the recipient, the nonce and the
  payload: two transactions with the same signing bytes differ at most in the signature.\<close>

theorem signing_bytes_commit:
  assumes "protowire_laws pw" and "SigningBytes pw (Some tx) = SigningBytes pw (Some tx')"
  shows "tx_From tx = tx_From tx' \<and> tx_To tx = tx_To tx' \<and> tx_Nonce tx = tx_Nonce tx'
       \<and> tx_Payload tx = tx_Payload tx'"
  using protowire_laws.SigningBytes_inject [OF assms] by (cases tx; cases tx') simp

lemma signing_bytes_commit_witness:
  "SigningBytes wire_format (Some \<lparr>tx_From = ''a'', tx_To = ''b'', tx_Nonce = 7, tx_Payload = [1], tx_Signature = [2]\<rparr>)
     = SigningBytes wire_format (Some \<lparr>tx_From = ''a'', tx_To = ''b'', tx_Nonce = 7, tx_Payload = [1], tx_Signature = [3]\<rparr>)
   \<and> SigningBytes wire_format (Some \<lparr>tx_From = ''a'', tx_To = ''b'', tx_Nonce = 7, tx_Payload = [1], tx_Signature = [2]\<rparr>)
     \<noteq> SigningBytes wire_format (Some \<lparr>tx_From = ''a'', tx_To = ''b'', tx_Nonce = 8, tx_Payload = [1], tx_Signature = [2]\<rparr>)"
proof -
  let ?tx = "\<lambda>n sig. \<lparr>tx_From = ''a'', tx_To = ''b'', tx_Nonce = n, tx_Payload = [1], tx_Signature = sig\<rparr> :: transaction"
  note commit = signing_bytes_commit [OF wire.protowire_laws_axioms, where tx = "?tx 7 [2]"]
  have same: "SigningBytes wire_format (Some (?tx 7 [2])) = SigningBytes wire_format (Some (?tx 7 [3]))"
    by (simp add: SigningBytes_def Let_def)
  have "SigningBytes wire_format (Some (?tx 7 [2])) \<noteq> SigningBytes wire_format (Some (?tx 8 [2]))"
  proof
    assume "SigningBytes wire_format (Some (?tx 7 [2])) = SigningBytes wire_format (Some (?tx 8 [2]))"
    from commit [OF this] show False by simp
  qed
  with same show ?thesis by blast
qed

end
