(* ===== verification/RC.thy ===== *)
theory RC
  imports OC_Prelude
begin

text \<open>
  Resource credits, \<open>pkg/rc/rc.go\<close>: the parameters, the effective block time (the median of
  the last timestamps, clamped by the skew), the cap on an account's credits, their
  regeneration over time and the cost of a transaction. All of it is 64-bit arithmetic with
  the saturation and overflow tests of the code; the lemmas read each result as the exact
  natural-number formula cut off at the largest \<open>uint64\<close>.
\<close>

section \<open>Definitions\<close>

text \<open>\<open>WindowN\<close> is a Go \<open>int\<close>, only compared and used as a length, and never computed with.\<close>

record params =
  Alpha :: u64
  Beta :: u64
  CSize :: u64
  CCompute :: u64
  CStorage :: u64
  MaxSkewSec :: i64
  WindowN :: int

definition within_bounds :: "u64 \<Rightarrow> u64 \<Rightarrow> u64 \<Rightarrow> bool" where
  "within_bounds v lo hi \<longleftrightarrow> lo \<le> v \<and> v \<le> hi"

definition ValidateGenesis :: "params \<Rightarrow> error + unit" where
  "ValidateGenesis p =
     guard_err (\<not> within_bounds (Alpha p) 1 1000000) ''alpha out of bounds''
    (guard_err (\<not> within_bounds (Beta p) 1 1000000) ''beta out of bounds''
    (guard_err (\<not> within_bounds (CSize p) 1 1000000) ''c_size out of bounds''
    (guard_err (\<not> within_bounds (CCompute p) 1 1000000) ''c_compute out of bounds''
    (guard_err (\<not> within_bounds (CStorage p) 1 1000000) ''c_storage out of bounds''
    (guard_err (WindowN p < 1) ''window_n must be >= 1''
    (guard_err (MaxSkewSec p <s 0) ''max_skew must be >= 0''
    (Inr ())))))))"

text \<open>
  \<open>sort.Slice\<close> with \<open>cp[i] < cp[j]\<close> on \<open>int64\<close> values: equal elements are identical, so
  the sorted slice is unique whatever algorithm the library uses.
\<close>

definition Median :: "i64 list \<Rightarrow> i64" where
  "Median timestamps =
     (if timestamps = [] then 0
      else let cp = sort_key sint timestamps;
               m = length cp div 2
           in if length cp mod 2 = 1 then cp ! m else cp ! (m - 1))"

definition EffectiveTime :: "i64 \<Rightarrow> i64 list \<Rightarrow> i64 \<Rightarrow> i64" where
  "EffectiveTime blockTimestamp lastTimestamps maxSkew =
     (if lastTimestamps = [] then blockTimestamp
      else let median = Median lastTimestamps;
               lo = median - maxSkew;
               hi = median + maxSkew
           in if blockTimestamp <s lo then lo
              else if hi <s blockTimestamp then hi
              else blockTimestamp)"

definition RCMax :: "params \<Rightarrow> u64 \<Rightarrow> u64" where
  "RCMax p stake =
     (if stake = 0 \<or> Alpha p = 0 then 0
      else if max_u64 div Alpha p < stake then max_u64
      else Alpha p * stake)"

definition Regen :: "params \<Rightarrow> u64 \<Rightarrow> u64 \<Rightarrow> i64 \<Rightarrow> i64 \<Rightarrow> u64 \<times> i64" where
  "Regen p currentRC stake lastEffectiveTime newEffectiveTime =
     (if stake = 0 then (0, newEffectiveTime)
      else
        let dt = newEffectiveTime - lastEffectiveTime;
            dt = (if dt <s 0 then 0 else dt);
            regen = dt;
            regen = (if Beta p \<noteq> 0 then
                       let regen = (if max_u64 div Beta p < regen then max_u64 else regen * Beta p)
                       in if 0 < stake
                          then (if max_u64 div stake < regen then max_u64 else regen * stake)
                          else regen
                     else regen);
            rc = currentRC;
            rc = (if 0 < regen
                  then (if max_u64 - regen < rc then max_u64 else rc + regen)
                  else rc);
            rcMax = RCMax p stake;
            rc = (if rcMax < rc then rcMax else rc)
        in (rc, newEffectiveTime))"

text \<open>The closure \<open>add\<close> of \<open>Cost\<close>, with the captured \<open>total\<close> passed and returned.\<close>

definition cost_add :: "u64 \<Rightarrow> u64 \<Rightarrow> u64 \<Rightarrow> u64" where
  "cost_add tot a b =
     (if a = 0 \<or> b = 0 then tot
      else if max_u64 div a < b then max_u64
      else if max_u64 - a * b < tot then max_u64
      else tot + a * b)"

definition Cost :: "params \<Rightarrow> u64 \<Rightarrow> u64 \<Rightarrow> u64 \<Rightarrow> u64" where
  "Cost p sizeBytes wasmInstructions stateWrites =
     (let tot = 0;
          tot = cost_add tot (CSize p) sizeBytes;
          tot = cost_add tot (CCompute p) wasmInstructions;
          tot = cost_add tot (CStorage p) stateWrites
      in tot)"

section \<open>Saturating products and sums\<close>

lemma sat_mult:
  fixes a b :: u64
  assumes "a \<noteq> 0"
  shows "unat (if max_u64 div a < b then max_u64 else b * a)
       = min (2 ^ 64 - 1) (unat b * unat a)"
proof (cases "max_u64 div a < b")
  case True
  then have "2 ^ 64 - 1 < unat b * unat a"
    using mult_overflow_test [OF assms] by (simp add: mult.commute)
  with True show ?thesis by simp
next
  case False
  then have "unat b * unat a \<le> 2 ^ 64 - 1"
    using mult_overflow_test [OF assms, of b] by (simp add: mult.commute)
  with False show ?thesis by (simp add: unat_mult_small)
qed

lemma sat_add:
  fixes a b :: u64
  shows "unat (if max_u64 - b < a then max_u64 else a + b)
       = min (2 ^ 64 - 1) (unat a + unat b)"
  using add_overflow_test [of b a] by (auto simp: unat_add_small)

lemma min_mult_sat:
  fixes k m n :: nat
  assumes "0 < n"
  shows "min k (min k m * n) = min k (m * n)"
proof (cases "m \<le> k")
  case False
  then have "k \<le> m * n" "k \<le> k * n" using assms
    by (auto intro: order.trans [of k m])
  with False show ?thesis by simp
qed simp

lemma min_add_sat: "min (k :: nat) (min k m + n) = min k (m + n)"
  by auto

section \<open>The cap and the cost\<close>

lemma unat_RCMax: "unat (RCMax p stake) = min (2 ^ 64 - 1) (unat (Alpha p) * unat stake)"
  using sat_mult [of "Alpha p" stake] by (auto simp: RCMax_def mult.commute)

lemma RCMax_no_stake [simp]: "RCMax p 0 = 0"
  by (simp add: RCMax_def)

lemma unat_cost_add:
  "unat (cost_add tot a b) = min (2 ^ 64 - 1) (unat tot + unat a * unat b)"
proof (cases "a = 0 \<or> b = 0")
  case True
  then show ?thesis using unat_u64_le [of tot] by (auto simp: cost_add_def)
next
  case False
  show ?thesis
  proof (cases "max_u64 div a < b")
    case True
    then show ?thesis using False mult_overflow_test [of a b] by (simp add: cost_add_def)
  next
    case no_overflow: False
    then have "unat (a * b) = unat a * unat b"
      using False mult_overflow_test [of a b] by (simp add: unat_mult_small)
    then show ?thesis
      using False no_overflow sat_add [of "a * b" tot] by (simp add: cost_add_def)
  qed
qed

lemma unat_Cost:
  "unat (Cost p sz instr writes)
   = min (2 ^ 64 - 1) (unat (CSize p) * unat sz + unat (CCompute p) * unat instr
       + unat (CStorage p) * unat writes)"
  by (simp add: Cost_def unat_cost_add min_add_sat)

lemma Cost_positive:
  assumes "CSize p \<noteq> 0" and "sz \<noteq> 0"
  shows "0 < Cost p sz instr writes"
  using assms by (simp add: word_less_nat_alt unat_Cost unat_gt_0)

section \<open>Regeneration\<close>

text \<open>The elapsed seconds as the code sees them: a negative difference counts as none.\<close>

definition elapsed :: "i64 \<Rightarrow> i64 \<Rightarrow> nat" where
  "elapsed t t' = nat (sint t' - sint t)"

definition no_time_overflow :: "i64 \<Rightarrow> i64 \<Rightarrow> bool" where
  "no_time_overflow t t' \<longleftrightarrow> - (2 ^ 63) \<le> sint t' - sint t \<and> sint t' - sint t < 2 ^ 63"

lemma sint_diff_small:
  fixes t t' :: i64
  assumes "no_time_overflow t t'"
  shows "sint (t' - t) = sint t' - sint t"
  using assms unfolding no_time_overflow_def
  by (simp add: sint_word_ariths signed_take_bit_int_eq_self)

lemma unat_clamped_dt:
  fixes t t' :: i64
  assumes "no_time_overflow t t'"
  shows "unat (if t' - t <s 0 then 0 else t' - t) = elapsed t t'"
proof (cases "t' - t <s 0")
  case True
  then have "sint t' < sint t"
    using sint_diff_small [OF assms] by (simp add: word_sless_alt)
  with True show ?thesis by (simp add: elapsed_def)
next
  case False
  then have nonneg: "0 \<le> sint (t' - t)" by (simp add: word_sless_alt)
  then have "uint (t' - t) = sint (t' - t)" using sint_lt [of "t' - t"]
    by (simp add: uint_sint take_bit_int_eq_self)
  then have "unat (t' - t) = nat (sint (t' - t))" by (simp add: nat_uint_eq [symmetric] del: nat_uint_eq)
  then show ?thesis
    using False sint_diff_small [OF assms] by (simp add: elapsed_def)
qed

lemma Regen_time [simp]: "snd (Regen p rc stake t t') = t'"
  by (simp add: Regen_def Let_def)

lemma Regen_no_stake [simp]: "Regen p rc 0 t t' = (0, t')"
  by (simp add: Regen_def)

lemma Regen_le_RCMax: "fst (Regen p rc stake t t') \<le> RCMax p stake"
  by (simp add: Regen_def Let_def not_less)

text \<open>
  The three saturating steps and the cap together: the exact credit is the old one plus
  \<open>dt * beta * stake\<close>, and only the cap cuts it, because the cap is itself at most the
  largest \<open>uint64\<close> at which the intermediate results saturate.
\<close>

lemma unat_Regen:
  assumes "stake \<noteq> 0" and "Beta p \<noteq> 0" and time: "no_time_overflow t t'"
  shows "unat (fst (Regen p rc stake t t'))
       = min (unat (RCMax p stake)) (unat rc + elapsed t t' * unat (Beta p) * unat stake)"
proof -
  define dt where "dt = (if t' - t <s 0 then 0 else t' - t)"
  define r1 where "r1 = (if max_u64 div Beta p < dt then max_u64 else dt * Beta p)"
  define r2 where "r2 = (if max_u64 div stake < r1 then max_u64 else r1 * stake)"
  define r3 where "r3 = (if 0 < r2 then if max_u64 - r2 < rc then max_u64 else rc + r2 else rc)"
  have reg: "fst (Regen p rc stake t t') = (if RCMax p stake < r3 then RCMax p stake else r3)"
    using assms(1,2)
    by (simp add: Regen_def Let_def dt_def r1_def r2_def r3_def word_gt_0)
  have r1: "unat r1 = min (2 ^ 64 - 1) (elapsed t t' * unat (Beta p))"
    using sat_mult [OF assms(2), of dt] unat_clamped_dt [OF time] by (simp add: r1_def dt_def)
  have "0 < unat stake" using assms(1) by (simp add: unat_gt_0)
  then have r2: "unat r2 = min (2 ^ 64 - 1) (elapsed t t' * unat (Beta p) * unat stake)"
    using sat_mult [OF assms(1), of r1] by (simp only: r2_def r1 min_mult_sat)
  have "unat r3 = min (2 ^ 64 - 1) (unat rc + unat r2)"
    using sat_add [of r2 rc] unat_u64_le [of rc] by (auto simp: r3_def word_gt_0)
  then have r3: "unat r3 = min (2 ^ 64 - 1) (unat rc + elapsed t t' * unat (Beta p) * unat stake)"
    unfolding r2 by (metis add.commute min_add_sat)
  have "unat (fst (Regen p rc stake t t')) = min (unat (RCMax p stake)) (unat r3)"
    unfolding reg by (simp add: word_less_nat_alt min_def)
  also have "\<dots> = min (unat (RCMax p stake)) (unat rc + elapsed t t' * unat (Beta p) * unat stake)"
    using unat_u64_le [of "RCMax p stake"] unfolding r3 by simp
  finally show ?thesis .
qed

lemma elapsed_add:
  assumes "sint t \<le> sint t'" and "sint t' \<le> sint t''"
  shows "elapsed t t'' = elapsed t t' + elapsed t' t''"
  using assms by (simp add: elapsed_def)

lemma min_add_capped: "min (c :: nat) (min c a + b) = min c (a + b)"
  by (rule min_add_sat)

section \<open>The median and the clamp\<close>

lemma Median_Nil [simp]: "Median [] = 0"
  by (simp add: Median_def)

lemma inj_sint: "inj (sint :: i64 \<Rightarrow> int)"
  by (rule injI) (rule signed_word_eqI)

lemma map_sint_sort: "map sint (sort_key sint ts) = sort (map sint (ts :: i64 list))"
  by (rule properties_for_sort [symmetric]) simp_all

lemma Median_index:
  assumes "ts \<noteq> []"
  shows "Median ts = sort_key sint ts ! ((length ts - 1) div 2)"
proof -
  have "0 < length ts" using assms by simp
  have odd_case: "length ts mod 2 = 1 \<Longrightarrow> length ts div 2 = (length ts - 1) div 2"
    by presburger
  have even_case: "length ts mod 2 \<noteq> 1 \<Longrightarrow> length ts div 2 - 1 = (length ts - 1) div 2"
    using \<open>0 < length ts\<close> by presburger
  show ?thesis
  proof (cases "length ts mod 2 = 1")
    case True
    then show ?thesis using assms odd_case by (simp add: Median_def Let_def)
  next
    case False
    then show ?thesis using assms even_case by (simp add: Median_def Let_def)
  qed
qed

lemma median_index_less: "ts \<noteq> [] \<Longrightarrow> (length ts - 1) div 2 < length ts"
  by (cases ts) auto

lemma Median_in_set: "ts \<noteq> [] \<Longrightarrow> Median ts \<in> set ts"
  using nth_mem [of "(length ts - 1) div 2" "sort_key sint ts"] median_index_less [of ts]
  by (simp add: Median_index)

text \<open>The list only matters as a multiset: Go's sort may use any algorithm.\<close>

lemma Median_mset:
  assumes "mset ts = mset ts'"
  shows "Median ts = Median ts'"
proof -
  have "sort (map sint ts) = sort (map sint ts')"
    by (rule properties_for_sort) (use assms in \<open>simp_all add: mset_map\<close>)
  then have "sort_key sint ts = sort_key sint ts'"
    unfolding map_sint_sort [symmetric] by (simp add: inj_map_eq_map [OF inj_sint])
  moreover have "length ts = length ts'" using assms by (rule mset_eq_length)
  moreover have "ts = [] \<longleftrightarrow> ts' = []" using assms by auto
  ultimately show ?thesis by (cases "ts = []") (simp_all add: Median_index)
qed

text \<open>The median splits the window: at least half of the timestamps on either side of it.\<close>

lemma sorted_nth_split:
  assumes "sorted xs" and "k < length xs"
  shows "Suc k \<le> length (filter (\<lambda>x. x \<le> xs ! k) xs)"
    and "length xs - k \<le> length (filter (\<lambda>x. xs ! k \<le> x) xs)"
proof -
  have "{..k} \<subseteq> {i. i < length xs \<and> xs ! i \<le> xs ! k}"
    using assms by (auto intro: sorted_nth_mono)
  then have "card {..k} \<le> card {i. i < length xs \<and> xs ! i \<le> xs ! k}"
    by (intro card_mono) auto
  then show "Suc k \<le> length (filter (\<lambda>x. x \<le> xs ! k) xs)"
    by (simp add: length_filter_conv_card)
  have "{k..<length xs} \<subseteq> {i. i < length xs \<and> xs ! k \<le> xs ! i}"
    using assms by (auto intro: sorted_nth_mono)
  then have "card {k..<length xs} \<le> card {i. i < length xs \<and> xs ! k \<le> xs ! i}"
    by (intro card_mono) auto
  then show "length xs - k \<le> length (filter (\<lambda>x. xs ! k \<le> x) xs)"
    by (simp add: length_filter_conv_card)
qed

lemma length_filter_sort:
  "length (filter (\<lambda>x. P (sint x)) ts) = length (filter P (sort (map sint (ts :: i64 list))))"
proof -
  have "mset (map sint (filter (\<lambda>x. P (sint x)) ts)) = mset (filter P (sort (map sint ts)))"
    by (simp add: mset_filter mset_map filter_mset_image_mset)
  then show ?thesis by (metis length_map mset_eq_length)
qed

lemma Median_split:
  assumes "ts \<noteq> []"
  shows "length ts \<le> 2 * length (filter (\<lambda>t. t \<le>s Median ts) ts)"
    and "length ts \<le> 2 * length (filter (\<lambda>t. Median ts \<le>s t) ts)"
proof -
  define xs where "xs = sort (map sint ts)"
  define k where "k = (length ts - 1) div 2"
  have k: "k < length xs" using median_index_less [OF assms] by (simp add: k_def xs_def)
  have sorted: "sorted xs" by (simp add: xs_def)
  have med: "sint (Median ts) = xs ! k"
    using median_index_less [OF assms]
    by (simp add: Median_index [OF assms] xs_def k_def map_sint_sort [symmetric])
  have len: "length xs = length ts" by (simp add: xs_def)
  have "length (filter (\<lambda>t. t \<le>s Median ts) ts) = length (filter (\<lambda>x. x \<le> xs ! k) xs)"
    unfolding word_sle_eq med xs_def by (rule length_filter_sort)
  with sorted_nth_split(1) [OF sorted k] k len
  show "length ts \<le> 2 * length (filter (\<lambda>t. t \<le>s Median ts) ts)"
    unfolding k_def by linarith
  have "length (filter (\<lambda>t. Median ts \<le>s t) ts) = length (filter (\<lambda>x. xs ! k \<le> x) xs)"
    unfolding word_sle_eq med xs_def by (rule length_filter_sort)
  with sorted_nth_split(2) [OF sorted k] k len
  show "length ts \<le> 2 * length (filter (\<lambda>t. Median ts \<le>s t) ts)"
    unfolding k_def by linarith
qed

lemma sint_add_small:
  fixes a b :: i64
  assumes "- (2 ^ 63) \<le> sint a + sint b" and "sint a + sint b < 2 ^ 63"
  shows "sint (a + b) = sint a + sint b"
  using assms by (simp add: sint_word_ariths signed_take_bit_int_eq_self)

definition window_fits :: "i64 \<Rightarrow> i64 \<Rightarrow> bool" where
  "window_fits m skew \<longleftrightarrow> 0 \<le> sint skew \<and> - (2 ^ 63) \<le> sint m - sint skew
     \<and> sint m + sint skew < 2 ^ 63"

lemma sint_EffectiveTime:
  assumes "ts \<noteq> []" and fits: "window_fits (Median ts) skew"
  shows "sint (EffectiveTime t ts skew)
       = max (sint (Median ts) - sint skew) (min (sint (Median ts) + sint skew) (sint t))"
proof -
  have ns: "no_time_overflow skew (Median ts)"
    using fits sint_greater_eq [of "Median ts"] sint_lt [of "Median ts"]
    by (simp add: no_time_overflow_def window_fits_def)
  have "sint (Median ts + skew) = sint (Median ts) + sint skew"
    using fits sint_greater_eq [of "Median ts"]
    by (intro sint_add_small) (simp_all add: window_fits_def)
  then show ?thesis
    using assms(1) sint_diff_small [OF ns] fits
    by (auto simp: EffectiveTime_def Let_def word_sless_alt window_fits_def)
qed

section \<open>Properties\<close>

text \<open>Property C38. For a staked account, \<open>Params.Regen\<close> returns exactly
  \<open>min RCMax (rc + dt * beta * stake)\<close> over the natural numbers, where \<open>dt\<close> counts the seconds
  elapsed (none when time went back) and \<open>RCMax\<close> is \<open>alpha * stake\<close> cut at the largest
  \<open>uint64\<close>: none of the three intermediate saturations ever changes the result, and the new
  time is the one passed in.\<close>

theorem regen_exact:
  assumes "stake \<noteq> 0" and "Beta p \<noteq> 0" and "no_time_overflow t t'"
  shows "unat (fst (Regen p rc stake t t'))
       = min (min (2 ^ 64 - 1) (unat (Alpha p) * unat stake))
           (unat rc + elapsed t t' * unat (Beta p) * unat stake)
     \<and> snd (Regen p rc stake t t') = t'"
  using unat_Regen [OF assms] by (simp add: unat_RCMax)

definition test_params :: params where
  "test_params = \<lparr>Alpha = 10, Beta = 2, CSize = 1, CCompute = 1, CStorage = 50,
     MaxSkewSec = 30, WindowN = 11\<rparr>"

lemma regen_exact_witness:
  "unat (fst (Regen test_params 0 5 0 3)) = 30 \<and> snd (Regen test_params 0 5 0 3) = 3"
  using regen_exact [of 5 test_params 0 3 0]
  by (simp add: test_params_def no_time_overflow_def elapsed_def)

text \<open>Property. Regeneration is path independent: touching an account at a time in
  between (as every transaction of its owner does) gives the same credits as one
  regeneration over the whole interval, caps and saturation included.\<close>

theorem regen_path_independent:
  assumes "Beta p \<noteq> 0" and "sint t \<le> sint t'" and "sint t' \<le> sint t''"
    and "sint t'' - sint t < 2 ^ 63"
  shows "Regen p (fst (Regen p rc stake t t')) stake t' t'' = Regen p rc stake t t''"
proof (cases "stake = 0")
  case False
  have times: "no_time_overflow t t'" "no_time_overflow t' t''" "no_time_overflow t t''"
    using assms(2-4) by (auto simp: no_time_overflow_def)
  note exact = unat_Regen [OF False assms(1)]
  have "unat (fst (Regen p (fst (Regen p rc stake t t')) stake t' t''))
      = unat (fst (Regen p rc stake t t''))"
    unfolding exact [OF times(2)] exact [OF times(1)] exact [OF times(3)] min_add_sat
      elapsed_add [OF assms(2,3)]
    by (simp add: algebra_simps)
  then show ?thesis by (simp add: prod_eq_iff word_unat_eq_iff)
qed simp

lemma regen_path_independent_witness:
  "Regen test_params (fst (Regen test_params 7 5 0 3)) 5 3 4 = Regen test_params 7 5 0 4"
  by (rule regen_path_independent) (simp_all add: test_params_def)

text \<open>Property. \<open>Params.Cost\<close> is the weighted sum of size, instructions and state writes,
  cut at the largest \<open>uint64\<close>; with a positive size weight a transaction of positive size
  never costs zero.\<close>

theorem cost_exact:
  "unat (Cost p sizeBytes instr writes)
     = min (2 ^ 64 - 1) (unat (CSize p) * unat sizeBytes + unat (CCompute p) * unat instr
         + unat (CStorage p) * unat writes)
   \<and> (CSize p \<noteq> 0 \<and> sizeBytes \<noteq> 0 \<longrightarrow> 0 < Cost p sizeBytes instr writes)"
  using unat_Cost Cost_positive by blast

lemma cost_exact_witness: "0 < Cost test_params 200 0 2 \<and> Cost test_params 200 0 2 = 300"
  using cost_exact [of test_params 200 0 2]
  by (simp add: test_params_def unat_eq_nat_uint Cost_def cost_add_def max_u64_def)

text \<open>Property. With a non-empty window and no overflow around it, \<open>EffectiveTime\<close> clamps
  the block time to at most \<open>maxSkew\<close> from the median of the window, leaves a time inside
  that interval alone, and depends on the window only as a multiset; the median itself has at
  least half of the window on either side.\<close>

theorem effective_time_clamps:
  assumes "ts \<noteq> []" and "window_fits (Median ts) skew"
  shows "sint (Median ts) - sint skew \<le> sint (EffectiveTime t ts skew)
       \<and> sint (EffectiveTime t ts skew) \<le> sint (Median ts) + sint skew
       \<and> (\<bar>sint t - sint (Median ts)\<bar> \<le> sint skew \<longrightarrow> EffectiveTime t ts skew = t)
       \<and> (\<forall>ts'. mset ts' = mset ts \<longrightarrow> EffectiveTime t ts' skew = EffectiveTime t ts skew)
       \<and> length ts \<le> 2 * length (filter (\<lambda>x. x \<le>s Median ts) ts)
       \<and> length ts \<le> 2 * length (filter (\<lambda>x. Median ts \<le>s x) ts)"
proof -
  have skew: "0 \<le> sint skew" using assms(2) by (simp add: window_fits_def)
  have "sint (EffectiveTime t ts skew) = sint t" if "\<bar>sint t - sint (Median ts)\<bar> \<le> sint skew"
    using that by (simp add: sint_EffectiveTime [OF assms])
  then have "\<bar>sint t - sint (Median ts)\<bar> \<le> sint skew \<longrightarrow> EffectiveTime t ts skew = t"
    by (metis signed_word_eqI)
  moreover have "EffectiveTime t ts' skew = EffectiveTime t ts skew" if "mset ts' = mset ts" for ts'
    using that Median_mset [OF that] by (auto simp: EffectiveTime_def)
  moreover have "sint (Median ts) - sint skew \<le> sint (EffectiveTime t ts skew)
      \<and> sint (EffectiveTime t ts skew) \<le> sint (Median ts) + sint skew"
    using skew unfolding sint_EffectiveTime [OF assms] by linarith
  ultimately show ?thesis using Median_split [OF assms(1)] by blast
qed

lemma effective_time_clamps_witness:
  "sint (EffectiveTime 200 [100, 101, 102, 103, 104] 5) = 107"
proof -
  have med: "Median [100, 101, 102, 103, 104] = 102" by (simp add: Median_def)
  show ?thesis
    using effective_time_clamps [of "[100, 101, 102, 103, 104]" 5 200] med
    by (simp add: window_fits_def EffectiveTime_def Let_def word_sless_alt)
qed

text \<open>Property. The effective time is not monotone (the clamp allows a block time below the
  previous one), and \<open>Regen\<close> moves the account's clock back with it: an account touched at an
  earlier time and again at the later one is credited that interval twice, with no time
  having passed.\<close>

theorem regen_rewind_credits_twice:
  assumes "stake \<noteq> 0" and "Beta p \<noteq> 0" and "sint t \<le> sint t'" and "sint t' - sint t < 2 ^ 63"
  shows "unat (fst (Regen p (fst (Regen p rc stake t' t)) stake t t'))
       = min (unat (RCMax p stake)) (unat rc + elapsed t t' * unat (Beta p) * unat stake)"
proof -
  have times: "no_time_overflow t t'" "no_time_overflow t' t"
    using assms(3,4) by (auto simp: no_time_overflow_def)
  have "elapsed t' t = 0" using assms(3) by (simp add: elapsed_def)
  then show ?thesis
    unfolding unat_Regen [OF assms(1,2) times(1)] unat_Regen [OF assms(1,2) times(2)]
    by (simp add: min_add_sat)
qed

lemma regen_rewind_credits_twice_witness:
  "unat (fst (Regen test_params (fst (Regen test_params 10 5 4 1)) 5 1 4)) = 40"
  using regen_rewind_credits_twice [of 5 test_params 1 4 10]
  by (simp add: test_params_def unat_RCMax elapsed_def)

end
