(* ===== verification/Contracts.thy ===== *)
theory Contracts
  imports OC_Prelude
begin

text \<open>
  The contract engine, \<open>pkg/contracts/engine.go\<close>: its maps, deployment, execution, storage,
  balances, the bytecode validation and the cost estimates.

  The WASM runtime (wazero) is a parameter, the record \<open>wazero\<close>: compiling, instantiating and
  calling the exported \<open>handle\<close> function, over a runtime state \<open>'r\<close> that holds whatever the
  modules share and mutate, with handles \<open>'c\<close> and \<open>'m\<close> for compiled and instantiated modules.

  A Go panic is an outcome of its own. The one that matters is a write to a nil map:
  \<open>NewContractEngine\<close> never makes the map \<open>compiled\<close>, so the field is an \<open>option\<close> here and
  a write to \<open>None\<close> panics.
\<close>

section \<open>Definitions\<close>

datatype 'a go =
  Ret "error + 'a"
| Panic error

datatype call_result =
  CallResults "u64 list"
| CallError error
| CallPanic error

record ('r, 'c, 'm) wazero =
  CompileModule :: "'r \<Rightarrow> bytes \<Rightarrow> 'r \<times> (error + 'c)"
  InstantiateModule :: "'r \<Rightarrow> 'c \<Rightarrow> 'r \<times> (error + 'm)"
  HasHandle :: "'r \<Rightarrow> 'm \<Rightarrow> bool"
  CallHandle :: "'r \<Rightarrow> 'm \<Rightarrow> 'r \<times> call_result"

record contract =
  con_Address :: string
  con_Owner :: string
  con_Code :: bytes
  con_Balance :: u64
  con_Storage :: "string \<rightharpoonup> bytes"
  con_Deployed :: i64

record contract_metrics =
  InstructionEstimate :: u64
  StateWriteEstimate :: u64

record execution_result =
  res_Output :: bytes
  res_Instructions :: u64
  res_StateWrites :: u64

record ('r, 'c, 'm) contract_engine =
  ce_contracts :: "string \<rightharpoonup> contract"
  ce_code :: "string \<rightharpoonup> bytes"
  ce_state :: "string \<rightharpoonup> (string \<rightharpoonup> bytes)"
  ce_runtime :: 'r
  ce_compiled :: "(string \<rightharpoonup> 'c) option"
  ce_modules :: "string \<rightharpoonup> 'm"
  ce_maxCallDepth :: nat
  ce_metrics :: "string \<rightharpoonup> contract_metrics"

text \<open>The field \<open>compiled\<close> is not in the composite literal: it is the nil map.\<close>

definition NewContractEngine :: "'r \<Rightarrow> ('r, 'c, 'm) contract_engine" where
  "NewContractEngine r = \<lparr>ce_contracts = Map.empty, ce_code = Map.empty, ce_state = Map.empty,
     ce_runtime = r, ce_compiled = None, ce_modules = Map.empty, ce_maxCallDepth = 32,
     ce_metrics = Map.empty\<rparr>"

definition containsFloatOpcodes :: "bytes \<Rightarrow> bool" where
  "containsFloatOpcodes wasmCode \<longleftrightarrow>
     list_ex (\<lambda>b. b \<in> set [0x43, 0x44, 0x8b, 0x8c, 0x8d, 0x8e, 0x99, 0x9a, 0x9b, 0x9c]) wasmCode"

definition ValidateWasmCode :: "bytes \<Rightarrow> error + unit" where
  "ValidateWasmCode code =
     guard_err (code = []) ''empty code''
    (guard_err (length code < 4 \<or> code ! 0 \<noteq> 0x00 \<or> code ! 1 \<noteq> 0x61 \<or> code ! 2 \<noteq> 0x73
        \<or> code ! 3 \<noteq> 0x6d) ''invalid WASM magic number''
    (guard_err (containsFloatOpcodes code) ''wasm contains floating-point opcodes''
    (Inr ())))"

definition estimateInstructions :: "bytes \<Rightarrow> u64" where
  "estimateInstructions wasmCode = word_of_nat (length wasmCode)"

text \<open>The zero value \<open>contractMetrics{}\<close> is what a Go map gives for a missing key.\<close>

definition metrics_of :: "(string \<rightharpoonup> contract_metrics) \<Rightarrow> string \<Rightarrow> contract_metrics" where
  "metrics_of m address =
     (case m address of Some x \<Rightarrow> x | None \<Rightarrow> \<lparr>InstructionEstimate = 0, StateWriteEstimate = 0\<rparr>)"

definition EstimateContractCall :: "('r, 'c, 'm) contract_engine \<Rightarrow> string \<Rightarrow> u64" where
  "EstimateContractCall ce address = InstructionEstimate (metrics_of (ce_metrics ce) address)"

definition EstimateStateWrites :: "('r, 'c, 'm) contract_engine \<Rightarrow> string \<Rightarrow> u64" where
  "EstimateStateWrites ce address = StateWriteEstimate (metrics_of (ce_metrics ce) address)"

text \<open>
  Compile, instantiate and remember: the two calls of the runtime and the two map writes that
  \<open>DeployContract\<close> and the on-demand path of \<open>ExecuteContract\<close> share. The first write goes to
  \<open>ce.compiled\<close>.
\<close>

definition load_module ::
  "('r, 'c, 'm) wazero \<Rightarrow> ('r, 'c, 'm) contract_engine \<Rightarrow> string \<Rightarrow> bytes
   \<Rightarrow> ('r, 'c, 'm) contract_engine \<times> 'm go"
where
  "load_module wz ce address code =
     (case CompileModule wz (ce_runtime ce) code of
        (r, Inl e) \<Rightarrow> (ce\<lparr>ce_runtime := r\<rparr>, Ret (Inl (''failed to compile wasm module: '' @ e)))
      | (r, Inr compiled) \<Rightarrow>
          (case InstantiateModule wz r compiled of
             (r, Inl e) \<Rightarrow> (ce\<lparr>ce_runtime := r\<rparr>, Ret (Inl (''failed to instantiate wasm module: '' @ e)))
           | (r, Inr m) \<Rightarrow>
               (case ce_compiled ce of
                  None \<Rightarrow> (ce\<lparr>ce_runtime := r\<rparr>, Panic ''assignment to entry in nil map'')
                | Some cm \<Rightarrow>
                    (ce\<lparr>ce_runtime := r, ce_compiled := Some (cm(address \<mapsto> compiled)),
                        ce_modules := (ce_modules ce)(address \<mapsto> m)\<rparr>, Ret (Inr m)))))"

definition DeployContract ::
  "('r, 'c, 'm) wazero \<Rightarrow> ('r, 'c, 'm) contract_engine \<Rightarrow> string \<Rightarrow> bytes \<Rightarrow> string
   \<Rightarrow> ('r, 'c, 'm) contract_engine \<times> unit go"
where
  "DeployContract wz ce owner wasmCode address =
     (if address \<in> dom (ce_contracts ce)
      then (ce, Ret (Inl ''contract already exists at address''))
      else if wasmCode = [] then (ce, Ret (Inl ''empty contract code''))
      else
        let contract = \<lparr>con_Address = address, con_Owner = owner, con_Code = wasmCode,
              con_Balance = 0, con_Storage = Map.empty, con_Deployed = 0\<rparr>;
            ce = ce\<lparr>ce_contracts := (ce_contracts ce)(address \<mapsto> contract),
                    ce_code := (ce_code ce)(address \<mapsto> wasmCode),
                    ce_state := (ce_state ce)(address \<mapsto> Map.empty)\<rparr>
        in case ValidateWasmCode wasmCode of
             Inl e \<Rightarrow> (ce, Ret (Inl e))
           | Inr _ \<Rightarrow>
               let ce = ce\<lparr>ce_metrics := (ce_metrics ce)(address \<mapsto>
                     \<lparr>InstructionEstimate = estimateInstructions wasmCode, StateWriteEstimate = 1\<rparr>)\<rparr>
               in case load_module wz ce address wasmCode of
                    (ce, Ret (Inl e)) \<Rightarrow> (ce, Ret (Inl e))
                  | (ce, Ret (Inr _)) \<Rightarrow> (ce, Ret (Inr ()))
                  | (ce, Panic e) \<Rightarrow> (ce, Panic e))"

text \<open>The eight bytes of the first result, least significant first.\<close>

definition le_bytes :: "u64 \<Rightarrow> bytes" where
  "le_bytes v = [ucast v, ucast (drop_bit 8 v), ucast (drop_bit 16 v), ucast (drop_bit 24 v),
     ucast (drop_bit 32 v), ucast (drop_bit 40 v), ucast (drop_bit 48 v), ucast (drop_bit 56 v)]"

text \<open>
  A panic of \<open>fn.Call\<close> is recovered by the deferred function, which assigns the local
  \<open>callErr\<close>; the results of \<open>ExecuteContract\<close> are unnamed, so the caller sees the zero
  values \<open>nil, nil\<close>: no output and no error. A panic of the on-demand path happens before
  the \<open>defer\<close> and is not recovered.
\<close>

definition ExecuteContract ::
  "('r, 'c, 'm) wazero \<Rightarrow> ('r, 'c, 'm) contract_engine \<Rightarrow> string
   \<Rightarrow> ('r, 'c, 'm) contract_engine \<times> bytes go"
where
  "ExecuteContract wz ce contractAddr =
     (case ce_contracts ce contractAddr of
        None \<Rightarrow> (ce, Ret (Inl ''contract not found''))
      | Some contract \<Rightarrow>
          if con_Code contract = [] then (ce, Ret (Inl ''contract has no code''))
          else
            let (ce, loaded) =
                  (case ce_modules ce contractAddr of
                     Some m \<Rightarrow> (ce, Ret (Inr m))
                   | None \<Rightarrow> load_module wz ce contractAddr (con_Code contract))
            in case loaded of
                 Panic e \<Rightarrow> (ce, Panic e)
               | Ret (Inl e) \<Rightarrow> (ce, Ret (Inl e))
               | Ret (Inr m) \<Rightarrow>
                   if \<not> HasHandle wz (ce_runtime ce) m then (ce, Ret (Inr []))
                   else
                     let (r, res) = CallHandle wz (ce_runtime ce) m;
                         ce = ce\<lparr>ce_runtime := r\<rparr>
                     in case res of
                          CallPanic _ \<Rightarrow> (ce, Ret (Inr []))
                        | CallError e \<Rightarrow> (ce, Ret (Inl (''wasm contract handle failed: '' @ e)))
                        | CallResults [] \<Rightarrow> (ce, Ret (Inr []))
                        | CallResults (v # _) \<Rightarrow> (ce, Ret (Inr (le_bytes v))))"

definition ExecuteContractWithResult ::
  "('r, 'c, 'm) wazero \<Rightarrow> ('r, 'c, 'm) contract_engine \<Rightarrow> string
   \<Rightarrow> ('r, 'c, 'm) contract_engine \<times> execution_result go"
where
  "ExecuteContractWithResult wz ce contractAddr =
     (case ExecuteContract wz ce contractAddr of
        (ce, Panic e) \<Rightarrow> (ce, Panic e)
      | (ce, Ret (Inl e)) \<Rightarrow> (ce, Ret (Inl e))
      | (ce, Ret (Inr output)) \<Rightarrow>
          let metrics = metrics_of (ce_metrics ce) contractAddr
          in (ce, Ret (Inr \<lparr>res_Output = output, res_Instructions = InstructionEstimate metrics,
                res_StateWrites = StateWriteEstimate metrics\<rparr>)))"

definition GetContract :: "('r, 'c, 'm) contract_engine \<Rightarrow> string \<Rightarrow> contract option" where
  "GetContract ce address = ce_contracts ce address"

definition SetContractStorage ::
  "('r, 'c, 'm) contract_engine \<Rightarrow> string \<Rightarrow> bytes \<Rightarrow> bytes \<Rightarrow> error + ('r, 'c, 'm) contract_engine"
where
  "SetContractStorage ce contractAddr key value =
     (case ce_state ce contractAddr of
        None \<Rightarrow> Inl ''contract not found''
      | Some storage \<Rightarrow>
          Inr (ce\<lparr>ce_state := (ce_state ce)(contractAddr \<mapsto> storage(string_of key \<mapsto> value))\<rparr>))"

text \<open>A missing key is the nil slice, the empty list.\<close>

definition GetContractStorage ::
  "('r, 'c, 'm) contract_engine \<Rightarrow> string \<Rightarrow> bytes \<Rightarrow> error + bytes"
where
  "GetContractStorage ce contractAddr key =
     (case ce_state ce contractAddr of
        None \<Rightarrow> Inl ''contract not found''
      | Some storage \<Rightarrow>
          (case storage (string_of key) of Some value \<Rightarrow> Inr value | None \<Rightarrow> Inr []))"

definition TransferToContract ::
  "('r, 'c, 'm) contract_engine \<Rightarrow> string \<Rightarrow> u64 \<Rightarrow> error + ('r, 'c, 'm) contract_engine"
where
  "TransferToContract ce contractAddr amount =
     (case ce_contracts ce contractAddr of
        None \<Rightarrow> Inl ''contract not found''
      | Some contract \<Rightarrow>
          Inr (ce\<lparr>ce_contracts := (ce_contracts ce)(contractAddr \<mapsto>
                contract\<lparr>con_Balance := con_Balance contract + amount\<rparr>)\<rparr>))"

definition GetContractBalance :: "('r, 'c, 'm) contract_engine \<Rightarrow> string \<Rightarrow> error + u64" where
  "GetContractBalance ce contractAddr =
     (case ce_contracts ce contractAddr of
        None \<Rightarrow> Inl ''contract not found''
      | Some contract \<Rightarrow> Inr (con_Balance contract))"

section \<open>The engines the program can build\<close>

text \<open>Every engine comes from \<open>NewContractEngine\<close> by the exported operations, whatever they
  return. An operation that panicked leaves the state it had reached.\<close>

inductive engine_step ::
  "('r, 'c, 'm) wazero \<Rightarrow> ('r, 'c, 'm) contract_engine \<Rightarrow> ('r, 'c, 'm) contract_engine \<Rightarrow> bool"
  for wz where
  deploy: "DeployContract wz ce owner code a = (ce', out) \<Longrightarrow> engine_step wz ce ce'"
| execute: "ExecuteContractWithResult wz ce a = (ce', out) \<Longrightarrow> engine_step wz ce ce'"
| set_storage: "SetContractStorage ce a k v = Inr ce' \<Longrightarrow> engine_step wz ce ce'"
| transfer: "TransferToContract ce a amount = Inr ce' \<Longrightarrow> engine_step wz ce ce'"

inductive reachable_engine ::
  "('r, 'c, 'm) wazero \<Rightarrow> ('r, 'c, 'm) contract_engine \<Rightarrow> bool"
  for wz where
  new: "reachable_engine wz (NewContractEngine r)"
| step: "reachable_engine wz ce \<Longrightarrow> engine_step wz ce ce' \<Longrightarrow> reachable_engine wz ce'"

inductive_cases engine_stepE: "engine_step wz ce ce'"

text \<open>What the code keeps: the compiled map stays nil, so no module is ever remembered; the
  maps \<open>contracts\<close>, \<open>code\<close> and \<open>state\<close> have the same keys, and metrics only for some of
  them; the stored code is never empty.\<close>

definition engine_inv :: "('r, 'c, 'm) contract_engine \<Rightarrow> bool" where
  "engine_inv ce \<longleftrightarrow> ce_compiled ce = None \<and> ce_modules ce = Map.empty
     \<and> (\<forall>a. ce_code ce a = None \<longleftrightarrow> ce_contracts ce a = None)
     \<and> (\<forall>a. ce_state ce a = None \<longleftrightarrow> ce_contracts ce a = None)
     \<and> (\<forall>a. ce_contracts ce a = None \<longrightarrow> ce_metrics ce a = None)
     \<and> (\<forall>a c. ce_contracts ce a = Some c \<longrightarrow> con_Code c \<noteq> [] \<and> con_Address c = a
           \<and> ce_code ce a = Some (con_Code c))"

lemma load_module_nil:
  assumes "ce_compiled ce = None" and "load_module wz ce a code = (ce', out)"
  shows "\<exists>r. ce' = ce\<lparr>ce_runtime := r\<rparr>" and "\<nexists>m. out = Ret (Inr m)"
  using assms by (auto simp: load_module_def split: prod.splits sum.splits)

lemma engine_inv_runtime [simp]: "engine_inv (ce\<lparr>ce_runtime := r\<rparr>) = engine_inv ce"
  by (simp add: engine_inv_def)

lemma engine_inv_new: "engine_inv (NewContractEngine r)"
  by (simp add: engine_inv_def NewContractEngine_def)

text \<open>A deployment either refuses before touching anything, or registers the contract and then
  reports the first thing that went wrong; with the nil map it cannot succeed.\<close>

lemma DeployContract_inv:
  assumes inv: "engine_inv ce" and dep: "DeployContract wz ce owner code a = (ce', out)"
  shows "engine_inv ce'" and "out \<noteq> Ret (Inr ())"
proof -
  define con where "con = \<lparr>con_Address = a, con_Owner = owner, con_Code = code,
    con_Balance = 0, con_Storage = Map.empty, con_Deployed = 0\<rparr>"
  define ce1 where "ce1 = ce\<lparr>ce_contracts := (ce_contracts ce)(a \<mapsto> con),
    ce_code := (ce_code ce)(a \<mapsto> code), ce_state := (ce_state ce)(a \<mapsto> Map.empty)\<rparr>"
  define ce2 where "ce2 = ce1\<lparr>ce_metrics := (ce_metrics ce1)(a \<mapsto>
    \<lparr>InstructionEstimate = estimateInstructions code, StateWriteEstimate = 1\<rparr>)\<rparr>"
  have inv1: "engine_inv ce1" if "code \<noteq> []"
    using inv that by (auto simp: engine_inv_def ce1_def con_def)
  have "ce_contracts ce1 a = Some con" by (simp add: ce1_def)
  then have inv2: "engine_inv ce2" if "code \<noteq> []"
    using inv1 [OF that] by (simp add: engine_inv_def ce2_def)
  have "ce_compiled ce2 = None" using inv by (simp add: engine_inv_def ce2_def ce1_def)
  note load = load_module_nil [OF this, of wz a code]
  have "engine_inv ce' \<and> out \<noteq> Ret (Inr ())"
  proof (cases "a \<in> dom (ce_contracts ce) \<or> code = []")
    case True
    then show ?thesis using dep inv by (simp add: DeployContract_def split: if_splits) auto
  next
    case False
    then have fresh: "a \<notin> dom (ce_contracts ce)" and nonempty: "code \<noteq> []" by auto
    show ?thesis
    proof (cases "ValidateWasmCode code")
      case (Inl e)
      then show ?thesis using dep fresh nonempty inv1 [OF nonempty]
        by (auto simp: DeployContract_def Let_def ce1_def con_def)
    next
      case (Inr u)
      obtain ce3 res where lm: "load_module wz ce2 a code = (ce3, res)" by force
      have "engine_inv ce3" using load(1) [OF lm] inv2 [OF nonempty] by auto
      moreover have "(ce', out) = (case (ce3, res) of (ce, Ret (Inl e)) \<Rightarrow> (ce, Ret (Inl e))
          | (ce, Ret (Inr _)) \<Rightarrow> (ce, Ret (Inr ())) | (ce, Panic e) \<Rightarrow> (ce, Panic e))"
        using dep fresh nonempty Inr lm
        by (simp add: DeployContract_def Let_def ce1_def ce2_def con_def)
      ultimately show ?thesis using load(2) [OF lm]
        by (auto split: go.splits sum.splits)
    qed
  qed
  then show "engine_inv ce'" "out \<noteq> Ret (Inr ())" by auto
qed

lemma ExecuteContract_inv:
  assumes inv: "engine_inv ce" and exe: "ExecuteContract wz ce a = (ce', out)"
  shows "engine_inv ce'" and "\<nexists>b. out = Ret (Inr b)"
proof -
  have nil: "ce_compiled ce = None" "ce_modules ce a = None"
    using inv by (simp_all add: engine_inv_def)
  have "engine_inv ce' \<and> (\<nexists>b. out = Ret (Inr b))"
  proof (cases "ce_contracts ce a")
    case (Some con)
    obtain ce3 res where lm: "load_module wz ce a (con_Code con) = (ce3, res)" by force
    show ?thesis using exe Some nil lm load_module_nil [OF nil(1) lm] inv
      by (auto simp: ExecuteContract_def split: go.splits sum.splits if_splits)
  qed (use exe inv in \<open>auto simp: ExecuteContract_def\<close>)
  then show "engine_inv ce'" "\<nexists>b. out = Ret (Inr b)" by auto
qed

lemma ExecuteContractWithResult_inv:
  assumes "engine_inv ce" and "ExecuteContractWithResult wz ce a = (ce', out)"
  shows "engine_inv ce'" and "\<nexists>r. out = Ret (Inr r)"
  using assms ExecuteContract_inv [OF assms(1), of wz a]
  by (auto simp: ExecuteContractWithResult_def Let_def split: prod.splits go.splits sum.splits)

lemma engine_step_inv: "engine_step wz ce ce' \<Longrightarrow> engine_inv ce \<Longrightarrow> engine_inv ce'"
proof (erule engine_stepE)
  fix a k v
  assume inv: "engine_inv ce" and "SetContractStorage ce a k v = Inr ce'"
  then obtain st where st: "ce_state ce a = Some st"
    "ce' = ce\<lparr>ce_state := (ce_state ce)(a \<mapsto> st(string_of k \<mapsto> v))\<rparr>"
    by (auto simp: SetContractStorage_def split: option.splits)
  then have "ce_contracts ce a \<noteq> None" using inv by (metis engine_inv_def option.distinct(1))
  with inv st show "engine_inv ce'" by (simp add: engine_inv_def)
next
  fix a amount
  assume "engine_inv ce" "TransferToContract ce a amount = Inr ce'"
  then show "engine_inv ce'"
    by (auto simp: TransferToContract_def engine_inv_def split: option.splits if_splits)
qed (auto dest: DeployContract_inv(1) ExecuteContractWithResult_inv(1))

lemma reachable_engine_inv: "reachable_engine wz ce \<Longrightarrow> engine_inv ce"
  by (induction rule: reachable_engine.induct) (auto intro: engine_inv_new engine_step_inv)

lemma storage_get_set:
  assumes "SetContractStorage ce a k v = Inr ce'"
  shows "GetContractStorage ce' a' k' = (if a' = a \<and> k' = k then Inr v else GetContractStorage ce a' k')"
proof -
  have "string_of k' = string_of k \<longleftrightarrow> k' = k" by (metis bytes_of_string_of)
  then show ?thesis using assms
    by (auto simp: SetContractStorage_def GetContractStorage_def split: option.splits if_splits)
qed

section \<open>Properties\<close>

text \<open>A runtime over which every module compiles, instantiates and returns 42, for the
  witnesses.\<close>

definition ok_runtime :: "(unit, nat, nat) wazero" where
  "ok_runtime = \<lparr>CompileModule = (\<lambda>r code. (r, Inr (length code))), InstantiateModule = (\<lambda>r c. (r, Inr c)),
     HasHandle = (\<lambda>r m. True), CallHandle = (\<lambda>r m. (r, CallResults [42]))\<rparr>"

definition wasm_header :: bytes where
  "wasm_header = [0x00, 0x61, 0x73, 0x6d, 0x01, 0x00, 0x00, 0x00]"

text \<open>Property. Whatever the WASM runtime does, and after any sequence of operations, the
  engine's maps agree: the contract, code and storage maps have the same keys, metrics are kept
  only for registered contracts, every registered contract has its own address and code, and
  no instantiated module is ever remembered.\<close>

theorem engine_maps_agree:
  assumes "reachable_engine wz ce"
  shows "dom (ce_code ce) = dom (ce_contracts ce) \<and> dom (ce_state ce) = dom (ce_contracts ce)
       \<and> dom (ce_metrics ce) \<subseteq> dom (ce_contracts ce) \<and> ce_modules ce = Map.empty
       \<and> (\<forall>a c. ce_contracts ce a = Some c \<longrightarrow>
            con_Address c = a \<and> con_Code c \<noteq> [] \<and> ce_code ce a = Some (con_Code c))"
proof -
  have inv: "engine_inv ce" using assms by (rule reachable_engine_inv)
  then have "dom (ce_code ce) = dom (ce_contracts ce)" "dom (ce_state ce) = dom (ce_contracts ce)"
    by (simp_all add: engine_inv_def dom_def)
  moreover have "dom (ce_metrics ce) \<subseteq> dom (ce_contracts ce)"
    using inv by (metis engine_inv_def domIff subsetI)
  ultimately show ?thesis using inv by (simp add: engine_inv_def)
qed

lemma engine_maps_agree_witness:
  "dom (ce_state (fst (DeployContract ok_runtime (NewContractEngine ()) ''o'' wasm_header ''c'')))
   = dom (ce_contracts (fst (DeployContract ok_runtime (NewContractEngine ()) ''o'' wasm_header ''c'')))"
proof -
  have "reachable_engine ok_runtime (fst (DeployContract ok_runtime (NewContractEngine ()) ''o'' wasm_header ''c''))"
    by (rule reachable_engine.step [OF reachable_engine.new engine_step.deploy], rule prod.collapse [symmetric])
  then show ?thesis using engine_maps_agree by blast
qed

text \<open>Property. No contract can be deployed and none can be called: in every reachable engine
  and over every runtime, \<open>DeployContract\<close> and \<open>ExecuteContractWithResult\<close> never return without
  an error, because \<open>compiled\<close> is never made and the write to the nil map panics once the
  runtime has accepted the module.\<close>

theorem contracts_never_run:
  assumes "reachable_engine wz ce"
  shows "snd (DeployContract wz ce owner code a) \<noteq> Ret (Inr ())
       \<and> snd (ExecuteContractWithResult wz ce a) \<noteq> Ret (Inr res)"
  using DeployContract_inv(2) [OF reachable_engine_inv [OF assms], of wz owner code a]
    ExecuteContractWithResult_inv(2) [OF reachable_engine_inv [OF assms], of wz a]
  by (auto simp: prod_eq_iff)

lemma contracts_never_run_witness:
  "snd (DeployContract ok_runtime (NewContractEngine ()) ''o'' wasm_header ''c'') \<noteq> Ret (Inr ())
   \<and> snd (DeployContract ok_runtime (NewContractEngine ()) ''o'' wasm_header ''c'')
       = Panic ''assignment to entry in nil map''"
proof -
  have "reachable_engine ok_runtime (NewContractEngine ())" by (rule reachable_engine.new)
  from contracts_never_run [OF this, of "''o''" wasm_header "''c''"]
  show ?thesis
    by (simp add: DeployContract_def NewContractEngine_def wasm_header_def ValidateWasmCode_def
        containsFloatOpcodes_def load_module_def ok_runtime_def)
qed

text \<open>Property. A deployment whose bytecode is rejected still occupies its address: it returns
  the validation error, but the contract stays registered with the rejected code, and every
  later deployment there, valid or not, fails as a duplicate.\<close>

theorem rejected_deploy_occupies_address:
  assumes "a \<notin> dom (ce_contracts ce)" and "code \<noteq> []" and "ValidateWasmCode code = Inl e"
  shows "\<exists>ce' c. DeployContract wz ce owner code a = (ce', Ret (Inl e))
       \<and> GetContract ce' a = Some c \<and> con_Code c = code
       \<and> (\<forall>owner' code'. DeployContract wz ce' owner' code' a
            = (ce', Ret (Inl ''contract already exists at address'')))"
  using assms by (auto simp: DeployContract_def Let_def GetContract_def)

lemma rejected_deploy_occupies_address_witness:
  "\<exists>ce' c. DeployContract ok_runtime (NewContractEngine ()) ''o'' [1, 2, 3] ''c''
       = (ce', Ret (Inl ''invalid WASM magic number''))
     \<and> GetContract ce' ''c'' = Some c \<and> con_Code c = [1, 2, 3]
     \<and> (\<forall>owner' code'. DeployContract ok_runtime ce' owner' code' ''c''
            = (ce', Ret (Inl ''contract already exists at address'')))"
  by (rule rejected_deploy_occupies_address)
    (simp_all add: NewContractEngine_def ValidateWasmCode_def)

text \<open>Property. Contract storage is a store per contract: after a successful write, a read of
  that contract and key gives the value, and every other read, of another key or another
  contract, is unchanged.\<close>

theorem contract_storage_get_set:
  assumes "SetContractStorage ce a k v = Inr ce'"
  shows "GetContractStorage ce' a' k' = (if a' = a \<and> k' = k then Inr v else GetContractStorage ce a' k')"
  using assms by (rule storage_get_set)

lemma contract_storage_get_set_witness:
  "GetContractStorage ((NewContractEngine ())\<lparr>ce_state :=
     Map.empty(''c'' \<mapsto> Map.empty(string_of [7] \<mapsto> [1, 2]))\<rparr> :: (unit, nat, nat) contract_engine)
     ''c'' [7] = Inr [1, 2]"
proof -
  define ce :: "(unit, nat, nat) contract_engine" where
    "ce = (NewContractEngine ())\<lparr>ce_state := Map.empty(''c'' \<mapsto> Map.empty)\<rparr>"
  have "SetContractStorage ce ''c'' [7] [1, 2] = Inr ((NewContractEngine ())\<lparr>ce_state :=
     Map.empty(''c'' \<mapsto> Map.empty(string_of [7] \<mapsto> [1, 2]))\<rparr>)"
    by (simp add: SetContractStorage_def ce_def)
  from contract_storage_get_set [OF this, of "''c''" "[7]"] show ?thesis by simp
qed

end
