(* ===== verification/Store.thy ===== *)
theory Store
  imports Encoding "HOL-Library.RBT"
begin

text \<open>
  Persistent state, \<open>pkg/state/store.go\<close> and \<open>codec.go\<close>: accounts, blocks, the window of
  timestamps and the consensus metadata, each under its key prefix in an ordered key-value
  store.

  The store (Pebble) is a parameter, the record \<open>pebble\<close> over views \<open>'kv\<close>: a view is the
  database or a batch over it, which is what the code's \<open>Reader\<close> and \<open>Writer\<close> range over.
  Every call may fail with an I/O error; \<open>pebble_laws\<close> states what holds when it does not.
\<close>

section \<open>The key-value store\<close>

record 'kv pebble =
  DbGet :: "'kv \<Rightarrow> bytes \<Rightarrow> error + bytes option"
  DbSet :: "'kv \<Rightarrow> bytes \<Rightarrow> bytes \<Rightarrow> error + 'kv"
  DbScan :: "'kv \<Rightarrow> bytes \<Rightarrow> bytes \<Rightarrow> error + (bytes \<times> bytes) list"
  DbNewBatch :: "'kv \<Rightarrow> 'kv"
  DbCommit :: "'kv \<Rightarrow> error + 'kv"

text \<open>
  Reading gives the last value written (\<open>None\<close> is \<open>ErrNotFound\<close>); a batch reads through to the
  database it was made from; committing it gives a database that reads as the batch did; an
  iterator with bounds yields the entries with \<open>lower \<le> key < upper\<close>, once each, in key order.
\<close>

locale pebble_laws =
  fixes pb :: "'kv pebble"
  assumes get_set: "DbSet pb db k v = Inr db' \<Longrightarrow>
      DbGet pb db' k' = (if k' = k then Inr (Some v) else DbGet pb db k')"
    and get_batch: "DbGet pb (DbNewBatch pb db) k = DbGet pb db k"
    and get_commit: "DbCommit pb b = Inr db' \<Longrightarrow> DbGet pb db' k = DbGet pb b k"
    and scan_sorted: "DbScan pb db lo hi = Inr kvs \<Longrightarrow> sorted_wrt (<) (map fst kvs)"
    and scan_entries: "DbScan pb db lo hi = Inr kvs \<Longrightarrow>
      (k, v) \<in> set kvs \<longleftrightarrow> lo \<le> k \<and> k < hi \<and> DbGet pb db k = Inr (Some v)"

section \<open>The account codec\<close>

definition marshalAccount :: "protowire \<Rightarrow> account option \<Rightarrow> error + bytes" where
  "marshalAccount pw acc =
     (case acc of
        None \<Rightarrow> Inl ''account is nil''
      | Some acct \<Rightarrow>
          let b = [];
              b = put_bytes pw b 1 (bytes_of (acct_Address acct));
              b = put_varint pw b 2 (acct_Balance acct);
              b = put_varint pw b 3 (acct_Nonce acct);
              b = put_varint pw b 4 (acct_Stake acct);
              b = put_varint pw b 5 (acct_RC acct);
              b = put_varint pw b 6 (acct_RCMax acct);
              b = put_varint pw b 7 (acct_LastRCEffectiveTime acct);
              b = (if acct_Code acct \<noteq> [] then put_bytes pw b 8 (acct_Code acct) else b);
              b = (if acct_PubKey acct \<noteq> [] then put_bytes pw b 9 (acct_PubKey acct) else b)
          in Inr b)"

definition account_field ::
  "protowire \<Rightarrow> nat \<Rightarrow> nat \<Rightarrow> bytes \<Rightarrow> account \<Rightarrow> error + (bytes \<times> account)"
where
  "account_field pw num wt b acct =
     (if num = 1 then
        bind_err (take_bytes pw wt ''invalid address type'' ''invalid address'' b)
          (\<lambda>(v, b). Inr (b, acct\<lparr>acct_Address := string_of v\<rparr>))
      else if num = 2 then
        bind_err (take_varint pw wt ''invalid balance type'' ''invalid balance'' b)
          (\<lambda>(v, b). Inr (b, acct\<lparr>acct_Balance := v\<rparr>))
      else if num = 3 then
        bind_err (take_varint pw wt ''invalid nonce type'' ''invalid nonce'' b)
          (\<lambda>(v, b). Inr (b, acct\<lparr>acct_Nonce := v\<rparr>))
      else if num = 4 then
        bind_err (take_varint pw wt ''invalid stake type'' ''invalid stake'' b)
          (\<lambda>(v, b). Inr (b, acct\<lparr>acct_Stake := v\<rparr>))
      else if num = 5 then
        bind_err (take_varint pw wt ''invalid rc type'' ''invalid rc'' b)
          (\<lambda>(v, b). Inr (b, acct\<lparr>acct_RC := v\<rparr>))
      else if num = 6 then
        bind_err (take_varint pw wt ''invalid rc_max type'' ''invalid rc_max'' b)
          (\<lambda>(v, b). Inr (b, acct\<lparr>acct_RCMax := v\<rparr>))
      else if num = 7 then
        bind_err (take_varint pw wt ''invalid last_rc_effective_time type''
            ''invalid last_rc_effective_time'' b)
          (\<lambda>(v, b). Inr (b, acct\<lparr>acct_LastRCEffectiveTime := v\<rparr>))
      else if num = 8 then
        bind_err (take_bytes pw wt ''invalid code type'' ''invalid code'' b)
          (\<lambda>(v, b). Inr (b, acct\<lparr>acct_Code := v\<rparr>))
      else if num = 9 then
        bind_err (take_bytes pw wt ''invalid pub_key type'' ''invalid pub_key'' b)
          (\<lambda>(v, b). Inr (b, acct\<lparr>acct_PubKey := v\<rparr>))
      else skip_field pw num wt ''invalid account field'' b acct)"

text \<open>The empty slice decodes to the zero account: this decoder has no emptiness check.\<close>

definition unmarshalAccount :: "protowire \<Rightarrow> bytes \<Rightarrow> error + account" where
  "unmarshalAccount pw b =
     decode_loop pw ''invalid account tag'' (account_field pw) b (zero_account [])"

section \<open>Accounts\<close>

definition accountPrefix :: string where "accountPrefix = ''acct/''"
definition blockPrefix :: string where "blockPrefix = ''block/''"
definition blockHeightPrefix :: string where "blockHeightPrefix = ''block_height/''"
definition metaLastTimestamps :: string where "metaLastTimestamps = ''meta/last_timestamps''"
definition metaConsensusHeight :: string where "metaConsensusHeight = ''meta/consensus_height''"
definition metaConsensusRound :: string where "metaConsensusRound = ''meta/consensus_round''"
definition metaConsensusLastFinalized :: string where
  "metaConsensusLastFinalized = ''meta/consensus_last_finalized''"

definition wrap_get :: "string \<Rightarrow> error + 'a \<Rightarrow> error + 'a" where
  "wrap_get prefix r = (case r of Inl e \<Rightarrow> Inl (prefix @ e) | Inr x \<Rightarrow> Inr x)"

definition getAccountFromReader ::
  "protowire \<Rightarrow> 'kv pebble \<Rightarrow> 'kv \<Rightarrow> address \<Rightarrow> error + account option"
where
  "getAccountFromReader pw pb reader addr =
     bind_err (wrap_get ''get account: '' (DbGet pb reader (bytes_of (accountPrefix @ addr))))
       (\<lambda>val. case val of
          None \<Rightarrow> Inr None
        | Some v \<Rightarrow> bind_err (unmarshalAccount pw v) (\<lambda>acct. Inr (Some acct)))"

definition setAccountWithWriter ::
  "protowire \<Rightarrow> 'kv pebble \<Rightarrow> 'kv \<Rightarrow> account option \<Rightarrow> error + 'kv"
where
  "setAccountWithWriter pw pb writer acc =
     (case acc of
        None \<Rightarrow> Inl ''account is nil''
      | Some acct \<Rightarrow>
          bind_err (marshalAccount pw (Some acct))
            (\<lambda>val. DbSet pb writer (bytes_of (accountPrefix @ acct_Address acct)) val))"

definition GetAccount :: "protowire \<Rightarrow> 'kv pebble \<Rightarrow> 'kv \<Rightarrow> address \<Rightarrow> error + account option" where
  "GetAccount pw pb db addr = getAccountFromReader pw pb db addr"

definition SetAccount :: "protowire \<Rightarrow> 'kv pebble \<Rightarrow> 'kv \<Rightarrow> account option \<Rightarrow> error + 'kv" where
  "SetAccount pw pb db acct = setAccountWithWriter pw pb db acct"

text \<open>The loop of \<open>iterateAccounts\<close> over the entries of the iterator: decode, then the callback,
  here one that collects what \<open>fn\<close> makes of each entry.\<close>

fun collect_accounts ::
  "protowire \<Rightarrow> (bytes \<Rightarrow> account \<Rightarrow> error + 'a) \<Rightarrow> (bytes \<times> bytes) list \<Rightarrow> error + 'a list"
where
  "collect_accounts pw fn [] = Inr []"
| "collect_accounts pw fn ((key, val) # rest) =
     bind_err (unmarshalAccount pw val) (\<lambda>acct.
     bind_err (fn key acct) (\<lambda>x.
     bind_err (collect_accounts pw fn rest) (\<lambda>xs. Inr (x # xs))))"

definition iterateAccounts ::
  "protowire \<Rightarrow> 'kv pebble \<Rightarrow> 'kv \<Rightarrow> (bytes \<Rightarrow> account \<Rightarrow> error + 'a) \<Rightarrow> error + 'a list"
where
  "iterateAccounts pw pb reader fn =
     bind_err (DbScan pb reader (bytes_of accountPrefix) (bytes_of accountPrefix @ [0xFF]))
       (collect_accounts pw fn)"

section \<open>Timestamps\<close>

text \<open>\<open>binary.BigEndian\<close>: the reads of eight and of four bytes, and the write of four.\<close>

definition BigEndian_Uint64 :: "bytes \<Rightarrow> u64" where
  "BigEndian_Uint64 b = ucast (b ! 7) OR push_bit 8 (ucast (b ! 6)) OR push_bit 16 (ucast (b ! 5))
     OR push_bit 24 (ucast (b ! 4)) OR push_bit 32 (ucast (b ! 3)) OR push_bit 40 (ucast (b ! 2))
     OR push_bit 48 (ucast (b ! 1)) OR push_bit 56 (ucast (b ! 0))"

definition BigEndian_Uint32 :: "bytes \<Rightarrow> u32" where
  "BigEndian_Uint32 b = ucast (b ! 3) OR push_bit 8 (ucast (b ! 2)) OR push_bit 16 (ucast (b ! 1))
     OR push_bit 24 (ucast (b ! 0))"

definition BigEndian_PutUint32 :: "u32 \<Rightarrow> bytes" where
  "BigEndian_PutUint32 v = [ucast (drop_bit 24 v), ucast (drop_bit 16 v), ucast (drop_bit 8 v), ucast v]"

definition encodeTimestamps :: "i64 list \<Rightarrow> bytes" where
  "encodeTimestamps ts = BigEndian_PutUint32 (word_of_nat (length ts)) @ concat (map MarshalUint64 ts)"

text \<open>The slice expressions \<open>b[:4]\<close> and \<open>b[i*8:(i+1)*8]\<close> are in range where they stand.\<close>

fun read_timestamps :: "nat \<Rightarrow> bytes \<Rightarrow> i64 list" where
  "read_timestamps 0 b = []"
| "read_timestamps (Suc n) b = BigEndian_Uint64 (take 8 b) # read_timestamps n (drop 8 b)"

definition decodeTimestamps :: "bytes \<Rightarrow> error + i64 list" where
  "decodeTimestamps b =
     guard_err (length b < 4) ''invalid timestamp encoding''
    (let n = BigEndian_Uint32 (take 4 b);
         b = drop 4 b
     in guard_err (length b < unat n * 8) ''invalid timestamp length''
          (Inr (read_timestamps (unat n) b)))"

definition GetLastTimestamps :: "'kv pebble \<Rightarrow> 'kv \<Rightarrow> error + i64 list" where
  "GetLastTimestamps pb db =
     bind_err (wrap_get ''get last timestamps: '' (DbGet pb db (bytes_of metaLastTimestamps)))
       (\<lambda>val. case val of None \<Rightarrow> Inr [] | Some v \<Rightarrow> decodeTimestamps v)"

definition SetLastTimestamps :: "'kv pebble \<Rightarrow> 'kv \<Rightarrow> i64 list \<Rightarrow> error + 'kv" where
  "SetLastTimestamps pb db ts =
     (let val = encodeTimestamps ts in DbSet pb db (bytes_of metaLastTimestamps) val)"

definition setLastTimestampsWithWriter :: "'kv pebble \<Rightarrow> 'kv \<Rightarrow> i64 list \<Rightarrow> error + 'kv" where
  "setLastTimestampsWithWriter pb writer ts =
     DbSet pb writer (bytes_of metaLastTimestamps) (encodeTimestamps ts)"

section \<open>Blocks\<close>

definition setBlockWithWriter ::
  "protowire \<Rightarrow> 'kv pebble \<Rightarrow> 'kv \<Rightarrow> block option \<Rightarrow> hash \<Rightarrow> error + 'kv"
where
  "setBlockWithWriter pw pb writer blk hash =
     bind_err (MarshalBlock pw blk) (\<lambda>blockBytes.
     let blockKey = bytes_of blockPrefix @ hash;
         heightKey = bytes_of blockHeightPrefix @
           MarshalUint64 (case blk of Some block \<Rightarrow> bl_Height block | None \<Rightarrow> 0)
     in bind_err (DbSet pb writer blockKey blockBytes) (\<lambda>writer.
        DbSet pb writer heightKey hash))"

definition SetBlock ::
  "protowire \<Rightarrow> (bytes \<Rightarrow> hash) \<Rightarrow> 'kv pebble \<Rightarrow> 'kv \<Rightarrow> block option \<Rightarrow> error + ('kv \<times> hash)"
where
  "SetBlock pw sha256 pb db blk =
     (case blk of
        None \<Rightarrow> Inl ''block is nil''
      | Some block \<Rightarrow>
          bind_err (HashBlock pw sha256 (Some block)) (\<lambda>hash.
          bind_err (setBlockWithWriter pw pb db (Some block) hash) (\<lambda>db. Inr (db, hash))))"

definition GetBlockByHash :: "protowire \<Rightarrow> 'kv pebble \<Rightarrow> 'kv \<Rightarrow> hash \<Rightarrow> error + block option" where
  "GetBlockByHash pw pb db hash =
     bind_err (wrap_get ''get block: '' (DbGet pb db (bytes_of blockPrefix @ hash)))
       (\<lambda>val. case val of
          None \<Rightarrow> Inr None
        | Some v \<Rightarrow> bind_err (UnmarshalBlock pw v) (\<lambda>block. Inr (Some block)))"

definition GetBlockByHeight :: "protowire \<Rightarrow> 'kv pebble \<Rightarrow> 'kv \<Rightarrow> u64 \<Rightarrow> error + block option" where
  "GetBlockByHeight pw pb db height =
     bind_err (wrap_get ''get block height: '' (DbGet pb db (bytes_of blockHeightPrefix @ MarshalUint64 height)))
       (\<lambda>val. case val of
          None \<Rightarrow> Inr None
        | Some v \<Rightarrow> guard_err (length v \<noteq> 32) ''invalid block hash length'' (GetBlockByHash pw pb db v))"

section \<open>Consensus metadata\<close>

definition SetConsensusState ::
  "'kv pebble \<Rightarrow> 'kv \<Rightarrow> u64 \<Rightarrow> u64 \<Rightarrow> hash \<Rightarrow> error + 'kv"
where
  "SetConsensusState pb db height round lastFinalized =
     (let batch = DbNewBatch pb db
      in bind_err (DbSet pb batch (bytes_of metaConsensusHeight) (MarshalUint64 height)) (\<lambda>batch.
         bind_err (DbSet pb batch (bytes_of metaConsensusRound) (MarshalUint64 round)) (\<lambda>batch.
         bind_err (DbSet pb batch (bytes_of metaConsensusLastFinalized) lastFinalized) (\<lambda>batch.
         DbCommit pb batch))))"

text \<open>A value of the wrong length is ignored and leaves the zero value.\<close>

definition GetConsensusState :: "'kv pebble \<Rightarrow> 'kv \<Rightarrow> error + (u64 \<times> u64 \<times> hash)" where
  "GetConsensusState pb db =
     bind_err (wrap_get ''get consensus height: '' (DbGet pb db (bytes_of metaConsensusHeight))) (\<lambda>hv.
     bind_err (wrap_get ''get consensus round: '' (DbGet pb db (bytes_of metaConsensusRound))) (\<lambda>rv.
     bind_err (wrap_get ''get consensus last finalized: ''
         (DbGet pb db (bytes_of metaConsensusLastFinalized))) (\<lambda>fv.
     let num = (\<lambda>val. case val of Some v \<Rightarrow> if length v = 8 then BigEndian_Uint64 v else 0 | None \<Rightarrow> 0);
         lastFinalized = (case fv of Some v \<Rightarrow> if length v = 32 then v else zero_hash | None \<Rightarrow> zero_hash)
     in Inr (num hv, num rv, lastFinalized))))"

section \<open>The codecs invert\<close>

lemma BigEndian_Uint64_Marshal [simp]: "BigEndian_Uint64 (MarshalUint64 v) = v"
proof (rule bit_word_eqI)
  fix n assume "n < LENGTH(64)"
  then consider "n < 8" | "8 \<le> n" "n < 16" | "16 \<le> n" "n < 24" | "24 \<le> n" "n < 32"
    | "32 \<le> n" "n < 40" | "40 \<le> n" "n < 48" | "48 \<le> n" "n < 56" | "56 \<le> n" "n < 64"
    by fastforce
  then show "bit (BigEndian_Uint64 (MarshalUint64 v)) n = bit v n"
    by cases (auto simp: BigEndian_Uint64_def MarshalUint64_def bit_simps)
qed

lemma BigEndian_Uint32_Put [simp]: "BigEndian_Uint32 (BigEndian_PutUint32 v) = v"
proof (rule bit_word_eqI)
  fix n assume "n < LENGTH(32)"
  then consider "n < 8" | "8 \<le> n" "n < 16" | "16 \<le> n" "n < 24" | "24 \<le> n" "n < 32"
    by fastforce
  then show "bit (BigEndian_Uint32 (BigEndian_PutUint32 v)) n = bit v n"
    by cases (auto simp: BigEndian_Uint32_def BigEndian_PutUint32_def bit_simps)
qed

lemma length_MarshalUint64 [simp]: "length (MarshalUint64 v) = 8"
  by (simp add: MarshalUint64_def)

lemma length_PutUint32 [simp]: "length (BigEndian_PutUint32 v) = 4"
  by (simp add: BigEndian_PutUint32_def)

lemma MarshalUint64_inject [simp]: "MarshalUint64 v = MarshalUint64 w \<longleftrightarrow> v = w"
  by (metis BigEndian_Uint64_Marshal)

lemma read_timestamps_concat:
  "read_timestamps (length ts) (concat (map MarshalUint64 ts) @ r) = ts"
  by (induction ts) simp_all

lemma length_concat_MarshalUint64: "length (concat (map MarshalUint64 ts)) = length ts * 8"
  by (induction ts) simp_all

lemma timestamps_roundtrip:
  assumes "length ts < 2 ^ 32"
  shows "decodeTimestamps (encodeTimestamps ts) = Inr ts"
proof -
  have "unat (word_of_nat (length ts) :: u32) = length ts"
    using assms by (simp add: unat_of_nat)
  then show ?thesis using read_timestamps_concat [of ts "[]"]
    by (simp add: decodeTimestamps_def encodeTimestamps_def Let_def length_concat_MarshalUint64)
qed

lemma account_field_reader [simp]: "field_reader (account_field pw)"
  by (auto simp: field_reader_def account_field_def intro!: reads_within_intros)

lemmas account_field_at =
  account_field_def [of _ "Suc 0"] account_field_def [of _ "numeral n" for n]

lemma marshalAccount_Some: "\<exists>b. marshalAccount pw (Some acct) = Inr b"
  by (simp add: marshalAccount_def Let_def)

context protowire_laws
begin

lemma unmarshalAccount_returns: "unmarshalAccount pw b \<noteq> Inl diverges"
  by (simp add: unmarshalAccount_def)

lemma account_roundtrip:
  assumes "marshalAccount pw (Some acct) = Inr b"
  shows "unmarshalAccount pw b = Inr acct"
proof -
  define hdr where "hdr = put_varint pw (put_varint pw (put_varint pw (put_varint pw (put_varint pw
    (put_varint pw (put_bytes pw [] 1 (bytes_of (acct_Address acct))) 2 (acct_Balance acct))
    3 (acct_Nonce acct)) 4 (acct_Stake acct)) 5 (acct_RC acct)) 6 (acct_RCMax acct))
    7 (acct_LastRCEffectiveTime acct)"
  define code where "code = (if acct_Code acct = [] then [] else put_bytes pw [] 8 (acct_Code acct))"
  define key where "key = (if acct_PubKey acct = [] then [] else put_bytes pw [] 9 (acct_PubKey acct))"
  have app: "put_bytes pw h 8 v = h @ put_bytes pw [] 8 v" "put_bytes pw h 9 v = h @ put_bytes pw [] 9 v" for h v
    by (simp_all add: put_bytes_append)
  have "b = (let b = (if acct_Code acct \<noteq> [] then put_bytes pw hdr 8 (acct_Code acct) else hdr)
      in if acct_PubKey acct \<noteq> [] then put_bytes pw b 9 (acct_PubKey acct) else b)"
    using assms unfolding marshalAccount_def hdr_def Let_def by simp
  then have b: "b = hdr @ code @ key"
    by (simp add: Let_def code_def key_def app(1) [of hdr] app(2) [of hdr] app(2) [of "hdr @ _"]
        split: if_splits)
  have "decode_loop pw et (account_field pw) (hdr @ r) (zero_account [])
      = decode_loop pw et (account_field pw) r (acct\<lparr>acct_Code := [], acct_PubKey := []\<rparr>)" for et r
    unfolding hdr_def
    by (cases acct) (simp add: wire_roundtrip account_field_at zero_account_def)
  moreover have "decode_loop pw et (account_field pw) (code @ r) a
      = decode_loop pw et (account_field pw) r (a\<lparr>acct_Code := acct_Code acct\<rparr>)"
    if "acct_Code a = []" for et r a
    using that by (cases a) (simp add: code_def wire_roundtrip account_field_at)
  moreover have "decode_loop pw et (account_field pw) key a
      = Inr (a\<lparr>acct_PubKey := acct_PubKey acct\<rparr>)" if "acct_PubKey a = []" for et a
    using that by (cases a) (simp add: key_def wire_roundtrip account_field_at)
  ultimately show ?thesis by (simp add: unmarshalAccount_def b)
qed

end

section \<open>What a write does to every later read\<close>

lemma bytes_of_Cons: "bytes_of (c # s) = word_of_nat (of_char c) # bytes_of s"
  by (simp add: bytes_of_def)

lemma wrap_get_Inr [simp]: "wrap_get p r = Inr x \<longleftrightarrow> r = Inr x" and wrap_get_of_Inr [simp]: "wrap_get p (Inr x) = Inr x"
  by (simp_all add: wrap_get_def split: sum.split)

text \<open>The key of an account is none of the other keys.\<close>

lemmas key_defs = accountPrefix_def blockPrefix_def blockHeightPrefix_def metaLastTimestamps_def
  metaConsensusHeight_def metaConsensusRound_def metaConsensusLastFinalized_def bytes_of_Cons

text \<open>Views with an account per address: the interface that the state transition is written
  against. A write of an account is read back at its address and nowhere else.\<close>

locale account_view =
  fixes getA :: "'s \<Rightarrow> address \<Rightarrow> error + account option"
    and setA :: "'s \<Rightarrow> account option \<Rightarrow> error + 's"
  assumes read_after_write: "setA s (Some a) = Inr s' \<Longrightarrow>
      getA s' addr = (if addr = acct_Address a then Inr (Some a) else getA s addr)"

context account_view
begin

text \<open>Accounts sit at their own address, which every write keeps.\<close>

lemma addressed_write:
  assumes "\<And>x b. getA s x = Inr (Some b) \<Longrightarrow> acct_Address b = x"
    and "setA s (Some a) = Inr s'" and "getA s' x = Inr (Some b)"
  shows "acct_Address b = x"
  using read_after_write [OF assms(2), of x] assms(1) [of x b] assms(3) by (auto split: if_splits)

end

locale store_env = protowire_laws pw + pebble_laws pb
  for pw :: protowire and pb :: "'kv pebble"

context store_env
begin

lemma account_read_after_write:
  assumes "setAccountWithWriter pw pb s (Some a) = Inr s'"
  shows "getAccountFromReader pw pb s' addr
       = (if addr = acct_Address a then Inr (Some a) else getAccountFromReader pw pb s addr)"
proof -
  obtain val where val: "marshalAccount pw (Some a) = Inr val"
    and w: "DbSet pb s (bytes_of (accountPrefix @ acct_Address a)) val = Inr s'"
    using assms by (auto simp: setAccountWithWriter_def)
  show ?thesis
    by (simp add: getAccountFromReader_def get_set [OF w] account_roundtrip [OF val]
        del: bytes_of_append)
qed

lemma other_key_write:
  assumes "DbSet pb s k v = Inr s'" and "\<And>addr. k \<noteq> bytes_of (accountPrefix @ addr)"
  shows "getAccountFromReader pw pb s' addr = getAccountFromReader pw pb s addr"
  using assms(2) [of addr] by (auto simp: getAccountFromReader_def get_set [OF assms(1)])

lemma batch_accounts [simp]:
  "getAccountFromReader pw pb (DbNewBatch pb db) addr = getAccountFromReader pw pb db addr"
  by (simp add: getAccountFromReader_def get_batch)

lemma commit_accounts:
  "DbCommit pb b = Inr db \<Longrightarrow> getAccountFromReader pw pb db addr = getAccountFromReader pw pb b addr"
  by (simp add: getAccountFromReader_def get_commit)

lemma timestamps_after_write:
  assumes "setLastTimestampsWithWriter pb s ts = Inr s'" and "length ts < 2 ^ 32"
  shows "GetLastTimestamps pb s' = Inr ts"
  using assms timestamps_roundtrip
  by (simp add: setLastTimestampsWithWriter_def GetLastTimestamps_def get_set)

lemma timestamps_write_accounts:
  assumes "setLastTimestampsWithWriter pb s ts = Inr s'"
  shows "getAccountFromReader pw pb s' addr = getAccountFromReader pw pb s addr"
  by (rule other_key_write [OF assms [unfolded setLastTimestampsWithWriter_def]])
    (simp add: key_defs)

lemma block_write:
  assumes "setBlockWithWriter pw pb s (Some blk) h = Inr s'"
  shows "getAccountFromReader pw pb s' addr = getAccountFromReader pw pb s addr"
    and "GetLastTimestamps pb s' = GetLastTimestamps pb s"
    and "DbGet pb s' (bytes_of blockPrefix @ h) = map_sum id Some (MarshalBlock pw (Some blk))"
    and "DbGet pb s' (bytes_of blockHeightPrefix @ MarshalUint64 (bl_Height blk)) = Inr (Some h)"
proof -
  obtain b s1 where b: "MarshalBlock pw (Some blk) = Inr b"
    and w1: "DbSet pb s (bytes_of blockPrefix @ h) b = Inr s1"
    and w2: "DbSet pb s1 (bytes_of blockHeightPrefix @ MarshalUint64 (bl_Height blk)) h = Inr s'"
    using assms by (auto simp: setBlockWithWriter_def Let_def)
  have "getAccountFromReader pw pb s' addr = getAccountFromReader pw pb s1 addr"
    by (rule other_key_write [OF w2]) (simp add: key_defs)
  also have "\<dots> = getAccountFromReader pw pb s addr"
    by (rule other_key_write [OF w1]) (simp add: key_defs)
  finally show "getAccountFromReader pw pb s' addr = getAccountFromReader pw pb s addr" .
  show "GetLastTimestamps pb s' = GetLastTimestamps pb s"
    by (simp add: GetLastTimestamps_def get_set [OF w2] get_set [OF w1] key_defs)
  show "DbGet pb s' (bytes_of blockPrefix @ h) = map_sum id Some (MarshalBlock pw (Some blk))"
    by (simp add: get_set [OF w2] get_set [OF w1] b) (simp add: key_defs)
  show "DbGet pb s' (bytes_of blockHeightPrefix @ MarshalUint64 (bl_Height blk)) = Inr (Some h)"
    by (simp add: get_set [OF w2])
qed

lemma SetBlock_read_back:
  assumes "SetBlock pw sha256 pb db (Some blk) = Inr (db', h)"
    and "length h = 32" "length (bl_PrevHash blk) = 32" "length (bl_StateRoot blk) = 32"
  shows "GetBlockByHash pw pb db' h = Inr (Some blk)"
    and "GetBlockByHeight pw pb db' (bl_Height blk) = Inr (Some blk)"
proof -
  have w: "setBlockWithWriter pw pb db (Some blk) h = Inr db'"
    using assms(1) by (auto simp: SetBlock_def)
  then obtain b where b: "MarshalBlock pw (Some blk) = Inr b"
    by (auto simp: setBlockWithWriter_def)
  show hash: "GetBlockByHash pw pb db' h = Inr (Some blk)"
    by (simp add: GetBlockByHash_def block_write(3) [OF w] b block_roundtrip [OF assms(3,4) b])
  show "GetBlockByHeight pw pb db' (bl_Height blk) = Inr (Some blk)"
    by (simp add: GetBlockByHeight_def block_write(4) [OF w] assms(2) hash)
qed

lemma consensus_state_roundtrip:
  assumes "SetConsensusState pb db height round f = Inr db'" and "length f = 32"
  shows "GetConsensusState pb db' = Inr (height, round, f)"
proof -
  obtain b1 b2 b3 where
    "DbSet pb (DbNewBatch pb db) (bytes_of metaConsensusHeight) (MarshalUint64 height) = Inr b1"
    "DbSet pb b1 (bytes_of metaConsensusRound) (MarshalUint64 round) = Inr b2"
    "DbSet pb b2 (bytes_of metaConsensusLastFinalized) f = Inr b3" "DbCommit pb b3 = Inr db'"
    using assms(1) by (auto simp: SetConsensusState_def Let_def)
  then show ?thesis using assms(2)
    by (simp add: GetConsensusState_def get_commit get_set)
      (simp add: metaConsensusHeight_def metaConsensusRound_def metaConsensusLastFinalized_def)
qed

end

sublocale store_env \<subseteq> accounts: account_view "getAccountFromReader pw pb" "setAccountWithWriter pw pb"
  by unfold_locales (rule account_read_after_write)

section \<open>An ordered store in memory\<close>

text \<open>An instance of the interface over the library's red-black trees, whose batches are copies:
  it shows that the laws can hold together, and the witnesses run on it.\<close>

definition memory_store :: "(bytes, bytes) RBT.rbt pebble" where
  "memory_store = \<lparr>
     DbGet = (\<lambda>t k. Inr (RBT.lookup t k)),
     DbSet = (\<lambda>t k v. Inr (RBT.insert k v t)),
     DbScan = (\<lambda>t lo hi. Inr (filter (\<lambda>(k, v). lo \<le> k \<and> k < hi) (RBT.entries t))),
     DbNewBatch = (\<lambda>t. t),
     DbCommit = (\<lambda>t. Inr t)\<rparr>"

lemma sorted_distinct_strict:
  "sorted xs \<Longrightarrow> distinct xs \<Longrightarrow> sorted_wrt (<) (xs :: 'a :: linorder list)"
  by (simp add: strict_sorted_iff)

interpretation memory: pebble_laws memory_store
proof
  fix db db' :: "(bytes, bytes) RBT.rbt" and k k' v :: bytes
  assume "DbSet memory_store db k v = Inr db'"
  then show "DbGet memory_store db' k' = (if k' = k then Inr (Some v) else DbGet memory_store db k')"
    by (auto simp: memory_store_def)
next
  fix db b db' :: "(bytes, bytes) RBT.rbt" and k :: bytes
  show "DbGet memory_store (DbNewBatch memory_store db) k = DbGet memory_store db k"
    by (simp add: memory_store_def)
  show "DbCommit memory_store b = Inr db' \<Longrightarrow> DbGet memory_store db' k = DbGet memory_store b k"
    by (simp add: memory_store_def)
next
  fix db :: "(bytes, bytes) RBT.rbt" and lo hi :: bytes and kvs :: "(bytes \<times> bytes) list"
  assume kvs: "DbScan memory_store db lo hi = Inr kvs"
  have "sorted_wrt (<) (map fst (RBT.entries db))"
    by (rule sorted_distinct_strict) (rule RBT.sorted_entries, rule RBT.distinct_entries)
  then show "sorted_wrt (<) (map fst kvs)"
    using kvs by (auto simp: memory_store_def sorted_wrt_map intro: sorted_wrt_filter)
  show "(k, v) \<in> set kvs \<longleftrightarrow> lo \<le> k \<and> k < hi \<and> DbGet memory_store db k = Inr (Some v)" for k v
    using kvs by (auto simp: memory_store_def RBT.lookup_in_tree)
qed

interpretation memory_env: store_env wire_format memory_store
  by unfold_locales

section \<open>Properties\<close>

text \<open>Property. The account store is a map: after \<open>SetAccount\<close> succeeded, \<open>GetAccount\<close> of that
  address gives exactly the account written, all nine fields, and every other address reads as
  before, whether that is an account, no account or an error.\<close>

theorem account_store_is_a_map:
  assumes "store_env pw pb" and "SetAccount pw pb db (Some a) = Inr db'"
  shows "GetAccount pw pb db' addr
       = (if addr = acct_Address a then Inr (Some a) else GetAccount pw pb db addr)"
  using store_env.account_read_after_write [OF assms(1) assms(2) [unfolded SetAccount_def]]
  by (simp add: GetAccount_def)

lemma account_store_is_a_map_witness:
  "\<exists>db'. SetAccount wire_format memory_store RBT.empty (Some ((zero_account ''x'')\<lparr>acct_Balance := 700, acct_Code := [9]\<rparr>))
       = Inr db'
     \<and> GetAccount wire_format memory_store db' ''x'' = Inr (Some ((zero_account ''x'')\<lparr>acct_Balance := 700, acct_Code := [9]\<rparr>))
     \<and> GetAccount wire_format memory_store db' ''y'' = Inr None"
proof -
  define a where "a = (zero_account ''x'')\<lparr>acct_Balance := 700, acct_Code := [9]\<rparr>"
  obtain v where "marshalAccount wire_format (Some a) = Inr v" using marshalAccount_Some by blast
  then obtain db' where db': "SetAccount wire_format memory_store RBT.empty (Some a) = Inr db'"
    by (simp add: SetAccount_def setAccountWithWriter_def memory_store_def)
  have "acct_Address a = ''x''" by (simp add: a_def zero_account_def)
  moreover have "GetAccount wire_format memory_store RBT.empty ''y'' = Inr None"
    by (simp add: GetAccount_def getAccountFromReader_def memory_store_def)
  ultimately show ?thesis
    using account_store_is_a_map [OF memory_env.store_env_axioms db'] db' unfolding a_def [symmetric] by auto
qed

text \<open>Property. The timestamp window survives its encoding for every window of fewer than
  \<open>2 ^ 32\<close> entries, and the decoder accepts exactly the inputs long enough for the count that
  they announce, so a truncated value is an error and never a shorter window.\<close>

theorem timestamps_codec:
  assumes "length ts < 2 ^ 32"
  shows "decodeTimestamps (encodeTimestamps ts) = Inr ts
       \<and> ((\<exists>r. decodeTimestamps b = Inr r \<and> length r = unat (BigEndian_Uint32 (take 4 b)))
            \<longleftrightarrow> 4 + unat (BigEndian_Uint32 (take 4 b)) * 8 \<le> length b)"
proof -
  have len: "length (read_timestamps n x) = n" for n x by (induction n arbitrary: x) simp_all
  have "(\<exists>r. decodeTimestamps b = Inr r \<and> length r = unat (BigEndian_Uint32 (take 4 b)))
      \<longleftrightarrow> 4 + unat (BigEndian_Uint32 (take 4 b)) * 8 \<le> length b"
    by (auto simp: decodeTimestamps_def Let_def len)
  then show ?thesis using timestamps_roundtrip [OF assms] by simp
qed

lemma timestamps_codec_witness:
  "decodeTimestamps (encodeTimestamps [5, - 1]) = Inr [5, - 1]"
  using timestamps_codec [of "[5, - 1]"] by simp

end
