(* ===== verification/Merkle.thy ===== *)
theory Merkle
  imports Store
begin

text \<open>
  The state root, \<open>pkg/state/merkle.go\<close>: the accounts of a view in key order, one leaf hash
  each, and the Merkle tree over the leaves that pairs an odd node with itself.

  SHA-256 is the parameter \<open>sha256\<close>. The binding lemma does not assume that it has no
  collisions (no function to 32 bytes has none): it exhibits two different inputs among
  those that the two computations hashed.
\<close>

section \<open>Definitions\<close>

text \<open>One round of the loop: the next level of the tree.\<close>

fun merkle_level :: "(bytes \<Rightarrow> hash) \<Rightarrow> bytes list \<Rightarrow> bytes list" where
  "merkle_level sha256 [] = []"
| "merkle_level sha256 [left] = [sha256 (0x01 # left @ left)]"
| "merkle_level sha256 (left # right # rest) =
     sha256 (0x01 # left @ right) # merkle_level sha256 rest"

lemma length_merkle_level: "length (merkle_level sha256 xs) = (length xs + 1) div 2"
  by (induction sha256 xs rule: merkle_level.induct) simp_all

function merkleRoot :: "(bytes \<Rightarrow> hash) \<Rightarrow> bytes list \<Rightarrow> bytes" where
  "merkleRoot sha256 leaves =
     (case leaves of
        [] \<Rightarrow> []
      | [root] \<Rightarrow> root
      | _ # _ # _ \<Rightarrow> merkleRoot sha256 (merkle_level sha256 leaves))"
  by pat_completeness auto
termination
  by (relation "measure (\<lambda>(sha256, leaves). length leaves)") (auto simp: length_merkle_level)

declare merkleRoot.simps [simp del]

definition leaf_input :: "bytes \<times> bytes \<Rightarrow> bytes" where
  "leaf_input it = 0x00 # fst it @ snd it"

text \<open>The callback of the iteration and the slice \<open>items\<close> it fills, with \<open>sort.Slice\<close> after it;
  \<open>copy(out[:], root)\<close> goes into an array of 32 bytes.\<close>

definition state_items :: "protowire \<Rightarrow> 'kv pebble \<Rightarrow> 'kv \<Rightarrow> error + (bytes \<times> bytes) list" where
  "state_items pw pb reader =
     bind_err (iterateAccounts pw pb reader
         (\<lambda>key acct. bind_err (marshalAccount pw (Some acct)) (\<lambda>val. Inr (key, val))))
       (\<lambda>items. Inr (sort_key fst items))"

definition ComputeStateRootFromReader ::
  "protowire \<Rightarrow> (bytes \<Rightarrow> hash) \<Rightarrow> 'kv pebble \<Rightarrow> 'kv \<Rightarrow> error + hash"
where
  "ComputeStateRootFromReader pw sha256 pb reader =
     bind_err (state_items pw pb reader)
       (\<lambda>items.
          let leaves = map (\<lambda>it. sha256 (leaf_input it)) items
          in if leaves = [] then Inr zero_hash
             else let root = merkleRoot sha256 leaves
                  in Inr (take 32 (root @ drop (length root) zero_hash)))"

section \<open>Binding\<close>

text \<open>The inputs that a computation of the root hashes, level by level.\<close>

fun level_inputs :: "bytes list \<Rightarrow> bytes set" where
  "level_inputs [] = {}"
| "level_inputs [left] = {0x01 # left @ left}"
| "level_inputs (left # right # rest) = insert (0x01 # left @ right) (level_inputs rest)"

function tree_inputs :: "(bytes \<Rightarrow> hash) \<Rightarrow> bytes list \<Rightarrow> bytes set" where
  "tree_inputs sha256 leaves =
     (if length leaves \<le> 1 then {}
      else level_inputs leaves \<union> tree_inputs sha256 (merkle_level sha256 leaves))"
  by pat_completeness auto
termination
  by (relation "measure (\<lambda>(sha256, leaves). length leaves)") (auto simp: length_merkle_level)

declare tree_inputs.simps [simp del]

definition collision :: "(bytes \<Rightarrow> hash) \<Rightarrow> bytes set \<Rightarrow> bytes set \<Rightarrow> bool" where
  "collision sha256 A B \<longleftrightarrow> (\<exists>u\<in>A. \<exists>v\<in>B. u \<noteq> v \<and> sha256 u = sha256 v)"

lemma collision_mono: "collision h A B \<Longrightarrow> A \<subseteq> A' \<Longrightarrow> B \<subseteq> B' \<Longrightarrow> collision h A' B'"
  unfolding collision_def by blast

lemma append_same_halves:
  "length (a :: 'a list) = length a' \<Longrightarrow> a @ b = a' @ b' \<longleftrightarrow> a = a' \<and> b = b'"
  by simp

lemma merkle_level_binding:
  assumes "length xs = length ys" and "merkle_level h xs = merkle_level h ys"
    and "\<forall>x\<in>set xs \<union> set ys. length x = n"
  shows "xs = ys \<or> collision h (level_inputs xs) (level_inputs ys)"
  using assms
proof (induction xs arbitrary: ys rule: level_inputs.induct)
  case (2 x)
  then obtain y where y: "ys = [y]" by (cases ys) auto
  show ?case
  proof (cases "x = y")
    case False
    then have "0x01 # x @ x \<noteq> 0x01 # y @ y" using 2 y by auto
    then show ?thesis using 2 y by (auto simp: collision_def)
  qed (simp add: y)
next
  case (3 x x' xs)
  then obtain y y' ys' where ys: "ys = y # y' # ys'" by (cases ys; cases "tl ys") auto
  then have rest: "xs = ys' \<or> collision h (level_inputs xs) (level_inputs ys')"
    using "3.prems" by (intro "3.IH") auto
  have eq: "h (0x01 # x @ x') = h (0x01 # y @ y')" using "3.prems"(2) ys by simp
  show ?case
  proof (cases "x = y \<and> x' = y'")
    case True
    then show ?thesis using rest ys collision_mono [OF _ subset_insertI subset_insertI]
      by auto
  next
    case False
    then have "0x01 # x @ x' \<noteq> 0x01 # y @ y'" using "3.prems"(3) ys by auto
    with eq show ?thesis unfolding ys collision_def by auto
  qed
qed simp

lemma merkle_level_width:
  "\<forall>x. length (h x) = 32 \<Longrightarrow> x \<in> set (merkle_level h xs) \<Longrightarrow> length x = 32"
  by (induction h xs rule: merkle_level.induct) auto

lemma tree_inputs_step:
  "1 < length xs \<Longrightarrow>
   tree_inputs h xs = level_inputs xs \<union> tree_inputs h (merkle_level h xs)"
  by (subst tree_inputs.simps) simp

lemma merkleRoot_step: "1 < length xs \<Longrightarrow> merkleRoot h xs = merkleRoot h (merkle_level h xs)"
  by (subst merkleRoot.simps) (auto split: list.splits)

lemma merkleRoot_single [simp]: "merkleRoot h [x] = x"
  by (subst merkleRoot.simps) simp

lemma merkleRoot_binding:
  assumes "length xs = length ys" and "merkleRoot h xs = merkleRoot h ys"
    and "\<forall>x\<in>set xs \<union> set ys. length x = 32" and width: "\<forall>x. length (h x) = 32"
  shows "xs = ys \<or> collision h (tree_inputs h xs) (tree_inputs h ys)"
  using assms(1-3)
proof (induction "length xs" arbitrary: xs ys rule: less_induct)
  case less
  show ?case
  proof (cases "length xs \<le> 1")
    case True
    then show ?thesis using less.prems
      by (cases xs; cases ys) auto
  next
    case False
    define xs' ys' where "xs' = merkle_level h xs" and "ys' = merkle_level h ys"
    have inputs: "tree_inputs h xs = level_inputs xs \<union> tree_inputs h xs'"
      "tree_inputs h ys = level_inputs ys \<union> tree_inputs h ys'"
      using False less.prems(1) unfolding xs'_def ys'_def by (simp_all only: tree_inputs_step not_le)
    have roots: "merkleRoot h xs = merkleRoot h xs'" "merkleRoot h ys = merkleRoot h ys'"
      using False less.prems(1) unfolding xs'_def ys'_def
      by (simp_all only: merkleRoot_step not_le)
    have "length xs' < length xs" "length xs' = length ys'"
      using False less.prems(1) by (simp_all add: xs'_def ys'_def length_merkle_level)
    moreover have "\<forall>x\<in>set xs' \<union> set ys'. length x = 32"
      using merkle_level_width [OF width] by (auto simp: xs'_def ys'_def)
    ultimately have "xs' = ys' \<or> collision h (tree_inputs h xs') (tree_inputs h ys')"
      using less.hyps less.prems(2) roots by simp
    then show ?thesis
    proof
      assume "xs' = ys'"
      then have "xs = ys \<or> collision h (level_inputs xs) (level_inputs ys)"
        unfolding xs'_def ys'_def using less.prems(1,3) by (intro merkle_level_binding) auto
      then show ?thesis unfolding inputs using collision_mono [OF _ Un_upper1 Un_upper1] by blast
    next
      assume "collision h (tree_inputs h xs') (tree_inputs h ys')"
      then show ?thesis unfolding inputs using collision_mono [OF _ Un_upper2 Un_upper2] by blast
    qed
  qed
qed

lemma merkle_level_duplicate:
  "even (length xs) \<Longrightarrow> merkle_level h (xs @ [a]) = merkle_level h (xs @ [a, a])"
  by (induction h xs rule: merkle_level.induct) auto

section \<open>The state root\<close>

text \<open>Every input that the computation of the root over these items hashes.\<close>

definition root_inputs :: "(bytes \<Rightarrow> hash) \<Rightarrow> (bytes \<times> bytes) list \<Rightarrow> bytes set" where
  "root_inputs sha256 items = leaf_input ` set items
     \<union> tree_inputs sha256 (map (\<lambda>it. sha256 (leaf_input it)) items)"

lemma merkleRoot_width:
  assumes "\<forall>x. length (h x) = 32" and "xs \<noteq> []" and "\<forall>x\<in>set xs. length x = 32"
  shows "length (merkleRoot h xs) = 32"
  using assms(2,3)
proof (induction "length xs" arbitrary: xs rule: less_induct)
  case less
  show ?case
  proof (cases "1 < length xs")
    case True
    have "merkle_level h xs \<noteq> []" using True by (cases xs; cases "tl xs") auto
    with True show ?thesis
      using less.hyps [of "merkle_level h xs"] merkle_level_width [OF assms(1), of _ xs]
      by (simp add: merkleRoot_step length_merkle_level)
  next
    case False
    then show ?thesis using less.prems by (cases xs) auto
  qed
qed

lemma root_of_items:
  assumes "\<forall>x. length (h x) = 32" and "state_items pw pb r = Inr items" and "items \<noteq> []"
  shows "ComputeStateRootFromReader pw h pb r
       = Inr (merkleRoot h (map (\<lambda>it. h (leaf_input it)) items))"
  using assms merkleRoot_width [OF assms(1), of "map (\<lambda>it. h (leaf_input it)) items"]
  by (simp add: ComputeStateRootFromReader_def Let_def zero_hash_def)

lemma leaves_binding:
  assumes "map (\<lambda>it. h (leaf_input it)) xs = map (\<lambda>it. h (leaf_input it)) ys"
  shows "map leaf_input xs = map leaf_input ys \<or> collision h (leaf_input ` set xs) (leaf_input ` set ys)"
  using assms
proof (induction xs arbitrary: ys)
  case (Cons x xs)
  then obtain y ys' where ys: "ys = y # ys'" by (cases ys) auto
  then have "map leaf_input xs = map leaf_input ys'
      \<or> collision h (leaf_input ` set xs) (leaf_input ` set ys')"
    using Cons by simp
  moreover have "leaf_input x = leaf_input y
      \<or> collision h (leaf_input ` set (x # xs)) (leaf_input ` set (y # ys'))"
    using Cons.prems ys by (auto simp: collision_def)
  ultimately show ?case
    using ys collision_mono [of h "leaf_input ` set xs" "leaf_input ` set ys'"
        "leaf_input ` set (x # xs)" "leaf_input ` set (y # ys')"]
    by auto
qed simp

lemma items_binding:
  assumes width: "\<forall>x. length (h x) = 32" and len: "length xs = length ys"
    and root: "merkleRoot h (map (\<lambda>it. h (leaf_input it)) xs)
      = merkleRoot h (map (\<lambda>it. h (leaf_input it)) ys)"
  shows "map leaf_input xs = map leaf_input ys \<or> collision h (root_inputs h xs) (root_inputs h ys)"
proof -
  have "map (\<lambda>it. h (leaf_input it)) xs = map (\<lambda>it. h (leaf_input it)) ys
      \<or> collision h (tree_inputs h (map (\<lambda>it. h (leaf_input it)) xs))
          (tree_inputs h (map (\<lambda>it. h (leaf_input it)) ys))"
    using len root width by (intro merkleRoot_binding) auto
  then show ?thesis
  proof
    assume "map (\<lambda>it. h (leaf_input it)) xs = map (\<lambda>it. h (leaf_input it)) ys"
    from leaves_binding [OF this] show ?thesis
      unfolding root_inputs_def using collision_mono [OF _ Un_upper1 Un_upper1] by blast
  next
    assume "collision h (tree_inputs h (map (\<lambda>it. h (leaf_input it)) xs))
          (tree_inputs h (map (\<lambda>it. h (leaf_input it)) ys))"
    then show ?thesis
      unfolding root_inputs_def using collision_mono [OF _ Un_upper2 Un_upper2] by blast
  qed
qed

lemma not_less_prefix: "\<not> p @ c # r < p @ [c :: 'a :: linorder]"
  by (induction p) auto

text \<open>The root reads nothing but the entries between the two bounds of the iterator.\<close>

context pebble_laws
begin

lemma scan_extensional:
  assumes "DbScan pb r lo hi = Inr xs" and "DbScan pb r' lo hi = Inr ys"
    and "\<And>k. lo \<le> k \<Longrightarrow> k < hi \<Longrightarrow> DbGet pb r k = DbGet pb r' k"
  shows "xs = ys"
proof -
  have sets: "set xs = set ys"
  proof (rule set_eqI)
    fix kv :: "bytes \<times> bytes"
    show "kv \<in> set xs \<longleftrightarrow> kv \<in> set ys"
      using scan_entries [OF assms(1), of "fst kv" "snd kv"]
        scan_entries [OF assms(2), of "fst kv" "snd kv"] assms(3) [of "fst kv"] by auto
  qed
  have "sorted (map fst zs) \<and> distinct (map fst zs)" if "DbScan pb s lo hi = Inr zs" for s zs
    using scan_sorted [OF that] by (simp add: strict_sorted_iff)
  then have "sorted (map fst xs)" "distinct (map fst xs)" "sorted (map fst ys)" "distinct (map fst ys)"
    using assms(1,2) by blast+
  moreover have "inj_on fst (set xs \<union> set ys)"
    using sets \<open>distinct (map fst ys)\<close> by (simp add: distinct_map)
  ultimately show ?thesis using sets by (intro map_sorted_distinct_set_unique [of fst])
qed

lemma state_root_extensional:
  assumes "ComputeStateRootFromReader pw h pb r = Inr root"
    and "ComputeStateRootFromReader pw h pb r' = Inr root'"
    and "\<And>k. bytes_of accountPrefix \<le> k \<Longrightarrow> k < bytes_of accountPrefix @ [0xFF] \<Longrightarrow>
      DbGet pb r k = DbGet pb r' k"
  shows "root = root'"
proof -
  obtain xs ys where "DbScan pb r (bytes_of accountPrefix) (bytes_of accountPrefix @ [0xFF]) = Inr xs"
    "DbScan pb r' (bytes_of accountPrefix) (bytes_of accountPrefix @ [0xFF]) = Inr ys"
    using assms(1,2) by (auto simp: ComputeStateRootFromReader_def state_items_def iterateAccounts_def)
  moreover from this have "xs = ys" using assms(3) by (rule scan_extensional)
  ultimately show ?thesis using assms(1,2)
    by (auto simp: ComputeStateRootFromReader_def state_items_def iterateAccounts_def)
qed

lemma high_address_write:
  assumes "setAccountWithWriter pw pb r (Some a) = Inr r'"
    and "bytes_of (acct_Address a) = 0xFF # rest" and "k < bytes_of accountPrefix @ [0xFF]"
  shows "DbGet pb r' k = DbGet pb r k"
proof -
  obtain val where "DbSet pb r (bytes_of (accountPrefix @ acct_Address a)) val = Inr r'"
    using assms(1) by (auto simp: setAccountWithWriter_def)
  moreover have "k \<noteq> bytes_of (accountPrefix @ acct_Address a)"
    using assms(2,3) not_less_prefix [of "bytes_of accountPrefix" "0xFF" rest] by auto
  ultimately show ?thesis by (auto simp: get_set simp del: bytes_of_append)
qed

end

section \<open>Properties\<close>

text \<open>A total function to 32 bytes for the witnesses, standing where SHA-256 stands.\<close>

definition pad_hash :: "bytes \<Rightarrow> hash" where
  "pad_hash b = take 32 (b @ zero_hash)"

lemma length_pad_hash: "\<forall>x. length (pad_hash x) = 32"
  by (auto simp: pad_hash_def zero_hash_def min_def)

text \<open>Property C39. The state root binds the state: if two views of the same number of accounts
  have the same root, either their lists of leaves (key and encoded account, in key order) are
  the same, or the two computations of the root hashed two different inputs to the same hash.\<close>

theorem state_root_binds_leaves:
  assumes "\<forall>x. length (sha256 x) = 32"
    and "state_items pw pb r = Inr xs" and "state_items pw pb r' = Inr ys" and "length xs = length ys"
    and "ComputeStateRootFromReader pw sha256 pb r = Inr root"
    and "ComputeStateRootFromReader pw sha256 pb r' = Inr root"
  shows "map leaf_input xs = map leaf_input ys
       \<or> collision sha256 (root_inputs sha256 xs) (root_inputs sha256 ys)"
proof (cases "xs = []")
  case False
  moreover have "ys \<noteq> []" using False assms(4) by auto
  ultimately show ?thesis
    using assms root_of_items [OF assms(1,2)] root_of_items [OF assms(1,3)]
    by (intro items_binding) auto
qed (use assms(4) in simp)

text \<open>Property. The state root is a function of the accounts alone: two views that read the same
  under every key from \<open>acct/\<close> up to \<open>acct/\xff\<close> have the same root, whatever else they hold
  and however they were written.\<close>

theorem state_root_deterministic:
  assumes "pebble_laws pb"
    and "ComputeStateRootFromReader pw sha256 pb r = Inr root"
    and "ComputeStateRootFromReader pw sha256 pb r' = Inr root'"
    and "\<And>k. bytes_of accountPrefix \<le> k \<Longrightarrow> k < bytes_of accountPrefix @ [0xFF] \<Longrightarrow>
      DbGet pb r k = DbGet pb r' k"
  shows "root = root'"
  using pebble_laws.state_root_extensional [OF assms] .

text \<open>Property. The upper bound of the iterator cuts accounts off: writing any account whose
  address starts with the byte 0xFF, whatever its balance, leaves the state root unchanged.\<close>

theorem state_root_ignores_high_addresses:
  assumes "pebble_laws pb" and "bytes_of (acct_Address a) = 0xFF # rest"
    and "setAccountWithWriter pw pb r (Some a) = Inr r'"
    and "ComputeStateRootFromReader pw sha256 pb r = Inr root"
    and "ComputeStateRootFromReader pw sha256 pb r' = Inr root'"
  shows "root' = root"
  by (rule pebble_laws.state_root_extensional [OF assms(1,5,4)])
    (rule pebble_laws.high_address_write [OF assms(1,3,2)])


text \<open>Two accounts whose leaves are the same bytes: the code of the first is the encoding of the
  second, whose address continues with the header of the first.\<close>

definition shadow_header :: bytes where
  "shadow_header = [0x0A, 1, 0x61, 0x10, 0, 0x18, 0, 0x20, 0, 0x28, 0, 0x30, 0, 0x38, 0, 0x42, 32]"

definition shadow_account :: account where
  "shadow_account = (zero_account (''a'' @ string_of shadow_header))\<lparr>acct_Balance := 7\<rparr>"

definition carrier_account :: account where
  "carrier_account = (zero_account ''a'')\<lparr>acct_Code :=
     [0x0A, 18] @ bytes_of (acct_Address shadow_account)
     @ [0x10, 7, 0x18, 0, 0x20, 0, 0x28, 0, 0x30, 0, 0x38, 0]\<rparr>"

lemma carrier_bytes:
  "marshalAccount wire_format (Some carrier_account) =
     Inr (shadow_header @ acct_Code carrier_account)"
  by code_simp

lemma shadow_bytes:
  "marshalAccount wire_format (Some shadow_account) = Inr (acct_Code carrier_account)"
  by code_simp

lemma one_entry: "RBT.entries (RBT.insert k v RBT.empty) = [(k, v)]"
  by (simp add: RBT.entries.rep_eq RBT.insert.rep_eq RBT.empty.rep_eq rbt_insert_def
      rbt_insert_with_key_def)

lemma state_items_single:
  assumes "marshalAccount wire_format (Some a) = Inr val"
    and "bytes_of (acct_Address a) = c # rest" and "c < 0xFF"
  shows "state_items wire_format memory_store
       (RBT.insert (bytes_of (accountPrefix @ acct_Address a)) val RBT.empty)
     = Inr [(bytes_of (accountPrefix @ acct_Address a), val)]"
proof -
  have "bytes_of accountPrefix \<le> bytes_of (accountPrefix @ acct_Address a)"
    "bytes_of (accountPrefix @ acct_Address a) < bytes_of accountPrefix @ [0xFF]"
    using assms(2,3) by (simp_all add: key_defs)
  then show ?thesis
    using assms(1) wire.account_roundtrip [OF assms(1)]
    by (simp add: state_items_def iterateAccounts_def memory_store_def one_entry del: bytes_of_append)
qed

lemma carrier_items:
  "state_items wire_format memory_store
     (RBT.insert (bytes_of (accountPrefix @ acct_Address carrier_account))
        (shadow_header @ acct_Code carrier_account) RBT.empty)
   = Inr [(bytes_of (accountPrefix @ acct_Address carrier_account),
        shadow_header @ acct_Code carrier_account)]"
  by (rule state_items_single [OF carrier_bytes, where c = "0x61"])
    (simp_all add: carrier_account_def zero_account_def bytes_of_Cons)

lemma shadow_items:
  "state_items wire_format memory_store
     (RBT.insert (bytes_of (accountPrefix @ acct_Address shadow_account))
        (acct_Code carrier_account) RBT.empty)
   = Inr [(bytes_of (accountPrefix @ acct_Address shadow_account), acct_Code carrier_account)]"
  by (rule state_items_single [OF shadow_bytes, where c = "0x61"])
    (simp_all add: shadow_account_def zero_account_def bytes_of_Cons)

text \<open>Property. The leaf of an account concatenates its key and its encoding without a length,
  so the state root does not determine the state, whatever the hash: two databases, each holding
  one account, with different addresses and balances, have the same root.\<close>

theorem state_root_not_injective:
  "\<exists>r1 r2. setAccountWithWriter wire_format memory_store RBT.empty (Some carrier_account) = Inr r1
     \<and> setAccountWithWriter wire_format memory_store RBT.empty (Some shadow_account) = Inr r2
     \<and> getAccountFromReader wire_format memory_store r1 (acct_Address shadow_account) = Inr None
     \<and> getAccountFromReader wire_format memory_store r2 (acct_Address shadow_account)
         = Inr (Some shadow_account) \<and> acct_Balance shadow_account = 7
     \<and> ComputeStateRootFromReader wire_format sha256 memory_store r1
         = ComputeStateRootFromReader wire_format sha256 memory_store r2"
proof -
  define k1 k2 where "k1 = bytes_of (accountPrefix @ acct_Address carrier_account)"
    and "k2 = bytes_of (accountPrefix @ acct_Address shadow_account)"
  define r1 r2 where "r1 = RBT.insert k1 (shadow_header @ acct_Code carrier_account) RBT.empty"
    and "r2 = RBT.insert k2 (acct_Code carrier_account) RBT.empty"
  have k: "k2 = k1 @ shadow_header"
    by (simp add: k1_def k2_def carrier_account_def shadow_account_def zero_account_def
        bytes_of_Cons)
  have w: "setAccountWithWriter wire_format memory_store RBT.empty (Some carrier_account) = Inr r1"
    "setAccountWithWriter wire_format memory_store RBT.empty (Some shadow_account) = Inr r2"
    by (simp_all add: setAccountWithWriter_def carrier_bytes shadow_bytes memory_store_def
        r1_def r2_def k1_def k2_def)
  have "state_items wire_format memory_store r1 = Inr [(k1, shadow_header @ acct_Code carrier_account)]"
    unfolding r1_def k1_def by (rule carrier_items)
  moreover have "state_items wire_format memory_store r2 = Inr [(k2, acct_Code carrier_account)]"
    unfolding r2_def k2_def by (rule shadow_items)
  ultimately have "ComputeStateRootFromReader wire_format sha256 memory_store r1
      = ComputeStateRootFromReader wire_format sha256 memory_store r2"
    by (simp add: ComputeStateRootFromReader_def leaf_input_def k)
  moreover have "acct_Address shadow_account \<noteq> acct_Address carrier_account" "acct_Balance shadow_account = 7"
    by (simp_all add: shadow_account_def carrier_account_def zero_account_def shadow_header_def string_of_def)
  ultimately show ?thesis
    using w memory_env.account_read_after_write [OF w(1)] memory_env.account_read_after_write [OF w(2)]
    by (simp add: getAccountFromReader_def memory_store_def)
qed

lemma empty_root: "ComputeStateRootFromReader pw sha256 memory_store RBT.empty = Inr zero_hash"
  by (simp add: ComputeStateRootFromReader_def state_items_def iterateAccounts_def memory_store_def
      RBT.entries.rep_eq RBT.empty.rep_eq)

lemma outside_root:
  "\<not> (bytes_of accountPrefix \<le> k \<and> k < bytes_of accountPrefix @ [0xFF]) \<Longrightarrow>
   ComputeStateRootFromReader pw sha256 memory_store (RBT.insert k v RBT.empty) = Inr zero_hash"
  by (auto simp: ComputeStateRootFromReader_def state_items_def iterateAccounts_def memory_store_def
      one_entry)

lemma state_root_binds_leaves_witness:
  "\<exists>r r' root xs ys. ComputeStateRootFromReader wire_format pad_hash memory_store r = Inr root
     \<and> ComputeStateRootFromReader wire_format pad_hash memory_store r' = Inr root
     \<and> state_items wire_format memory_store r = Inr xs \<and> state_items wire_format memory_store r' = Inr ys \<and> xs \<noteq> ys
     \<and> (map leaf_input xs = map leaf_input ys \<or> collision pad_hash (root_inputs pad_hash xs) (root_inputs pad_hash ys))"
proof -
  define k1 k2 where "k1 = bytes_of (accountPrefix @ acct_Address carrier_account)"
    and "k2 = bytes_of (accountPrefix @ acct_Address shadow_account)"
  define v1 v2 where "v1 = shadow_header @ acct_Code carrier_account"
    and "v2 = acct_Code carrier_account"
  have items: "state_items wire_format memory_store (RBT.insert k1 v1 RBT.empty) = Inr [(k1, v1)]"
    "state_items wire_format memory_store (RBT.insert k2 v2 RBT.empty) = Inr [(k2, v2)]"
    unfolding k1_def k2_def v1_def v2_def by (rule carrier_items, rule shadow_items)
  have same: "k2 = k1 @ shadow_header" "v1 = shadow_header @ v2"
    by (simp_all add: k1_def k2_def v1_def v2_def carrier_account_def shadow_account_def
        zero_account_def bytes_of_Cons)
  then have root: "ComputeStateRootFromReader wire_format pad_hash memory_store (RBT.insert k1 v1 RBT.empty)
      = Inr (pad_hash (leaf_input (k1, v1)))"
    "ComputeStateRootFromReader wire_format pad_hash memory_store (RBT.insert k2 v2 RBT.empty)
      = Inr (pad_hash (leaf_input (k1, v1)))"
    using root_of_items [OF length_pad_hash items(1)] root_of_items [OF length_pad_hash items(2)]
    by (simp_all add: leaf_input_def)
  have "k1 \<noteq> k2" unfolding same shadow_header_def by simp
  then have "[(k1, v1)] \<noteq> [(k2, v2)]" by simp
  moreover have "length [(k1, v1)] = length [(k2, v2)]" by simp
  ultimately show ?thesis
    using state_root_binds_leaves [OF length_pad_hash items _ root] root items by blast
qed

lemma state_root_deterministic_witness:
  "ComputeStateRootFromReader wire_format pad_hash memory_store RBT.empty
     = ComputeStateRootFromReader wire_format pad_hash memory_store
         (RBT.insert (bytes_of metaConsensusHeight) [1] RBT.empty)"
proof -
  have "ComputeStateRootFromReader wire_format pad_hash memory_store
         (RBT.insert (bytes_of metaConsensusHeight) [1] RBT.empty) = Inr zero_hash"
    by (rule outside_root) (simp add: key_defs)
  from state_root_deterministic [OF memory.pebble_laws_axioms empty_root this]
  show ?thesis
    using \<open>_ = Inr zero_hash\<close> by (simp add: empty_root)
qed

lemma state_root_ignores_high_addresses_witness:
  "\<exists>r'. setAccountWithWriter wire_format memory_store RBT.empty
       (Some ((zero_account (string_of [0xFF, 1]))\<lparr>acct_Balance := 1000\<rparr>)) = Inr r'
     \<and> ComputeStateRootFromReader wire_format pad_hash memory_store r' = Inr zero_hash"
proof -
  define a where "a = (zero_account (string_of [0xFF, 1]))\<lparr>acct_Balance := 1000\<rparr>"
  have addr: "bytes_of (acct_Address a) = 0xFF # [1]" by (simp add: a_def zero_account_def)
  obtain val where val: "marshalAccount wire_format (Some a) = Inr val"
    using marshalAccount_Some by blast
  define k where "k = bytes_of accountPrefix @ [0xFF, 1]"
  have w: "setAccountWithWriter wire_format memory_store RBT.empty (Some a) = Inr (RBT.insert k val RBT.empty)"
    by (simp add: setAccountWithWriter_def val memory_store_def k_def addr)
  have "ComputeStateRootFromReader wire_format pad_hash memory_store (RBT.insert k val RBT.empty)
      = Inr zero_hash"
    using not_less_prefix [of "bytes_of accountPrefix" "0xFF" "[1]"]
    by (intro outside_root) (simp add: k_def)
  then show ?thesis
    using state_root_ignores_high_addresses [OF memory.pebble_laws_axioms addr w empty_root] w
    unfolding a_def [symmetric] by blast
qed

end
