(* ===== verification/Dag.thy ===== *)
theory Dag
  imports Types
begin

text \<open>
  The graph of state versions, \<open>pkg/state/dag.go\<close>: nodes under their root hash, the children
  recorded for each parent, and the frontier. The operations are \<open>AddNode\<close>, with the update of
  the tips, and \<open>PruneNonFinal\<close>, whose recursive closure \<open>walk\<close> becomes a stack of the children
  still to visit. The lemmas show what insertion keeps, that the walk ends on every graph that
  insertions and prunes make, and that pruning keeps exactly what is reachable.
\<close>

section \<open>Definitions\<close>

text \<open>A key missing from \<open>children\<close> reads as the nil slice, so the map is a total function with
  the empty list for what is not there; whether a key is present is never asked.\<close>

record dag =
  dag_nodes :: "hash \<rightharpoonup> state_node"
  dag_children :: "hash \<Rightarrow> hash list"
  dag_tips :: "hash list"

definition NewDAG :: dag where
  "NewDAG = \<lparr>dag_nodes = Map.empty, dag_children = (\<lambda>_. []), dag_tips = []\<rparr>"

definition updateTips :: "hash \<Rightarrow> hash list \<Rightarrow> dag \<Rightarrow> dag" where
  "updateTips newNode parents d =
     d\<lparr>dag_tips := filter (\<lambda>tip. tip \<notin> set parents) (dag_tips d) @ [newNode]\<rparr>"

fun add_children :: "hash \<Rightarrow> hash list \<Rightarrow> (hash \<Rightarrow> hash list) \<Rightarrow> hash \<Rightarrow> hash list" where
  "add_children h [] ch = ch"
| "add_children h (parent # ps) ch = add_children h ps (ch(parent := ch parent @ [h]))"

definition AddNode :: "state_node option \<Rightarrow> dag \<Rightarrow> error + dag" where
  "AddNode node d =
     (case node of
        None \<Rightarrow> Inl ''state node is nil''
      | Some n \<Rightarrow>
          guard_err (dag_nodes d (sn_RootHash n) \<noteq> None) ''state node already exists''
         (let d = d\<lparr>dag_nodes := (dag_nodes d)(sn_RootHash n \<mapsto> n)\<rparr>;
              d = d\<lparr>dag_children := add_children (sn_RootHash n) (sn_Parents n) (dag_children d)\<rparr>
          in Inr (updateTips (sn_RootHash n) (sn_Parents n) d)))"

definition GetNode :: "dag \<Rightarrow> hash \<Rightarrow> state_node option" where
  "GetNode d hash = dag_nodes d hash"

definition Tips :: "dag \<Rightarrow> hash list" where
  "Tips d = dag_tips d"

text \<open>
  The closure \<open>walk\<close> of \<open>PruneNonFinal\<close>: the first argument is what the loops on the call stack
  have left to visit, innermost first. Nothing bounds the recursion in the code; not returning
  would be \<open>None\<close>.
\<close>

partial_function (option) prune_walk ::
  "(hash \<Rightarrow> hash list) \<Rightarrow> hash list \<Rightarrow> hash list \<Rightarrow> hash list option"
where
  "prune_walk children todo seen =
     (case todo of
        [] \<Rightarrow> Some seen
      | child # rest \<Rightarrow>
          if child \<in> set seen then prune_walk children rest seen
          else prune_walk children (children child @ rest) (child # seen))"

text \<open>
  \<open>order\<close> stands for the order in which Go's \<open>range\<close> visits the keys of the map in the last
  loop, which the language leaves open; it is meant to enumerate \<open>dom (dag_nodes d)\<close>, and the
  keys that the loop before deleted are skipped.
\<close>

definition PruneNonFinal :: "hash list \<Rightarrow> hash \<Rightarrow> dag \<Rightarrow> dag option" where
  "PruneNonFinal order finalRoot d =
     (case prune_walk (dag_children d) (dag_children d finalRoot) [finalRoot] of
        None \<Rightarrow> None
      | Some seen \<Rightarrow>
          let nodes = (\<lambda>h. if h \<in> set seen then dag_nodes d h else None);
              children = (\<lambda>h. if dag_nodes d h \<noteq> None \<and> h \<notin> set seen then [] else dag_children d h)
          in Some \<lparr>dag_nodes = nodes, dag_children = children,
               dag_tips = filter (\<lambda>h. case nodes h of
                   None \<Rightarrow> False
                 | Some node \<Rightarrow> sn_Parents node \<noteq> [] \<and> children h = []) order\<rparr>)"

section \<open>Insertion\<close>

lemma set_add_children:
  "set (add_children h ps ch p) = set (ch p) \<union> (if p \<in> set ps then {h} else {})"
  by (induction ps arbitrary: ch) auto

lemma AddNode_ok:
  "AddNode (Some n) d = Inr d' \<longleftrightarrow> dag_nodes d (sn_RootHash n) = None \<and>
     d' = \<lparr>dag_nodes = (dag_nodes d)(sn_RootHash n \<mapsto> n),
           dag_children = add_children (sn_RootHash n) (sn_Parents n) (dag_children d),
           dag_tips = filter (\<lambda>t. t \<notin> set (sn_Parents n)) (dag_tips d) @ [sn_RootHash n]\<rparr>"
  by (cases d) (auto simp: AddNode_def updateTips_def Let_def)

text \<open>A graph grown from nothing, in any order of insertion.\<close>

inductive grown :: "dag \<Rightarrow> bool" where
  new: "grown NewDAG"
| add: "grown d \<Longrightarrow> AddNode node d = Inr d' \<Longrightarrow> grown d'"

text \<open>A graph grown parents first: no node is inserted after one that names it as a parent, and
  none names itself.\<close>

inductive grown_in_order :: "dag \<Rightarrow> bool" where
  new: "grown_in_order NewDAG"
| add: "grown_in_order d \<Longrightarrow> AddNode (Some n) d = Inr d' \<Longrightarrow> sn_RootHash n \<notin> set (sn_Parents n) \<Longrightarrow>
    \<forall>m\<in>ran (dag_nodes d). sn_RootHash n \<notin> set (sn_Parents m) \<Longrightarrow> grown_in_order d'"

lemma grown_in_order_grown: "grown_in_order d \<Longrightarrow> grown d"
  by (induction rule: grown_in_order.induct) (auto intro: grown.intros)

definition dag_inv :: "dag \<Rightarrow> bool" where
  "dag_inv d \<longleftrightarrow> finite (dom (dag_nodes d))
     \<and> (\<forall>h n. dag_nodes d h = Some n \<longrightarrow> sn_RootHash n = h)
     \<and> (\<forall>p h. h \<in> set (dag_children d p) \<longleftrightarrow> (\<exists>n. dag_nodes d h = Some n \<and> p \<in> set (sn_Parents n)))
     \<and> distinct (dag_tips d) \<and> set (dag_tips d) \<subseteq> dom (dag_nodes d)
     \<and> (\<forall>h. dag_nodes d h \<noteq> None \<longrightarrow> h \<in> set (dag_tips d) \<or> dag_children d h \<noteq> [])"

lemma dag_inv_new: "dag_inv NewDAG"
  by (simp add: dag_inv_def NewDAG_def)

lemma childless:
  assumes "dag_inv d"
  shows "dag_children d p = [] \<longleftrightarrow> (\<forall>n\<in>ran (dag_nodes d). p \<notin> set (sn_Parents n))"
proof -
  have "dag_children d p = [] \<longleftrightarrow> (\<forall>h. h \<notin> set (dag_children d p))"
    by (cases "dag_children d p") auto
  also have "\<dots> \<longleftrightarrow> (\<forall>h n. dag_nodes d h = Some n \<longrightarrow> p \<notin> set (sn_Parents n))"
    using assms by (auto simp: dag_inv_def)
  finally show ?thesis by (auto simp: ran_def)
qed

lemma add_children_nil:
  "add_children h ps ch p = [] \<longleftrightarrow> ch p = [] \<and> p \<notin> set ps"
  using set_add_children [of h ps ch p] by (auto simp flip: set_empty)

lemma AddNode_inv:
  assumes "dag_inv d" and "AddNode node d = Inr d'"
  shows "dag_inv d'"
proof -
  obtain n where n: "node = Some n" using assms(2) by (cases node) (auto simp: AddNode_def)
  note ok = assms(2) [unfolded n AddNode_ok]
  show ?thesis unfolding dag_inv_def
  proof (intro conjI)
    show "distinct (dag_tips d')" "set (dag_tips d') \<subseteq> dom (dag_nodes d')"
      using assms(1) ok by (auto simp: dag_inv_def)
    show "finite (dom (dag_nodes d'))"
      "\<forall>h n. dag_nodes d' h = Some n \<longrightarrow> sn_RootHash n = h"
      using assms(1) ok by (auto simp: dag_inv_def)
    show "\<forall>p h. h \<in> set (dag_children d' p)
        \<longleftrightarrow> (\<exists>n. dag_nodes d' h = Some n \<and> p \<in> set (sn_Parents n))"
      using assms(1) ok by (auto simp: dag_inv_def set_add_children split: if_splits)
    show "\<forall>h. dag_nodes d' h \<noteq> None \<longrightarrow> h \<in> set (dag_tips d') \<or> dag_children d' h \<noteq> []"
      using assms(1) ok by (auto simp: dag_inv_def add_children_nil)
  qed
qed

lemma grown_inv: "grown d \<Longrightarrow> dag_inv d"
  by (induction rule: grown.induct) (auto intro: dag_inv_new AddNode_inv)

lemma grown_in_order_tips:
  "grown_in_order d \<Longrightarrow> set (dag_tips d) = {h \<in> dom (dag_nodes d). dag_children d h = []}"
proof (induction rule: grown_in_order.induct)
  case (add d n d')
  have inv: "dag_inv d" using add.hyps(1) by (intro grown_inv grown_in_order_grown)
  note ok = add.hyps(2) [unfolded AddNode_ok]
  have new: "dag_children d (sn_RootHash n) = []"
    using add.hyps(4) by (simp add: childless [OF inv])
  have ch: "dag_children d' h = [] \<longleftrightarrow> dag_children d h = [] \<and> h \<notin> set (sn_Parents n)" for h
    using ok by (simp add: add_children_nil)
  have nodes: "dom (dag_nodes d') = insert (sn_RootHash n) (dom (dag_nodes d))"
    and tips: "set (dag_tips d') = insert (sn_RootHash n) (set (dag_tips d) - set (sn_Parents n))"
    using ok by auto
  show ?case unfolding nodes tips add.IH ch using new add.hyps(3) by auto
qed (simp add: NewDAG_def)

section \<open>The walk\<close>

definition edges :: "(hash \<Rightarrow> hash list) \<Rightarrow> (hash \<times> hash) set" where
  "edges children = {(p, c). c \<in> set (children p)}"

lemma prune_walk_step:
  "prune_walk ch [] seen = Some seen"
  "prune_walk ch (c # rest) seen =
     (if c \<in> set seen then prune_walk ch rest seen else prune_walk ch (ch c @ rest) (c # seen))"
  by (subst prune_walk.simps, simp)+

text \<open>Each step either shortens the stack or adds a hash of the finite set \<open>U\<close> to \<open>seen\<close>.\<close>

lemma prune_walk_returns:
  assumes "finite U" and "\<And>p. p \<in> U \<Longrightarrow> set (ch p) \<subseteq> U" and "set todo \<subseteq> U" and "set seen \<subseteq> U"
  shows "\<exists>r. prune_walk ch todo seen = Some r"
  using assms(3,4)
proof (induction "(todo, seen)" arbitrary: todo seen
    rule: wf_induct_rule [OF wf_measures [of "[\<lambda>(todo, seen). card (U - set seen), \<lambda>(todo, seen). length todo]"]])
  case (1 todo seen)
  show ?case
  proof (cases todo)
    case (Cons c rest)
    show ?thesis
    proof (cases "c \<in> set seen")
      case True
      then show ?thesis using 1 Cons by (simp add: prune_walk_step)
    next
      case False
      then have "card (U - set (c # seen)) < card (U - set seen)"
        using 1(2) Cons assms(1) by (intro psubset_card_mono) auto
      then have "\<exists>r. prune_walk ch (ch c @ rest) (c # seen) = Some r"
        using 1(2,3) Cons assms(2) [of c] by (intro 1(1)) auto
      then show ?thesis using False Cons by (simp add: prune_walk_step)
    qed
  qed (simp add: prune_walk_step)
qed

text \<open>The result is what is reachable, by the invariant that every edge out of \<open>seen\<close> ends in
  \<open>seen\<close> or on the stack.\<close>

lemma prune_walk_result:
  assumes "finite U" and "\<And>p. p \<in> U \<Longrightarrow> set (ch p) \<subseteq> U" and "set todo \<subseteq> U" and "set seen \<subseteq> U"
    and "prune_walk ch todo seen = Some r"
    and "\<And>p c. p \<in> set seen \<Longrightarrow> c \<in> set (ch p) \<Longrightarrow> c \<in> set seen \<union> set todo"
  shows "set seen \<union> set todo \<subseteq> set r \<and> (\<forall>p\<in>set r. set (ch p) \<subseteq> set r)
       \<and> set r \<subseteq> (edges ch)\<^sup>* `` (set seen \<union> set todo)"
  using assms(3-6)
proof (induction "(todo, seen)" arbitrary: todo seen
    rule: wf_induct_rule [OF wf_measures [of "[\<lambda>(todo, seen). card (U - set seen), \<lambda>(todo, seen). length todo]"]])
  case (1 todo seen)
  show ?case
  proof (cases todo)
    case Nil
    then show ?thesis using 1 by (auto simp: prune_walk_step)
  next
    case (Cons c rest)
    show ?thesis
    proof (cases "c \<in> set seen")
      case True
      then have "set seen \<union> set rest \<subseteq> set r \<and> (\<forall>p\<in>set r. set (ch p) \<subseteq> set r)
          \<and> set r \<subseteq> (edges ch)\<^sup>* `` (set seen \<union> set rest)"
        using 1(2-5) Cons by (intro 1(1)) (auto simp: prune_walk_step)
      then show ?thesis using True Cons by (simp add: insert_absorb)
    next
      case False
      then have "card (U - set (c # seen)) < card (U - set seen)"
        using 1(2) Cons assms(1) by (intro psubset_card_mono) auto
      then have ih: "set (c # seen) \<union> set (ch c @ rest) \<subseteq> set r \<and> (\<forall>p\<in>set r. set (ch p) \<subseteq> set r)
          \<and> set r \<subseteq> (edges ch)\<^sup>* `` (set (c # seen) \<union> set (ch c @ rest))"
        using 1(2-5) False Cons assms(2) [of c] by (intro 1(1)) (auto simp: prune_walk_step)
      have "(edges ch)\<^sup>* `` (set (c # seen) \<union> set (ch c @ rest)) \<subseteq> (edges ch)\<^sup>* `` (set seen \<union> set todo)"
        using Cons by (auto simp: edges_def intro: converse_rtrancl_into_rtrancl)
      then show ?thesis using ih Cons by auto
    qed
  qed
qed

text \<open>The graphs the program can have: grown by \<open>AddNode\<close> and pruned, in any order. After a prune
  a hash that is no node can still list deleted nodes as its children, so all that is kept is that
  finitely many hashes are children.\<close>

inductive reachable_dag :: "dag \<Rightarrow> bool" where
  new: "reachable_dag NewDAG"
| add: "reachable_dag d \<Longrightarrow> AddNode node d = Inr d' \<Longrightarrow> reachable_dag d'"
| prune: "reachable_dag d \<Longrightarrow> set order = dom (dag_nodes d) \<Longrightarrow> PruneNonFinal order finalRoot d = Some d'
    \<Longrightarrow> reachable_dag d'"

lemma grown_reachable: "grown d \<Longrightarrow> reachable_dag d"
  by (induction rule: grown.induct) (auto intro: reachable_dag.intros)

definition all_children :: "dag \<Rightarrow> hash set" where
  "all_children d = (\<Union>p. set (dag_children d p))"

lemma AddNode_children:
  assumes "AddNode node d = Inr d'"
  obtains h where "all_children d' \<subseteq> insert h (all_children d)"
proof -
  obtain n where n: "node = Some n" using assms by (cases node) (auto simp: AddNode_def)
  then have "dag_children d' = add_children (sn_RootHash n) (sn_Parents n) (dag_children d)"
    using assms [unfolded n AddNode_ok] by simp
  then have "all_children d' \<subseteq> insert (sn_RootHash n) (all_children d)"
    by (auto simp: all_children_def set_add_children split: if_splits)
  then show thesis by (rule that)
qed

lemma PruneNonFinal_children:
  assumes "PruneNonFinal order f d = Some d'"
  shows "all_children d' \<subseteq> all_children d"
  using assms by (auto simp: PruneNonFinal_def all_children_def Let_def split: option.splits if_splits)

lemma reachable_dag_finite: "reachable_dag d \<Longrightarrow> finite (all_children d)"
proof (induction rule: reachable_dag.induct)
  case new
  show ?case by (simp add: all_children_def NewDAG_def)
next
  case (add d node d')
  from add.hyps(2) obtain h where "all_children d' \<subseteq> insert h (all_children d)" by (rule AddNode_children)
  moreover have "finite (insert h (all_children d))" using add.IH by simp
  ultimately show ?case by (rule finite_subset)
next
  case (prune d order finalRoot d')
  show ?case by (rule finite_subset [OF PruneNonFinal_children [OF prune.hyps(3)] prune.IH])
qed

lemma prune_walk_reachable:
  assumes "reachable_dag d"
  obtains seen where
    "prune_walk (dag_children d) (dag_children d f) [f] = Some seen"
    and "set seen = (edges (dag_children d))\<^sup>* `` {f}"
proof -
  let ?ch = "dag_children d" and ?U = "insert f (all_children d)"
  have U: "finite ?U" "\<And>p. set (?ch p) \<subseteq> ?U"
    using reachable_dag_finite [OF assms] by (auto simp: all_children_def)
  then obtain r where r: "prune_walk ?ch (?ch f) [f] = Some r"
    using prune_walk_returns [of ?U ?ch "?ch f" "[f]"] by auto
  have res: "{f} \<union> set (?ch f) \<subseteq> set r" "\<forall>p\<in>set r. set (?ch p) \<subseteq> set r"
    "set r \<subseteq> (edges ?ch)\<^sup>* `` ({f} \<union> set (?ch f))"
    using prune_walk_result [OF U(1) U(2) _ _ r] U(2) by auto
  have "x \<in> set r" if "(f, x) \<in> (edges ?ch)\<^sup>*" for x
    using that res(1,2) by (induction rule: rtrancl_induct) (auto simp: edges_def)
  moreover have "(edges ?ch)\<^sup>* `` ({f} \<union> set (?ch f)) \<subseteq> (edges ?ch)\<^sup>* `` {f}"
    by (auto simp: edges_def intro: converse_rtrancl_into_rtrancl)
  ultimately show ?thesis using r res(3) that [of r] by blast
qed

section \<open>Properties\<close>

definition sample_node :: "u8 \<Rightarrow> u8 list \<Rightarrow> state_node" where
  "sample_node h ps = \<lparr>sn_RootHash = [h], sn_Parents = map (\<lambda>p. [p]) ps, sn_Height = 1\<rparr>"

lemma AddNode_sample:
  "AddNode (Some (sample_node h ps)) NewDAG = Inr \<lparr>dag_nodes = [[h] \<mapsto> sample_node h ps],
     dag_children = add_children [h] (map (\<lambda>p. [p]) ps) (\<lambda>_. []), dag_tips = [[h]]\<rparr>"
  by (simp add: AddNode_def NewDAG_def Let_def updateTips_def sample_node_def)

text \<open>Property. However a graph was grown by \<open>AddNode\<close>, its indices agree: nodes stand under
  their own root hash, the children recorded for a hash are exactly the nodes that name it as a
  parent, and the tips are distinct nodes of the graph.\<close>

theorem dag_indices_agree:
  assumes "grown d"
  shows "finite (dom (dag_nodes d)) \<and> (\<forall>h n. GetNode d h = Some n \<longrightarrow> sn_RootHash n = h)
       \<and> (\<forall>p h. h \<in> set (dag_children d p) \<longleftrightarrow> (\<exists>n. GetNode d h = Some n \<and> p \<in> set (sn_Parents n)))
       \<and> distinct (Tips d) \<and> set (Tips d) \<subseteq> dom (dag_nodes d)"
  using grown_inv [OF assms] by (simp add: dag_inv_def GetNode_def Tips_def)

lemma dag_indices_agree_witness:
  "\<exists>d. AddNode (Some (sample_node 1 [7])) NewDAG = Inr d \<and> distinct (Tips d) \<and> Tips d = [[1]]
     \<and> (\<exists>n. GetNode d [1] = Some n \<and> [7] \<in> set (sn_Parents n))"
proof -
  define d where "d = \<lparr>dag_nodes = [[1] \<mapsto> sample_node 1 [7]],
    dag_children = add_children [1] (map (\<lambda>p. [p]) [7]) (\<lambda>_. []), dag_tips = [[1]]\<rparr>"
  have d: "AddNode (Some (sample_node 1 [7])) NewDAG = Inr d"
    unfolding d_def by (rule AddNode_sample)
  have child: "[1] \<in> set (dag_children d [7])" and tips: "Tips d = [[1]]"
    by (simp_all add: d_def Tips_def)
  note agree = dag_indices_agree [OF grown.add [OF grown.new d]]
  have "\<exists>n. GetNode d [1] = Some n \<and> [7] \<in> set (sn_Parents n)"
    using agree [THEN conjunct2, THEN conjunct2, THEN conjunct1] child by (simp only:)
  then show ?thesis using d tips by simp
qed

text \<open>Property. When every node is inserted before the nodes that name it as a parent, the tips
  are exactly the nodes without children.\<close>

theorem tips_are_the_childless_nodes:
  assumes "grown_in_order d"
  shows "set (Tips d) = {h. (\<exists>n. GetNode d h = Some n)
       \<and> (\<forall>c m. GetNode d c = Some m \<longrightarrow> h \<notin> set (sn_Parents m))}"
proof -
  have "dag_children d h = [] \<longleftrightarrow> (\<forall>c m. dag_nodes d c = Some m \<longrightarrow> h \<notin> set (sn_Parents m))" for h
    by (auto simp: childless [OF grown_inv [OF grown_in_order_grown [OF assms]]] ran_def)
  then show ?thesis
    using grown_in_order_tips [OF assms] by (auto simp: Tips_def GetNode_def)
qed

lemma tips_are_the_childless_nodes_witness:
  "\<exists>d d'. AddNode (Some (sample_node 1 [])) NewDAG = Inr d \<and> AddNode (Some (sample_node 2 [1])) d = Inr d'
     \<and> set (Tips d') = {h. (\<exists>n. GetNode d' h = Some n)
       \<and> (\<forall>c m. GetNode d' c = Some m \<longrightarrow> h \<notin> set (sn_Parents m))} \<and> Tips d' = [[2]]"
proof -
  obtain d where d: "AddNode (Some (sample_node 1 [])) NewDAG = Inr d"
    by (simp add: AddNode_def NewDAG_def Let_def)
  then have nodes: "dag_nodes d = [[1] \<mapsto> sample_node 1 []]" and tips: "dag_tips d = [[1]]"
    by (auto simp: AddNode_ok NewDAG_def sample_node_def)
  obtain d' where d': "AddNode (Some (sample_node 2 [1])) d = Inr d'"
    using nodes by (simp add: AddNode_def Let_def sample_node_def)
  have "grown_in_order d"
    by (rule grown_in_order.add [OF grown_in_order.new d]) (simp_all add: sample_node_def NewDAG_def)
  then have "grown_in_order d'"
    by (rule grown_in_order.add [OF _ d']) (simp_all add: nodes sample_node_def)
  moreover have "Tips d' = [[2]]" using d' tips by (simp add: AddNode_ok Tips_def sample_node_def)
  ultimately show ?thesis using tips_are_the_childless_nodes d d' by blast
qed

text \<open>Property C40. On every graph that insertions and earlier prunes have made, in any order,
  \<open>PruneNonFinal\<close> returns, whichever hash it is given as the finalized root. It keeps exactly the
  nodes reachable from that hash along the recorded children, unchanged; the new tips are the kept
  nodes with a parent and without a child, in whatever order Go's map iteration visits them.\<close>

theorem prune_keeps_the_reachable:
  assumes "reachable_dag d" and "set order = dom (dag_nodes d)"
  shows "\<exists>d'. PruneNonFinal order finalRoot d = Some d'
       \<and> dag_nodes d' = dag_nodes d |` ((edges (dag_children d))\<^sup>* `` {finalRoot})
       \<and> set (Tips d') = {h. \<exists>n. GetNode d' h = Some n \<and> sn_Parents n \<noteq> [] \<and> dag_children d h = []}"
proof -
  obtain seen where seen: "prune_walk (dag_children d) (dag_children d finalRoot) [finalRoot] = Some seen"
    "set seen = (edges (dag_children d))\<^sup>* `` {finalRoot}"
    using prune_walk_reachable [OF assms(1)] .
  define nodes where "nodes = dag_nodes d |` set seen"
  have nodes: "(\<lambda>h. if h \<in> set seen then dag_nodes d h else None) = nodes"
    by (auto simp: nodes_def restrict_map_def)
  obtain d' where d': "PruneNonFinal order finalRoot d = Some d'" "dag_nodes d' = nodes"
    "set (dag_tips d') = {h \<in> set order. case nodes h of None \<Rightarrow> False
        | Some node \<Rightarrow> sn_Parents node \<noteq> []
            \<and> (if dag_nodes d h \<noteq> None \<and> h \<notin> set seen then [] else dag_children d h) = []}"
    by (simp add: PruneNonFinal_def seen(1) Let_def nodes)
  have "set (dag_tips d') = {h. \<exists>n. nodes h = Some n \<and> sn_Parents n \<noteq> [] \<and> dag_children d h = []}"
    unfolding d'(3) assms(2)
    by (auto simp: nodes_def restrict_map_def split: option.splits if_splits)
  then show ?thesis using d' seen(2) by (simp add: nodes_def Tips_def GetNode_def)
qed

text \<open>A graph with one node, pruned at a hash that is no node and then pruned again.\<close>

lemma prune_keeps_the_reachable_witness:
  "\<exists>d d' d''. AddNode (Some (sample_node 1 [7])) NewDAG = Inr d \<and> PruneNonFinal [[1]] [9] d = Some d'
     \<and> GetNode d' [1] = None \<and> PruneNonFinal [] [7] d' = Some d'' \<and> Tips d'' = []"
proof -
  obtain d where d: "AddNode (Some (sample_node 1 [7])) NewDAG = Inr d"
    by (simp add: AddNode_def NewDAG_def Let_def)
  then have nodes: "dag_nodes d = [[1] \<mapsto> sample_node 1 [7]]" and ch: "dag_children d [9] = []"
    by (auto simp: AddNode_ok NewDAG_def sample_node_def)
  have "(edges (dag_children d))\<^sup>* `` {[9]} = {[9]}"
    using ch by (auto simp: edges_def elim: converse_rtranclE)
  moreover have r: "reachable_dag d" by (rule reachable_dag.add [OF reachable_dag.new d])
  ultimately obtain d' where d': "PruneNonFinal [[1]] [9] d = Some d'" "dag_nodes d' = Map.empty"
    using prune_keeps_the_reachable [OF r, of "[[1]]" "[9]"] nodes by auto
  have r': "reachable_dag d'" by (rule reachable_dag.prune [OF r _ d'(1)]) (simp add: nodes)
  obtain d'' where d'': "PruneNonFinal [] [7] d' = Some d''" "dag_nodes d'' = Map.empty"
      "set (Tips d'') = {h. \<exists>n. GetNode d'' h = Some n \<and> sn_Parents n \<noteq> [] \<and> dag_children d' h = []}"
    using prune_keeps_the_reachable [OF r', of "[]" "[7]"] d'(2) by auto
  then have "Tips d'' = []" by (simp add: GetNode_def)
  then show ?thesis using d d' d''(1) by (auto simp: GetNode_def)
qed

text \<open>Property. Grown the way \<open>ApplyBlock\<close> grows it, with block hashes as parents and state
  roots as keys, the graph has no edges: as long as no parent is a key, every node stays a tip
  for ever and pruning at a node deletes all the others.\<close>

theorem unlinked_graph_never_advances:
  assumes "grown d" and "\<forall>n\<in>ran (dag_nodes d). set (sn_Parents n) \<inter> dom (dag_nodes d) = {}"
    and "GetNode d finalRoot = Some n" and "sn_Parents n \<noteq> []" and "set order = dom (dag_nodes d)"
  shows "set (Tips d) = dom (dag_nodes d)
       \<and> (\<exists>d'. PruneNonFinal order finalRoot d = Some d'
            \<and> dag_nodes d' = [finalRoot \<mapsto> n] \<and> set (Tips d') = {finalRoot})"
proof -
  have inv: "dag_inv d" using assms(1) by (rule grown_inv)
  have leaf: "dag_children d h = []" if "h \<in> dom (dag_nodes d)" for h
    using that assms(2) by (auto simp: childless [OF inv])
  then have "set (Tips d) = dom (dag_nodes d)"
    using inv unfolding dag_inv_def Tips_def by blast
  moreover have fin: "finalRoot \<in> dom (dag_nodes d)" using assms(3) by (auto simp: GetNode_def)
  have nodes: "(\<lambda>h. if h = finalRoot then dag_nodes d h else None) = [finalRoot \<mapsto> n]"
    using assms(3) by (auto simp: GetNode_def)
  have "PruneNonFinal order finalRoot d = Some
      \<lparr>dag_nodes = [finalRoot \<mapsto> n],
       dag_children = (\<lambda>h. if dag_nodes d h \<noteq> None \<and> h \<noteq> finalRoot then [] else dag_children d h),
       dag_tips = filter (\<lambda>h. h = finalRoot) order\<rparr>"
    using leaf [OF fin] assms(4)
    by (auto simp: PruneNonFinal_def prune_walk_step Let_def nodes intro!: filter_cong)
  then have "\<exists>d'. PruneNonFinal order finalRoot d = Some d'
      \<and> dag_nodes d' = [finalRoot \<mapsto> n] \<and> set (Tips d') = {finalRoot}"
    using assms(5) fin by (auto simp: Tips_def)
  ultimately show ?thesis by blast
qed

lemma unlinked_graph_never_advances_witness:
  "\<exists>d d'. AddNode (Some (sample_node 1 [7])) NewDAG = Inr d \<and> PruneNonFinal [[1]] [1] d = Some d'
     \<and> set (Tips d) = {[1]} \<and> set (Tips d') = {[1]}"
proof -
  define d where "d = \<lparr>dag_nodes = [[1] \<mapsto> sample_node 1 [7]],
    dag_children = add_children [1] (map (\<lambda>p. [p]) [7]) (\<lambda>_. []), dag_tips = [[1]]\<rparr>"
  have d: "AddNode (Some (sample_node 1 [7])) NewDAG = Inr d"
    unfolding d_def by (rule AddNode_sample)
  have "set (Tips d) = dom (dag_nodes d)
      \<and> (\<exists>d'. PruneNonFinal [[1]] [1] d = Some d' \<and> dag_nodes d' = [[1] \<mapsto> sample_node 1 [7]]
        \<and> set (Tips d') = {[1]})"
    by (rule unlinked_graph_never_advances [OF grown.add [OF grown.new d]])
      (simp_all add: d_def sample_node_def GetNode_def)
  then show ?thesis using d by (auto simp: d_def)
qed

end
