(* ===== verification/Coster.thy ===== *)
theory Coster
  imports Tx Contracts RC
begin

text \<open>The cost of a transaction before it is executed, \<open>pkg/tx/coster.go\<close>: its size, the
  instruction estimate and the state writes of its payload, weighted by the RC parameters.\<close>

record ('r, 'c, 'm) coster =
  co_Params :: params
  co_Contracts :: "('r, 'c, 'm) contract_engine option"

text \<open>The type switch: instructions and writes of each payload. Without an engine a deployment
  counts no instructions and a call one write.\<close>

fun cost_shape :: "('r, 'c, 'm) contract_engine option \<Rightarrow> payload \<Rightarrow> u64 \<times> u64" where
  "cost_shape eng (Transfer p) = (0, 2)"
| "cost_shape eng (StakeDelegate p) = (0, 1)"
| "cost_shape eng (StakeUndelegate p) = (0, 1)"
| "cost_shape eng (ContractDeploy p) =
     (case eng of Some ce \<Rightarrow> (estimateInstructions (cd_WASMCode p), 1) | None \<Rightarrow> (0, 1))"
| "cost_shape eng (ContractCall p) =
     (case eng of
        Some ce \<Rightarrow> (EstimateContractCall ce (cc_Address p), EstimateStateWrites ce (cc_Address p))
      | None \<Rightarrow> (0, 1))"
| "cost_shape eng (GovernanceProposal p) = (0, 1)"
| "cost_shape eng (GovernanceVote p) = (0, 1)"

definition Coster_Cost ::
  "protowire \<Rightarrow> ('r, 'c, 'm) coster \<Rightarrow> transaction option \<Rightarrow> error + u64"
where
  "Coster_Cost pw c txn =
     (case txn of
        None \<Rightarrow> Inl ''tx is nil''
      | Some tx \<Rightarrow>
          bind_err (DecodePayload pw (tx_Payload tx)) (\<lambda>env.
          bind_err (MarshalTransaction pw (Some tx)) (\<lambda>sizeBytes.
          case env_Payload env of
            None \<Rightarrow> Inl ''unsupported payload type''
          | Some p \<Rightarrow>
              let (instructions, writes) = cost_shape (co_Contracts c) p
              in Inr (Cost (co_Params c) (word_of_nat (length sizeBytes)) instructions writes))))"

text \<open>A Go slice is shorter than \<open>2 ^ 63\<close>, so \<open>uint64(len(b))\<close> is its length, and an encoded
  transaction is never empty: it costs something.\<close>

lemma word_of_length_pos:
  assumes "b \<noteq> []" and "length b < 2 ^ 63"
  shows "(word_of_nat (length b) :: u64) \<noteq> 0"
proof
  assume "(word_of_nat (length b) :: u64) = 0"
  then have "unat (word_of_nat (length b) :: u64) = 0" by simp
  then have "length b mod 2 ^ 64 = 0" by (simp only: unat_of_nat) simp
  then show False using assms by simp
qed

lemma Coster_Cost_positive:
  assumes "protowire_laws pw" and "CSize (co_Params c) \<noteq> 0"
    and "MarshalTransaction pw (Some tx) = Inr b" and "length b < 2 ^ 63"
    and "Coster_Cost pw c (Some tx) = Inr cost"
  shows "0 < cost"
proof -
  have "b \<noteq> []" using protowire_laws.MarshalTransaction_nonempty assms(1,3) by blast
  then have "(word_of_nat (length b) :: u64) \<noteq> 0" using assms(4) by (rule word_of_length_pos)
  then have pos: "0 < Cost (co_Params c) (word_of_nat (length b)) i w" for i w
    using Cost_positive assms(2) by blast
  obtain env p where "env_Payload env = Some p" "DecodePayload pw (tx_Payload tx) = Inr env"
    using assms(3,5) by (auto simp: Coster_Cost_def split: option.splits)
  then show ?thesis using assms(3,5) pos
    by (cases "cost_shape (co_Contracts c) p") (auto simp: Coster_Cost_def Let_def)
qed

end
