(* ===== verification/State.thy ===== *)
theory State
  imports Tx RC Contracts Merkle Dag Coster
begin

text \<open>
  The state transition, \<open>pkg/state/state.go\<close>: one transaction over a view of the accounts
  (\<open>applyTransactionWithKV\<close>), the preview of a block, and its application with the timestamp
  window, the state root, the block record, the commit and the node of the graph.

  The closures \<open>get\<close> and \<open>set\<close> of the code are arguments over a view \<open>'s\<close>; the lemmas about a
  transaction are proved once over the interface \<open>account_view\<close> and used for the batches of
  the store. An account read twice is decoded twice, so the code never aliases two accounts.
  The engine is shared and mutable: it is returned with what the call did to it, also on error.
\<close>

section \<open>Definitions\<close>

record ('kv, 'r, 'c, 'm) libs =
  lib_pw :: protowire
  lib_cl :: crypto_lib
  lib_pb :: "'kv pebble"
  lib_wz :: "('r, 'c, 'm) wazero"

record 'kv state =
  st_store :: 'kv
  st_dag :: dag
  st_rcParams :: params

definition NewState :: "'kv \<Rightarrow> dag \<Rightarrow> params \<Rightarrow> 'kv state" where
  "NewState store d rcParams = \<lparr>st_store = store, st_dag = d, st_rcParams = rcParams\<rparr>"

definition or_zero :: "address \<Rightarrow> account option \<Rightarrow> account" where
  "or_zero addr acct = (case acct of None \<Rightarrow> zero_account addr | Some a \<Rightarrow> a)"

text \<open>The closure \<open>get\<close> of \<open>PreviewBlock\<close> and \<open>ApplyBlock\<close>, and \<open>State.GetAccount\<close>: a missing
  account is a zero-valued one.\<close>

definition get_or_zero ::
  "('s \<Rightarrow> address \<Rightarrow> error + account option) \<Rightarrow> 's \<Rightarrow> address \<Rightarrow> error + account option"
where
  "get_or_zero getA s addr = bind_err (getA s addr) (\<lambda>acct. Inr (Some (or_zero addr acct)))"

definition State_GetAccount ::
  "('kv, 'r, 'c, 'm) libs \<Rightarrow> 'kv state \<Rightarrow> address \<Rightarrow> error + account option"
where
  "State_GetAccount L st addr =
     get_or_zero (getAccountFromReader (lib_pw L) (lib_pb L)) (st_store st) addr"

text \<open>The first half of \<open>applyTransactionWithKV\<close>, up to the type switch: checks, authentication,
  regeneration and nonce. It reads the view and changes nothing.\<close>

definition prepare_sender ::
  "protowire \<Rightarrow> crypto_lib \<Rightarrow> params \<Rightarrow> ('s \<Rightarrow> address \<Rightarrow> error + account option) \<Rightarrow> 's
   \<Rightarrow> transaction option \<Rightarrow> i64 \<Rightarrow> error + (account \<times> payload_envelope \<times> bytes)"
where
  "prepare_sender pw cl rcp getA s txn effectiveTime =
     (case txn of
        None \<Rightarrow> Inl ''transaction is nil''
      | Some tx \<Rightarrow>
          guard_err (tx_From tx = [] \<or> tx_To tx = []) ''invalid sender or recipient''
         (bind_err (getA s (tx_From tx)) (\<lambda>acct.
          let sender = or_zero (tx_From tx) acct in
          bind_err (wrap_err ''decode payload: '' (DecodePayload pw (tx_Payload tx))) (\<lambda>payloadEnv.
          bind_err (ResolveSenderPubKey cl (Some tx) (acct_PubKey sender) (env_SenderPubKey payloadEnv))
            (\<lambda>(pubKey, register).
          bind_err (VerifySignature pw cl (Some tx) pubKey) (\<lambda>_.
          let sender = (if register then sender\<lparr>acct_PubKey := pubKey\<rparr> else sender);
              (rc, time) = Regen rcp (acct_RC sender) (acct_Stake sender)
                (acct_LastRCEffectiveTime sender) effectiveTime;
              sender = sender\<lparr>acct_RC := rc, acct_LastRCEffectiveTime := time\<rparr>;
              sender = sender\<lparr>acct_RCMax := RCMax rcp (acct_Stake sender)\<rparr>
          in guard_err (acct_Nonce sender \<noteq> tx_Nonce tx) ''invalid nonce''
            (bind_err (MarshalTransaction pw (Some tx)) (\<lambda>sizeBytes.
             Inr (sender, payloadEnv, sizeBytes)))))))))"

text \<open>The type switch, per payload: the view after its writes, the engine, and the sender with
  the instructions and state writes to charge.\<close>

definition exec_transfer ::
  "('s \<Rightarrow> address \<Rightarrow> error + account option) \<Rightarrow> ('s \<Rightarrow> account option \<Rightarrow> error + 's)
   \<Rightarrow> transfer \<Rightarrow> account \<Rightarrow> 's \<Rightarrow> 's \<times> (account \<times> u64 \<times> u64) go"
where
  "exec_transfer getA setA p sender s =
     (if acct_Balance sender < tr_Amount p then (s, Ret (Inl ''insufficient balance''))
      else
        let sender = sender\<lparr>acct_Balance := acct_Balance sender - tr_Amount p\<rparr>
        in case getA s (tr_To p) of
             Inl e \<Rightarrow> (s, Ret (Inl e))
           | Inr acct \<Rightarrow>
               let receiver = or_zero (tr_To p) acct;
                   receiver = receiver\<lparr>acct_Balance := acct_Balance receiver + tr_Amount p\<rparr>
               in case setA s (Some receiver) of
                    Inl e \<Rightarrow> (s, Ret (Inl e))
                  | Inr s \<Rightarrow> (s, Ret (Inr (sender, 0, 2))))"

definition exec_delegate :: "stake_delegate \<Rightarrow> account \<Rightarrow> (account \<times> u64 \<times> u64) go" where
  "exec_delegate p sender =
     (if acct_Balance sender < sd_Amount p then Ret (Inl ''insufficient balance'')
      else Ret (Inr (sender\<lparr>acct_Balance := acct_Balance sender - sd_Amount p,
                           acct_Stake := acct_Stake sender + sd_Amount p\<rparr>, 0, 1)))"

definition exec_undelegate :: "stake_undelegate \<Rightarrow> account \<Rightarrow> (account \<times> u64 \<times> u64) go" where
  "exec_undelegate p sender =
     (if acct_Stake sender < su_Amount p then Ret (Inl ''insufficient stake'')
      else Ret (Inr (sender\<lparr>acct_Stake := acct_Stake sender - su_Amount p,
                           acct_Balance := acct_Balance sender + su_Amount p\<rparr>, 0, 1)))"

definition exec_deploy ::
  "('r, 'c, 'm) wazero \<Rightarrow> ('s \<Rightarrow> address \<Rightarrow> error + account option)
   \<Rightarrow> ('s \<Rightarrow> account option \<Rightarrow> error + 's) \<Rightarrow> bool \<Rightarrow> transaction \<Rightarrow> contract_deploy \<Rightarrow> account \<Rightarrow> 's
   \<Rightarrow> ('r, 'c, 'm) contract_engine option
   \<Rightarrow> 's \<times> ('r, 'c, 'm) contract_engine option \<times> (account \<times> u64 \<times> u64) go"
where
  "exec_deploy wz getA setA preview tx p sender s engine =
     (case engine of
        None \<Rightarrow> (s, engine, Ret (Inl ''contract engine not configured''))
      | Some ce \<Rightarrow>
          let addr = tx_To tx in
          if addr = [] then (s, engine, Ret (Inl ''contract deploy missing target address''))
          else
            let (engine, checked) =
                  (if \<not> preview
                   then (let (ce, out) = DeployContract wz ce addr (cd_WASMCode p) addr in (Some ce, out))
                   else (Some ce, Ret (ValidateWasmCode (cd_WASMCode p))))
            in case checked of
                 Panic e \<Rightarrow> (s, engine, Panic e)
               | Ret (Inl e) \<Rightarrow> (s, engine, Ret (Inl e))
               | Ret (Inr _) \<Rightarrow>
                   (case getA s addr of
                      Inl e \<Rightarrow> (s, engine, Ret (Inl e))
                    | Inr acct \<Rightarrow>
                        let contractAcct = (or_zero addr acct)\<lparr>acct_Code := cd_WASMCode p\<rparr>
                        in case setA s (Some contractAcct) of
                             Inl e \<Rightarrow> (s, engine, Ret (Inl e))
                           | Inr s \<Rightarrow> (s, engine, Ret (Inr (sender, 0, 1)))))"

definition exec_call ::
  "('r, 'c, 'm) wazero \<Rightarrow> bool \<Rightarrow> contract_call \<Rightarrow> account
   \<Rightarrow> ('r, 'c, 'm) contract_engine option
   \<Rightarrow> ('r, 'c, 'm) contract_engine option \<times> (account \<times> u64 \<times> u64) go"
where
  "exec_call wz preview p sender engine =
     (case engine of
        None \<Rightarrow> (engine, Ret (Inl ''contract engine not configured''))
      | Some ce \<Rightarrow>
          if preview
          then (engine, Ret (Inr (sender, EstimateContractCall ce (cc_Address p),
                  EstimateStateWrites ce (cc_Address p))))
          else
            (case ExecuteContractWithResult wz ce (cc_Address p) of
               (ce, Panic e) \<Rightarrow> (Some ce, Panic e)
             | (ce, Ret (Inl e)) \<Rightarrow> (Some ce, Ret (Inl e))
             | (ce, Ret (Inr result)) \<Rightarrow>
                 (Some ce, Ret (Inr (sender, res_Instructions result, res_StateWrites result)))))"

fun execute_payload ::
  "('r, 'c, 'm) wazero \<Rightarrow> ('s \<Rightarrow> address \<Rightarrow> error + account option)
   \<Rightarrow> ('s \<Rightarrow> account option \<Rightarrow> error + 's) \<Rightarrow> bool \<Rightarrow> transaction \<Rightarrow> payload option \<Rightarrow> account \<Rightarrow> 's
   \<Rightarrow> ('r, 'c, 'm) contract_engine option
   \<Rightarrow> 's \<times> ('r, 'c, 'm) contract_engine option \<times> (account \<times> u64 \<times> u64) go"
where
  "execute_payload wz getA setA preview tx (Some (Transfer p)) sender s engine =
     (let (s, out) = exec_transfer getA setA p sender s in (s, engine, out))"
| "execute_payload wz getA setA preview tx (Some (StakeDelegate p)) sender s engine =
     (s, engine, exec_delegate p sender)"
| "execute_payload wz getA setA preview tx (Some (StakeUndelegate p)) sender s engine =
     (s, engine, exec_undelegate p sender)"
| "execute_payload wz getA setA preview tx (Some (ContractDeploy p)) sender s engine =
     exec_deploy wz getA setA preview tx p sender s engine"
| "execute_payload wz getA setA preview tx (Some (ContractCall p)) sender s engine =
     (let (engine, out) = exec_call wz preview p sender engine in (s, engine, out))"
| "execute_payload wz getA setA preview tx (Some (GovernanceProposal p)) sender s engine =
     (s, engine, Ret (Inr (sender, 0, 1)))"
| "execute_payload wz getA setA preview tx (Some (GovernanceVote p)) sender s engine =
     (s, engine, Ret (Inr (sender, 0, 1)))"
| "execute_payload wz getA setA preview tx None sender s engine =
     (s, engine, Ret (Inl ''unsupported payload type''))"

text \<open>What follows the switch: charge the cost, advance the nonce, write the sender.\<close>

definition charge_sender :: "params \<Rightarrow> bytes \<Rightarrow> u64 \<Rightarrow> u64 \<Rightarrow> account \<Rightarrow> error + account" where
  "charge_sender rcp sizeBytes instructions stateWrites sender =
     (let cost = Cost rcp (word_of_nat (length sizeBytes)) instructions stateWrites
      in guard_err (acct_RC sender < cost) ''insufficient rc''
        (let sender = sender\<lparr>acct_RC := acct_RC sender - cost\<rparr>;
             sender = sender\<lparr>acct_Nonce := acct_Nonce sender + 1\<rparr>
         in Inr (sender\<lparr>acct_RCMax := RCMax rcp (acct_Stake sender)\<rparr>)))"

definition applyTransactionWithKV ::
  "('kv, 'r, 'c, 'm) libs \<Rightarrow> params \<Rightarrow> ('s \<Rightarrow> address \<Rightarrow> error + account option)
   \<Rightarrow> ('s \<Rightarrow> account option \<Rightarrow> error + 's) \<Rightarrow> bool \<Rightarrow> i64 \<Rightarrow> transaction option \<Rightarrow> 's
   \<Rightarrow> ('r, 'c, 'm) contract_engine option
   \<Rightarrow> 's \<times> ('r, 'c, 'm) contract_engine option \<times> unit go"
where
  "applyTransactionWithKV L rcp getA setA preview effectiveTime txn s engine =
     (case txn of
        None \<Rightarrow> (s, engine, Ret (Inl ''transaction is nil''))
      | Some tx \<Rightarrow>
          (case prepare_sender (lib_pw L) (lib_cl L) rcp getA s (Some tx) effectiveTime of
             Inl e \<Rightarrow> (s, engine, Ret (Inl e))
           | Inr (sender, payloadEnv, sizeBytes) \<Rightarrow>
               (case execute_payload (lib_wz L) getA setA preview tx (env_Payload payloadEnv) sender s engine of
                  (s, engine, Panic e) \<Rightarrow> (s, engine, Panic e)
                | (s, engine, Ret (Inl e)) \<Rightarrow> (s, engine, Ret (Inl e))
                | (s, engine, Ret (Inr (sender, instructions, stateWrites))) \<Rightarrow>
                    (case bind_err (charge_sender rcp sizeBytes instructions stateWrites sender)
                            (\<lambda>sender. setA s (Some sender)) of
                       Inl e \<Rightarrow> (s, engine, Ret (Inl e))
                     | Inr s \<Rightarrow> (s, engine, Ret (Inr ()))))))"

text \<open>The loop over \<open>block.Transactions\<close>: it stops at the first error.\<close>

fun apply_transactions ::
  "('kv, 'r, 'c, 'm) libs \<Rightarrow> params \<Rightarrow> ('s \<Rightarrow> address \<Rightarrow> error + account option)
   \<Rightarrow> ('s \<Rightarrow> account option \<Rightarrow> error + 's) \<Rightarrow> bool \<Rightarrow> i64 \<Rightarrow> transaction option list \<Rightarrow> 's
   \<Rightarrow> ('r, 'c, 'm) contract_engine option
   \<Rightarrow> 's \<times> ('r, 'c, 'm) contract_engine option \<times> unit go"
where
  "apply_transactions L rcp getA setA preview time [] s engine = (s, engine, Ret (Inr ()))"
| "apply_transactions L rcp getA setA preview time (txn # rest) s engine =
     (case applyTransactionWithKV L rcp getA setA preview time txn s engine of
        (s, engine, Ret (Inr _)) \<Rightarrow> apply_transactions L rcp getA setA preview time rest s engine
      | (s, engine, Ret (Inl e)) \<Rightarrow> (s, engine, Ret (Inl e))
      | (s, engine, Panic e) \<Rightarrow> (s, engine, Panic e))"

text \<open>The two closures over an indexed batch.\<close>

definition batch_get :: "('kv, 'r, 'c, 'm) libs \<Rightarrow> 'kv \<Rightarrow> address \<Rightarrow> error + account option" where
  "batch_get L = get_or_zero (getAccountFromReader (lib_pw L) (lib_pb L))"

definition batch_set :: "('kv, 'r, 'c, 'm) libs \<Rightarrow> 'kv \<Rightarrow> account option \<Rightarrow> error + 'kv" where
  "batch_set L = setAccountWithWriter (lib_pw L) (lib_pb L)"

definition PreviewBlock ::
  "('kv, 'r, 'c, 'm) libs \<Rightarrow> 'kv state \<Rightarrow> block option \<Rightarrow> ('r, 'c, 'm) contract_engine option
   \<Rightarrow> ('r, 'c, 'm) contract_engine option \<times> hash go"
where
  "PreviewBlock L st blk engine =
     (case blk of
        None \<Rightarrow> (engine, Ret (Inl ''block is nil''))
      | Some b \<Rightarrow>
          (case GetLastTimestamps (lib_pb L) (st_store st) of
             Inl e \<Rightarrow> (engine, Ret (Inl e))
           | Inr lastTimestamps \<Rightarrow>
               let effectiveTime = EffectiveTime (bl_Timestamp b) lastTimestamps (MaxSkewSec (st_rcParams st));
                   batch = DbNewBatch (lib_pb L) (st_store st)
               in case apply_transactions L (st_rcParams st) (batch_get L) (batch_set L) True
                         effectiveTime (bl_Transactions b) batch engine of
                    (batch, engine, Panic e) \<Rightarrow> (engine, Panic e)
                  | (batch, engine, Ret (Inl e)) \<Rightarrow> (engine, Ret (Inl e))
                  | (batch, engine, Ret (Inr _)) \<Rightarrow>
                      (engine, Ret (ComputeStateRootFromReader (lib_pw L) (Sum256 (lib_cl L)) (lib_pb L) batch))))"

text \<open>\<open>lastTimestamps[len(lastTimestamps)-s.rcParams.WindowN:]\<close>; with a negative \<open>WindowN\<close> the
  lower bound is past the end and the expression panics.\<close>

definition push_timestamp :: "int \<Rightarrow> i64 list \<Rightarrow> i64 \<Rightarrow> i64 list go" where
  "push_timestamp windowN lastTimestamps t =
     (let ts = lastTimestamps @ [t]
      in if windowN < int (length ts)
         then (if windowN < 0 then Panic ''slice bounds out of range''
               else Ret (Inr (drop (length ts - nat windowN) ts)))
         else Ret (Inr ts))"

text \<open>From the timestamp window to the commit: the writes of the batch after the transactions.\<close>

definition commit_block ::
  "('kv, 'r, 'c, 'm) libs \<Rightarrow> i64 list \<Rightarrow> block \<Rightarrow> 'kv \<Rightarrow> error + ('kv \<times> hash)"
where
  "commit_block L lastTimestamps b batch =
     bind_err (setLastTimestampsWithWriter (lib_pb L) batch lastTimestamps) (\<lambda>batch.
     bind_err (ComputeStateRootFromReader (lib_pw L) (Sum256 (lib_cl L)) (lib_pb L) batch) (\<lambda>root.
     guard_err (root \<noteq> bl_StateRoot b) ''state root mismatch after apply''
    (bind_err (HashBlock (lib_pw L) (Sum256 (lib_cl L)) (Some b)) (\<lambda>hash.
     bind_err (setBlockWithWriter (lib_pw L) (lib_pb L) batch (Some b) hash) (\<lambda>batch.
     bind_err (DbCommit (lib_pb L) batch) (\<lambda>db. Inr (db, root)))))))"

definition ApplyBlock ::
  "('kv, 'r, 'c, 'm) libs \<Rightarrow> 'kv state \<Rightarrow> block option \<Rightarrow> ('r, 'c, 'm) contract_engine option
   \<Rightarrow> 'kv state \<times> ('r, 'c, 'm) contract_engine option \<times> hash go"
where
  "ApplyBlock L st blk engine =
     (case blk of
        None \<Rightarrow> (st, engine, Ret (Inl ''block is nil''))
      | Some b \<Rightarrow>
          (case PreviewBlock L st (Some b) engine of
             (engine, Panic e) \<Rightarrow> (st, engine, Panic e)
           | (engine, Ret (Inl e)) \<Rightarrow> (st, engine, Ret (Inl e))
           | (engine, Ret (Inr previewRoot)) \<Rightarrow>
               if bl_StateRoot b \<noteq> previewRoot then (st, engine, Ret (Inl ''state root mismatch''))
               else
                 (case GetLastTimestamps (lib_pb L) (st_store st) of
                    Inl e \<Rightarrow> (st, engine, Ret (Inl e))
                  | Inr lastTimestamps \<Rightarrow>
                      let effectiveTime = EffectiveTime (bl_Timestamp b) lastTimestamps
                            (MaxSkewSec (st_rcParams st));
                          batch = DbNewBatch (lib_pb L) (st_store st)
                      in case apply_transactions L (st_rcParams st) (batch_get L) (batch_set L) False
                                effectiveTime (bl_Transactions b) batch engine of
                           (batch, engine, Panic e) \<Rightarrow> (st, engine, Panic e)
                         | (batch, engine, Ret (Inl e)) \<Rightarrow> (st, engine, Ret (Inl e))
                         | (batch, engine, Ret (Inr _)) \<Rightarrow>
                             (case push_timestamp (WindowN (st_rcParams st)) lastTimestamps (bl_Timestamp b) of
                                Panic e \<Rightarrow> (st, engine, Panic e)
                              | Ret (Inl e) \<Rightarrow> (st, engine, Ret (Inl e))
                              | Ret (Inr ts) \<Rightarrow>
                                  (case commit_block L ts b batch of
                                     Inl e \<Rightarrow> (st, engine, Ret (Inl e))
                                   | Inr (db, root) \<Rightarrow>
                                       let node = \<lparr>sn_RootHash = root, sn_Parents = [bl_PrevHash b],
                                             sn_Height = bl_Height b\<rparr>;
                                           d = (case AddNode (Some node) (st_dag st) of
                                                  Inl _ \<Rightarrow> st_dag st | Inr d \<Rightarrow> d)
                                       in (st\<lparr>st_store := db, st_dag := d\<rparr>, engine, Ret (Inr root)))))))"

text \<open>\<open>applyTransaction\<close>, on the database itself: nothing undoes a write when a later step fails.\<close>

definition applyTransaction ::
  "('kv, 'r, 'c, 'm) libs \<Rightarrow> 'kv state \<Rightarrow> transaction option \<Rightarrow> ('r, 'c, 'm) contract_engine option \<Rightarrow> i64
   \<Rightarrow> 'kv state \<times> ('r, 'c, 'm) contract_engine option \<times> unit go"
where
  "applyTransaction L st txn engine effectiveTime =
     (let (db, engine, out) = applyTransactionWithKV L (st_rcParams st) (batch_get L) (batch_set L) False
            effectiveTime txn (st_store st) engine
      in (st\<lparr>st_store := db\<rparr>, engine, out))"

end
