(* ===== verification/Ledger.thy ===== *)
theory Ledger
  imports State
begin

text \<open>
  What a transaction does to the accounts: the state transition of \<open>State\<close> read as a function on
  ledgers, that is on maps from addresses to accounts. \<open>transaction_effect\<close> is that reading for
  every payload; the conservation of the supply, the nonce discipline, who can spend and who
  can never act are consequences on the ledger, proved once over the interface \<open>account_view\<close>
  and carried over to whole blocks by induction on the loop of \<open>ApplyBlock\<close>.
\<close>

section \<open>The ledger of a view\<close>

definition account_of ::
  "('s \<Rightarrow> address \<Rightarrow> error + account option) \<Rightarrow> 's \<Rightarrow> address \<Rightarrow> account"
where
  "account_of getA s addr =
     (case getA s addr of Inl _ \<Rightarrow> zero_account addr | Inr acct \<Rightarrow> or_zero addr acct)"

definition addressed :: "('s \<Rightarrow> address \<Rightarrow> error + account option) \<Rightarrow> 's \<Rightarrow> bool" where
  "addressed getA s \<longleftrightarrow> (\<forall>x a. getA s x = Inr (Some a) \<longrightarrow> acct_Address a = x)"

text \<open>What a payload asks of its sender, does to its sender, and does to other accounts.\<close>

fun affordable :: "payload \<Rightarrow> account \<Rightarrow> bool" where
  "affordable (Transfer p) a \<longleftrightarrow> tr_Amount p \<le> acct_Balance a"
| "affordable (StakeDelegate p) a \<longleftrightarrow> sd_Amount p \<le> acct_Balance a"
| "affordable (StakeUndelegate p) a \<longleftrightarrow> su_Amount p \<le> acct_Stake a"
| "affordable _ a \<longleftrightarrow> True"

fun sender_effect :: "payload \<Rightarrow> account \<Rightarrow> account" where
  "sender_effect (Transfer p) a = a\<lparr>acct_Balance := acct_Balance a - tr_Amount p\<rparr>"
| "sender_effect (StakeDelegate p) a =
     a\<lparr>acct_Balance := acct_Balance a - sd_Amount p, acct_Stake := acct_Stake a + sd_Amount p\<rparr>"
| "sender_effect (StakeUndelegate p) a =
     a\<lparr>acct_Stake := acct_Stake a - su_Amount p, acct_Balance := acct_Balance a + su_Amount p\<rparr>"
| "sender_effect _ a = a"

fun payload_effect :: "transaction \<Rightarrow> payload \<Rightarrow> (address \<Rightarrow> account) \<Rightarrow> (address \<Rightarrow> account)" where
  "payload_effect tx (Transfer p) led =
     led(tr_To p := (led (tr_To p))\<lparr>acct_Balance := acct_Balance (led (tr_To p)) + tr_Amount p\<rparr>)"
| "payload_effect tx (ContractDeploy p) led =
     led(tx_To tx := (led (tx_To tx))\<lparr>acct_Code := cd_WASMCode p\<rparr>)"
| "payload_effect tx _ led = led"

fun is_contract :: "payload \<Rightarrow> bool" where
  "is_contract (ContractDeploy p) = True"
| "is_contract (ContractCall p) = True"
| "is_contract _ = False"

text \<open>The account that is written for the sender at the end: authenticated with \<open>key\<close>,
  regenerated up to \<open>time\<close>, charged \<open>cost\<close>, with its nonce advanced.\<close>

definition settled :: "params \<Rightarrow> i64 \<Rightarrow> bytes \<Rightarrow> u64 \<Rightarrow> account \<Rightarrow> payload \<Rightarrow> account" where
  "settled rcp time key cost a p =
     (sender_effect p a)\<lparr>
        acct_Nonce := acct_Nonce a + 1,
        acct_RC := fst (Regen rcp (acct_RC a) (acct_Stake a) (acct_LastRCEffectiveTime a) time) - cost,
        acct_RCMax := RCMax rcp (acct_Stake (sender_effect p a)),
        acct_LastRCEffectiveTime := time, acct_PubKey := key\<rparr>"

lemma zero_account_Address [simp]: "acct_Address (zero_account x) = x"
  by (simp add: zero_account_def)

lemma or_zero_simps [simp]: "or_zero x None = zero_account x" "or_zero x (Some a) = a"
  by (simp_all add: or_zero_def)

lemma account_of_Inr: "getA s x = Inr acct \<Longrightarrow> account_of getA s x = or_zero x acct"
  by (simp add: account_of_def)

lemma account_of_Address: "addressed getA s \<Longrightarrow> acct_Address (account_of getA s x) = x"
  by (auto simp: account_of_def addressed_def split: sum.split option.split)
    (metis option.exhaust or_zero_simps zero_account_Address)

lemma sender_effect_Address [simp]: "acct_Address (sender_effect p a) = acct_Address a"
  by (cases p) simp_all

lemma sender_effect_other [simp]:
  "acct_Nonce (sender_effect p a) = acct_Nonce a" "acct_RC (sender_effect p a) = acct_RC a"
  "acct_PubKey (sender_effect p a) = acct_PubKey a" "acct_Code (sender_effect p a) = acct_Code a"
  "acct_LastRCEffectiveTime (sender_effect p a) = acct_LastRCEffectiveTime a"
  by (cases p; simp)+

lemma affordable_only_funds:
  "acct_Balance a = acct_Balance b \<Longrightarrow> acct_Stake a = acct_Stake b \<Longrightarrow> affordable p a = affordable p b"
  by (cases p) simp_all

text \<open>One transaction on the ledger.\<close>

definition ledger_step ::
  "params \<Rightarrow> i64 \<Rightarrow> transaction \<Rightarrow> payload \<Rightarrow> bytes \<Rightarrow> u64 \<Rightarrow> (address \<Rightarrow> account) \<Rightarrow> (address \<Rightarrow> account)"
where
  "ledger_step rcp time tx p key cost led =
     (payload_effect tx p led)(tx_From tx := settled rcp time key cost (led (tx_From tx)) p)"

section \<open>The two halves of a transaction\<close>

lemma prepare_sender_ok:
  assumes "prepare_sender pw cl rcp getA s (Some tx) time = Inr (sender, env, b)"
  obtains acct key register where "tx_From tx \<noteq> []" "tx_To tx \<noteq> []" "getA s (tx_From tx) = Inr acct"
    "DecodePayload pw (tx_Payload tx) = Inr env"
    "ResolveSenderPubKey cl (Some tx) (acct_PubKey (or_zero (tx_From tx) acct)) (env_SenderPubKey env)
       = Inr (key, register)"
    "VerifySignature pw cl (Some tx) key = Inr ()"
    "acct_Nonce (or_zero (tx_From tx) acct) = tx_Nonce tx" "MarshalTransaction pw (Some tx) = Inr b"
    "sender = (let a = or_zero (tx_From tx) acct in
       a\<lparr>acct_RC := fst (Regen rcp (acct_RC a) (acct_Stake a) (acct_LastRCEffectiveTime a) time),
         acct_RCMax := RCMax rcp (acct_Stake a), acct_LastRCEffectiveTime := time,
         acct_PubKey := key\<rparr>)"
proof -
  obtain acct where acct: "tx_From tx \<noteq> []" "tx_To tx \<noteq> []" "getA s (tx_From tx) = Inr acct"
    using assms by (auto simp: prepare_sender_def)
  let ?a = "or_zero (tx_From tx) acct"
  obtain env' key register where r': "DecodePayload pw (tx_Payload tx) = Inr env'"
    "ResolveSenderPubKey cl (Some tx) (acct_PubKey ?a) (env_SenderPubKey env') = Inr (key, register)"
    "VerifySignature pw cl (Some tx) key = Inr ()"
    and rest': "(let sender = (if register then ?a\<lparr>acct_PubKey := key\<rparr> else ?a);
         (rc, time) = Regen rcp (acct_RC sender) (acct_Stake sender) (acct_LastRCEffectiveTime sender) time;
         sender = sender\<lparr>acct_RC := rc, acct_LastRCEffectiveTime := time\<rparr>;
         sender = sender\<lparr>acct_RCMax := RCMax rcp (acct_Stake sender)\<rparr>
       in guard_err (acct_Nonce sender \<noteq> tx_Nonce tx) ''invalid nonce''
         (bind_err (MarshalTransaction pw (Some tx)) (\<lambda>sizeBytes. Inr (sender, env', sizeBytes))))
       = Inr (sender, env, b)"
    using assms acct by (auto simp: prepare_sender_def Let_def [of "or_zero _ _"])
  define a where "a = ?a"
  note r = r' [folded a_def] and rest = rest' [folded a_def]
  have key: "a\<lparr>acct_PubKey := key\<rparr> = a" if "\<not> register"
    using r(2) that by (cases a) (auto simp: ResolveSenderPubKey_ok split: if_splits)
  have upd: "(if register then a\<lparr>acct_PubKey := key\<rparr> else a) = a\<lparr>acct_PubKey := key\<rparr>"
    using key by simp
  obtain rc where R: "Regen rcp (acct_RC a) (acct_Stake a) (acct_LastRCEffectiveTime a) time = (rc, time)"
    using Regen_time by (metis prod.collapse)
  have env: "env' = env" and rest2: "acct_Nonce a = tx_Nonce tx" "MarshalTransaction pw (Some tx) = Inr b"
    and sender: "sender = a\<lparr>acct_PubKey := key, acct_RC := rc, acct_LastRCEffectiveTime := time,
      acct_RCMax := RCMax rcp (acct_Stake a)\<rparr>"
    using rest by (simp_all add: Let_def upd R)
  have "sender = (let a = a in
       a\<lparr>acct_RC := fst (Regen rcp (acct_RC a) (acct_Stake a) (acct_LastRCEffectiveTime a) time),
         acct_RCMax := RCMax rcp (acct_Stake a), acct_LastRCEffectiveTime := time,
         acct_PubKey := key\<rparr>)"
    unfolding sender Let_def R by (cases a) simp
  with acct r rest2 show ?thesis unfolding a_def env by (intro that)
qed

lemma charge_sender_ok:
  "charge_sender rcp b i w a = Inr a' \<longleftrightarrow>
     (let cost = Cost rcp (word_of_nat (length b)) i w in cost \<le> acct_RC a \<and>
      a' = a\<lparr>acct_RC := acct_RC a - cost, acct_Nonce := acct_Nonce a + 1,
             acct_RCMax := RCMax rcp (acct_Stake a)\<rparr>)"
  by (auto simp: charge_sender_def Let_def not_less)

lemma applyTransaction_ok:
  assumes "applyTransactionWithKV L rcp getA setA pv time (Some tx) s engine = (s', engine', Ret (Inr u))"
  obtains sender env b s1 sender' i w sender'' where
    "prepare_sender (lib_pw L) (lib_cl L) rcp getA s (Some tx) time = Inr (sender, env, b)"
    "execute_payload (lib_wz L) getA setA pv tx (env_Payload env) sender s engine
       = (s1, engine', Ret (Inr (sender', i, w)))"
    "charge_sender rcp b i w sender' = Inr sender''" "setA s1 (Some sender'') = Inr s'"
  using assms
  by (auto simp: applyTransactionWithKV_def
      split: option.splits sum.splits prod.splits go.splits)

section \<open>The effect on the ledger\<close>

text \<open>The payloads that do not run a contract are charged a fixed price.\<close>

lemma execute_payload_shape:
  "execute_payload wz getA setA pv tx (Some p) sender s engine = (s1, engine', Ret (Inr (sender', i, w)))
   \<Longrightarrow> \<not> is_contract p \<Longrightarrow> (i, w) = cost_shape engine p"
  by (cases p) (auto simp: exec_transfer_def exec_delegate_def exec_undelegate_def Let_def
      split: if_splits sum.splits prod.splits)

lemma cost_shape_fixed: "\<not> is_contract p \<Longrightarrow> cost_shape eng p = cost_shape eng' p"
  by (cases p) simp_all

context account_view
begin

lemma account_of_write:
  assumes "setA s (Some a) = Inr s'" and "acct_Address a = x"
  shows "account_of getA s' = (account_of getA s)(x := a)"
  using read_after_write [OF assms(1)] assms(2) by (auto simp: account_of_def)

lemma addressed_after_write: "addressed getA s \<Longrightarrow> setA s (Some a) = Inr s' \<Longrightarrow> addressed getA s'"
  unfolding addressed_def by (meson addressed_write)

lemma execute_payload_ok:
  assumes "execute_payload wz getA setA pv tx (Some p) sender s engine
      = (s1, engine', Ret (Inr (sender', i, w)))"
    and "addressed getA s"
  shows "affordable p sender" "sender' = sender_effect p sender" "addressed getA s1"
    "account_of getA s1 = payload_effect tx p (account_of getA s)"
proof -
  have addr: "acct_Address (or_zero x acct) = x" if "getA s x = Inr acct" for x acct
    using account_of_Address [OF assms(2), of x] account_of_Inr [of getA, OF that] by simp
  have "affordable p sender \<and> sender' = sender_effect p sender \<and> addressed getA s1
      \<and> account_of getA s1 = payload_effect tx p (account_of getA s)"
  proof (cases p)
    case (Transfer q)
    then obtain acct where "\<not> acct_Balance sender < tr_Amount q" "getA s (tr_To q) = Inr acct"
      "setA s (Some ((or_zero (tr_To q) acct)\<lparr>acct_Balance :=
          acct_Balance (or_zero (tr_To q) acct) + tr_Amount q\<rparr>)) = Inr s1"
      "sender' = sender_effect p sender"
      using assms(1) by (auto simp: exec_transfer_def Let_def split: if_splits sum.splits prod.splits)
    then show ?thesis
      using Transfer addr account_of_write [where x = "tr_To q"] addressed_after_write [OF assms(2)]
      by (simp add: not_less account_of_Inr)
  next
    case (ContractDeploy q)
    then obtain acct where "getA s (tx_To tx) = Inr acct"
      "setA s (Some ((or_zero (tx_To tx) acct)\<lparr>acct_Code := cd_WASMCode q\<rparr>)) = Inr s1"
      "sender' = sender"
      using assms(1) by (auto simp: exec_deploy_def Let_def
          split: if_splits option.splits sum.splits prod.splits go.splits)
    then show ?thesis
      using ContractDeploy addr account_of_write [where x = "tx_To tx"] addressed_after_write [OF assms(2)]
      by (simp add: account_of_Inr)
  qed (use assms in \<open>auto simp: exec_delegate_def exec_undelegate_def exec_call_def not_less
      split: if_splits option.splits sum.splits prod.splits go.splits\<close>)
  then show "affordable p sender" "sender' = sender_effect p sender" "addressed getA s1"
    "account_of getA s1 = payload_effect tx p (account_of getA s)" by auto
qed

lemma transaction_effect_priced:
  assumes "applyTransactionWithKV L rcp getA setA pv time (Some tx) s engine = (s', engine', Ret (Inr u))"
    and addr: "addressed getA s"
  obtains env p key register b i w cost where
    "DecodePayload (lib_pw L) (tx_Payload tx) = Inr env" "env_Payload env = Some p"
    "ResolveSenderPubKey (lib_cl L) (Some tx) (acct_PubKey (account_of getA s (tx_From tx)))
       (env_SenderPubKey env) = Inr (key, register)"
    "VerifySignature (lib_pw L) (lib_cl L) (Some tx) key = Inr ()"
    "acct_Nonce (account_of getA s (tx_From tx)) = tx_Nonce tx"
    "affordable p (account_of getA s (tx_From tx))"
    "MarshalTransaction (lib_pw L) (Some tx) = Inr b"
    "cost = Cost rcp (word_of_nat (length b)) i w"
    "cost \<le> fst (Regen rcp (acct_RC (account_of getA s (tx_From tx)))
       (acct_Stake (account_of getA s (tx_From tx)))
       (acct_LastRCEffectiveTime (account_of getA s (tx_From tx))) time)"
    "addressed getA s'"
    "account_of getA s' = ledger_step rcp time tx p key cost (account_of getA s)"
    "\<not> is_contract p \<Longrightarrow> (i, w) = cost_shape engine p"
proof -
  let ?a = "account_of getA s (tx_From tx)"
  obtain sender env b s1 sender' i w sender'' where
    prep: "prepare_sender (lib_pw L) (lib_cl L) rcp getA s (Some tx) time = Inr (sender, env, b)"
    and exe: "execute_payload (lib_wz L) getA setA pv tx (env_Payload env) sender s engine
       = (s1, engine', Ret (Inr (sender', i, w)))"
    and chg: "charge_sender rcp b i w sender' = Inr sender''" and wr: "setA s1 (Some sender'') = Inr s'"
    by (rule applyTransaction_ok [OF assms(1)])
  obtain p where p: "env_Payload env = Some p"
    using exe by (cases "env_Payload env") auto
  note exe' = execute_payload_ok [OF exe [unfolded p] addr]
  from prep show ?thesis
  proof (rule prepare_sender_ok)
    fix acct key register
    assume get: "getA s (tx_From tx) = Inr acct"
      and auth: "DecodePayload (lib_pw L) (tx_Payload tx) = Inr env"
        "ResolveSenderPubKey (lib_cl L) (Some tx) (acct_PubKey (or_zero (tx_From tx) acct))
           (env_SenderPubKey env) = Inr (key, register)"
        "VerifySignature (lib_pw L) (lib_cl L) (Some tx) key = Inr ()"
        "acct_Nonce (or_zero (tx_From tx) acct) = tx_Nonce tx" "MarshalTransaction (lib_pw L) (Some tx) = Inr b"
      and sender: "sender = (let a = or_zero (tx_From tx) acct in
       a\<lparr>acct_RC := fst (Regen rcp (acct_RC a) (acct_Stake a) (acct_LastRCEffectiveTime a) time),
         acct_RCMax := RCMax rcp (acct_Stake a), acct_LastRCEffectiveTime := time,
         acct_PubKey := key\<rparr>)"
    have acct: "or_zero (tx_From tx) acct = ?a" using get by (simp add: account_of_Inr)
    have a: "acct_Address ?a = tx_From tx" using account_of_Address [OF addr] .
    define cost where "cost = Cost rcp (word_of_nat (length b)) i w"
    have charged: "cost \<le> acct_RC sender'"
      "sender'' = sender'\<lparr>acct_RC := acct_RC sender' - cost, acct_Nonce := acct_Nonce sender' + 1,
             acct_RCMax := RCMax rcp (acct_Stake sender')\<rparr>"
      using chg by (simp_all add: charge_sender_ok Let_def cost_def)
    have rc: "acct_RC sender' = fst (Regen rcp (acct_RC ?a) (acct_Stake ?a) (acct_LastRCEffectiveTime ?a) time)"
      by (simp add: exe'(2) sender acct Let_def)
    have "sender'' = settled rcp time key cost ?a p"
      unfolding charged(2) exe'(2) sender acct Let_def settled_def by (cases p; cases ?a) simp_all
    then have "account_of getA s' = ledger_step rcp time tx p key cost (account_of getA s)"
      using account_of_write [OF wr, of "tx_From tx"] a
      by (simp add: ledger_step_def exe'(4) settled_def)
    moreover have "affordable p ?a"
      using exe'(1) affordable_only_funds [of sender ?a] by (simp add: sender acct Let_def)
    ultimately show thesis
      using that [OF auth(1) p, of key register b cost i w] auth acct charged(1) rc cost_def
        addressed_after_write [OF exe'(3) wr] execute_payload_shape [OF exe [unfolded p]]
      by simp
  qed
qed

lemma transaction_effect:
  assumes "applyTransactionWithKV L rcp getA setA pv time (Some tx) s engine = (s', engine', Ret (Inr u))"
    and addr: "addressed getA s"
  obtains env p key register b i w cost where
    "DecodePayload (lib_pw L) (tx_Payload tx) = Inr env" "env_Payload env = Some p"
    "ResolveSenderPubKey (lib_cl L) (Some tx) (acct_PubKey (account_of getA s (tx_From tx)))
       (env_SenderPubKey env) = Inr (key, register)"
    "VerifySignature (lib_pw L) (lib_cl L) (Some tx) key = Inr ()"
    "acct_Nonce (account_of getA s (tx_From tx)) = tx_Nonce tx"
    "affordable p (account_of getA s (tx_From tx))"
    "MarshalTransaction (lib_pw L) (Some tx) = Inr b"
    "cost = Cost rcp (word_of_nat (length b)) i w"
    "cost \<le> fst (Regen rcp (acct_RC (account_of getA s (tx_From tx)))
       (acct_Stake (account_of getA s (tx_From tx)))
       (acct_LastRCEffectiveTime (account_of getA s (tx_From tx))) time)"
    "addressed getA s'"
    "account_of getA s' = ledger_step rcp time tx p key cost (account_of getA s)"
  using assms by (rule transaction_effect_priced)

end

section \<open>Conservation\<close>

definition wealth_of :: "account \<Rightarrow> nat" where
  "wealth_of a = unat (acct_Balance a) + unat (acct_Stake a)"

definition total_supply :: "address set \<Rightarrow> (address \<Rightarrow> account) \<Rightarrow> nat" where
  "total_supply A led = (\<Sum>x\<in>A. wealth_of (led x))"

text \<open>A transfer to oneself: the credit is written first and then overwritten by the debit.\<close>

fun burned :: "transaction \<Rightarrow> payload \<Rightarrow> nat" where
  "burned tx (Transfer p) = (if tr_To p = tx_From tx then unat (tr_Amount p) else 0)"
| "burned tx _ = 0"

fun beneficiary :: "transaction \<Rightarrow> payload \<Rightarrow> address" where
  "beneficiary tx (Transfer p) = tr_To p"
| "beneficiary tx _ = tx_From tx"

lemma supply_upd:
  assumes "finite A" and "x \<in> A"
  shows "total_supply A (led(x := a)) + wealth_of (led x) = total_supply A led + wealth_of a"
  using assms by (simp add: total_supply_def sum.remove [of A x])

lemma wealth_le_supply: "finite A \<Longrightarrow> x \<in> A \<Longrightarrow> wealth_of (led x) \<le> total_supply A led"
  unfolding total_supply_def by (rule member_le_sum) auto

lemma wealth_of_settled:
  assumes "affordable p a" and "wealth_of a < 2 ^ 64"
  shows "wealth_of (settled rcp time key cost a p)
       + (case p of Transfer q \<Rightarrow> unat (tr_Amount q) | _ \<Rightarrow> 0) = wealth_of a"
  using assms
  by (cases p) (auto simp: settled_def wealth_of_def unat_sub word_le_nat_alt unat_add_small)

lemma wealth_of_settled_upd [simp]:
  "wealth_of (a\<lparr>acct_Code := c\<rparr>) = wealth_of a"
  by (simp add: wealth_of_def)

lemma supply_upd_same_wealth:
  "wealth_of a = wealth_of (led x) \<Longrightarrow> total_supply A (led(x := a)) = total_supply A led"
  unfolding total_supply_def by (rule sum.cong) auto

lemma two_accounts_le_supply:
  assumes "finite A" "x \<in> A" "y \<in> A" "x \<noteq> y"
  shows "wealth_of (led x) + wealth_of (led y) \<le> total_supply A led"
proof -
  have "total_supply {x, y} led \<le> total_supply A led"
    unfolding total_supply_def using assms by (intro sum_mono2) auto
  then show ?thesis using assms by (simp add: total_supply_def)
qed

lemma ledger_step_supply:
  assumes A: "finite A" "tx_From tx \<in> A" "beneficiary tx p \<in> A"
    and funds: "affordable p (led (tx_From tx))" and small: "total_supply A led < 2 ^ 64"
  shows "total_supply A (ledger_step rcp time tx p key cost led) + burned tx p = total_supply A led"
proof -
  let ?a = "led (tx_From tx)" and ?s = "settled rcp time key cost (led (tx_From tx)) p"
  have wa: "wealth_of ?a < 2 ^ 64" using wealth_le_supply [OF A(1,2)] small by (meson le_less_trans)
  note settle = wealth_of_settled [OF funds wa, of rcp time key cost]
  show ?thesis
  proof (cases p)
    case (Transfer q)
    show ?thesis
    proof (cases "tr_To q = tx_From tx")
      case True
      then have "total_supply A (ledger_step rcp time tx p key cost led) = total_supply A (led(tx_From tx := ?s))"
        by (simp add: ledger_step_def Transfer)
      then show ?thesis
        using supply_upd [OF A(1,2), of led ?s] settle True Transfer by simp
    next
      case False
      let ?b = "led (tr_To q)"
      let ?r = "?b\<lparr>acct_Balance := acct_Balance ?b + tr_Amount q\<rparr>"
      have "unat (tr_Amount q) \<le> unat (acct_Balance ?a)"
        using funds Transfer by (simp add: word_le_nat_alt)
      then have "unat (acct_Balance ?b) + unat (tr_Amount q) < 2 ^ 64"
        using two_accounts_le_supply [OF A(1,2), of "tr_To q" led] A(3) False Transfer small
        by (simp add: wealth_of_def)
      then have r: "wealth_of ?r = wealth_of ?b + unat (tr_Amount q)"
        by (simp add: wealth_of_def unat_add_small)
      show ?thesis
        using supply_upd [OF A(1), of "tr_To q" led ?r] A(3) r settle False Transfer
          supply_upd [OF A(1,2), of "led(tr_To q := ?r)" ?s]
        by (simp add: ledger_step_def)
    qed
  next
    case (ContractDeploy q)
    have "total_supply A (payload_effect tx p led) = total_supply A led"
      unfolding ContractDeploy payload_effect.simps by (rule supply_upd_same_wealth) simp
    moreover have "wealth_of (payload_effect tx p led (tx_From tx)) = wealth_of ?a"
      by (simp add: ContractDeploy)
    ultimately show ?thesis
      using supply_upd [OF A(1,2), of "payload_effect tx p led" ?s] settle
      by (simp add: ledger_step_def ContractDeploy)
  qed (use supply_upd [OF A(1,2), of led ?s] settle in \<open>simp_all add: ledger_step_def\<close>)
qed

section \<open>Sequences of transactions\<close>

definition payload_of :: "protowire \<Rightarrow> transaction \<Rightarrow> payload option" where
  "payload_of pw tx =
     (case DecodePayload pw (tx_Payload tx) of Inl _ \<Rightarrow> None | Inr env \<Rightarrow> env_Payload env)"

definition burned_by :: "protowire \<Rightarrow> transaction option \<Rightarrow> nat" where
  "burned_by pw txn =
     (case txn of None \<Rightarrow> 0 | Some tx \<Rightarrow> (case payload_of pw tx of None \<Rightarrow> 0 | Some p \<Rightarrow> burned tx p))"

text \<open>The addresses whose wealth a transaction can change.\<close>

definition touches :: "protowire \<Rightarrow> transaction option \<Rightarrow> address set" where
  "touches pw txn =
     (case txn of None \<Rightarrow> {} | Some tx \<Rightarrow>
        insert (tx_From tx) (case payload_of pw tx of None \<Rightarrow> {} | Some p \<Rightarrow> {beneficiary tx p}))"

definition fits :: "protowire \<Rightarrow> transaction option \<Rightarrow> bool" where
  "fits pw txn \<longleftrightarrow> (\<forall>b. MarshalTransaction pw txn = Inr b \<longrightarrow> length b < 2 ^ 63)"

lemma payload_ofI: "DecodePayload pw (tx_Payload tx) = Inr env \<Longrightarrow> payload_of pw tx = env_Payload env"
  by (simp add: payload_of_def)

lemma apply_transactions_Cons_ok:
  assumes "apply_transactions L rcp getA setA pv time (txn # rest) s e = (s', e', Ret (Inr u))"
  obtains tx s1 e1 where "txn = Some tx"
    "applyTransactionWithKV L rcp getA setA pv time (Some tx) s e = (s1, e1, Ret (Inr ()))"
    "apply_transactions L rcp getA setA pv time rest s1 e1 = (s', e', Ret (Inr u))"
proof -
  obtain tx where tx: "txn = Some tx"
    using assms by (cases txn) (auto simp: applyTransactionWithKV_def)
  obtain s1 e1 where "applyTransactionWithKV L rcp getA setA pv time (Some tx) s e = (s1, e1, Ret (Inr ()))"
    "apply_transactions L rcp getA setA pv time rest s1 e1 = (s', e', Ret (Inr u))"
    using assms unfolding tx by (auto split: prod.splits go.splits sum.splits)
  with tx show ?thesis by (rule that)
qed

lemma ledger_step_nonce:
  "acct_Nonce (ledger_step rcp time tx p key cost led x)
     = acct_Nonce (led x) + (if x = tx_From tx then 1 else 0)"
  by (cases p) (auto simp: ledger_step_def settled_def)

lemma ledger_step_stranger:
  assumes "x \<noteq> tx_From tx"
  shows "ledger_step rcp time tx p key cost led x = payload_effect tx p led x"
  using assms by (simp add: ledger_step_def)

lemma payload_effect_other:
  "acct_Nonce (payload_effect tx p led x) = acct_Nonce (led x)"
  "acct_Stake (payload_effect tx p led x) = acct_Stake (led x)"
  "acct_PubKey (payload_effect tx p led x) = acct_PubKey (led x)"
  "acct_RC (payload_effect tx p led x) = acct_RC (led x)"
  by (cases p; simp)+

text \<open>
  The specification of a sequence of transactions, on ledgers: each is authenticated, has the
  nonce of its sender, is affordable and paid for, and takes its \<open>ledger_step\<close>. The times may
  differ, so runs of consecutive blocks compose.
\<close>

inductive ledger_run ::
  "protowire \<Rightarrow> crypto_lib \<Rightarrow> params \<Rightarrow> (address \<Rightarrow> account) \<Rightarrow> transaction option list
   \<Rightarrow> (address \<Rightarrow> account) \<Rightarrow> bool"
  for pw cl rcp where
  Nil: "ledger_run pw cl rcp led [] led"
| Cons: "\<lbrakk>DecodePayload pw (tx_Payload tx) = Inr env; env_Payload env = Some p;
     ResolveSenderPubKey cl (Some tx) (acct_PubKey (led (tx_From tx))) (env_SenderPubKey env)
       = Inr (key, register);
     VerifySignature pw cl (Some tx) key = Inr ();
     acct_Nonce (led (tx_From tx)) = tx_Nonce tx; affordable p (led (tx_From tx));
     MarshalTransaction pw (Some tx) = Inr b; cost = Cost rcp (word_of_nat (length b)) i w;
     cost \<le> fst (Regen rcp (acct_RC (led (tx_From tx))) (acct_Stake (led (tx_From tx)))
       (acct_LastRCEffectiveTime (led (tx_From tx))) time);
     ledger_run pw cl rcp (ledger_step rcp time tx p key cost led) rest led'\<rbrakk>
   \<Longrightarrow> ledger_run pw cl rcp led (Some tx # rest) led'"

inductive_cases ledger_run_ConsE: "ledger_run pw cl rcp led (txn # rest) led'"

lemma ledger_run_append:
  "ledger_run pw cl rcp led txs led' \<Longrightarrow> ledger_run pw cl rcp led' txs' led''
   \<Longrightarrow> ledger_run pw cl rcp led (txs @ txs') led''"
  by (induction rule: ledger_run.induct) (auto intro: ledger_run.intros)

text \<open>The loop of \<open>PreviewBlock\<close> and \<open>ApplyBlock\<close> implements it.\<close>

context account_view
begin

lemma apply_transactions_run:
  assumes "apply_transactions L rcp getA setA pv time txs s e = (s', e', Ret (Inr u))"
    and "addressed getA s"
  shows "ledger_run (lib_pw L) (lib_cl L) rcp (account_of getA s) txs (account_of getA s')"
    and "addressed getA s'"
proof -
  have "ledger_run (lib_pw L) (lib_cl L) rcp (account_of getA s) txs (account_of getA s')
      \<and> addressed getA s'"
    using assms
  proof (induction txs arbitrary: s e)
    case (Cons txn rest)
    from Cons.prems(1) obtain tx s1 e1 where step: "txn = Some tx"
      "applyTransactionWithKV L rcp getA setA pv time (Some tx) s e = (s1, e1, Ret (Inr ()))"
      "apply_transactions L rcp getA setA pv time rest s1 e1 = (s', e', Ret (Inr u))"
      by (rule apply_transactions_Cons_ok)
    from transaction_effect [OF step(2) Cons.prems(2)] show ?case
    proof cases
      case (1 env p key register b i w cost)
      note ih = Cons.IH [OF step(3) 1(10), unfolded 1(11)]
      have "ledger_run (lib_pw L) (lib_cl L) rcp (account_of getA s) (Some tx # rest) (account_of getA s')"
        by (rule ledger_run.Cons [where led = "account_of getA s"]) (rule 1 conjunct1 [OF ih])+
      then show ?thesis using ih unfolding step(1) by simp
    qed
  qed (auto intro: ledger_run.Nil)
  then show "ledger_run (lib_pw L) (lib_cl L) rcp (account_of getA s) txs (account_of getA s')"
    "addressed getA s'" by auto
qed

end

lemma ledger_run_supply:
  assumes "ledger_run pw cl rcp led txs led'" and "finite A" and "\<forall>txn\<in>set txs. touches pw txn \<subseteq> A"
    and "total_supply A led < 2 ^ 64"
  shows "total_supply A led' + (\<Sum>txn\<leftarrow>txs. burned_by pw txn) = total_supply A led"
  using assms(1,3,4)
proof (induction rule: ledger_run.induct)
  case (Cons tx env p led key register b cost i w time rest led')
  let ?led1 = "ledger_step rcp time tx p key cost led"
  have p: "payload_of pw tx = Some p" using Cons(1,2) by (simp add: payload_ofI)
  have step: "total_supply A ?led1 + burned tx p = total_supply A led"
    using Cons(6,12,13) assms(2) p by (intro ledger_step_supply) (auto simp: touches_def)
  moreover from this have "total_supply A led' + (\<Sum>txn\<leftarrow>rest. burned_by pw txn) = total_supply A ?led1"
    using Cons(12,13) by (intro Cons(11)) auto
  ultimately show ?case by (simp add: burned_by_def p)
qed simp

lemma ledger_run_nonces:
  assumes "ledger_run pw cl rcp led txs led'"
  shows "\<forall>txn\<in>set txs. \<exists>tx k. txn = Some tx \<and> k < length txs
       \<and> tx_Nonce tx = acct_Nonce (led (tx_From tx)) + word_of_nat k"
  using assms
proof (induction rule: ledger_run.induct)
  case (Cons tx env p led key register b cost i w time rest led')
  show ?case
  proof
    fix txn assume "txn \<in> set (Some tx # rest)"
    then consider "txn = Some tx" | "txn \<in> set rest" by auto
    then show "\<exists>t k. txn = Some t \<and> k < length (Some tx # rest)
        \<and> tx_Nonce t = acct_Nonce (led (tx_From t)) + word_of_nat k"
    proof cases
      case 1
      then show ?thesis using Cons(5) by (intro exI [of _ tx] exI [of _ 0]) simp
    next
      case 2
      then obtain t k where t: "txn = Some t" "k < length rest"
        "tx_Nonce t = acct_Nonce (ledger_step rcp time tx p key cost led (tx_From t)) + word_of_nat k"
        using Cons(11) by blast
      then show ?thesis unfolding ledger_step_nonce
        by (intro exI [of _ t] exI [of _ "if tx_From t = tx_From tx then Suc k else k"]) auto
    qed
  qed
qed simp

lemma ledger_run_no_replay:
  assumes "ledger_run pw cl rcp led txs led'" and "length txs < 2 ^ 64"
  shows "distinct (map (map_option (\<lambda>tx. (tx_From tx, tx_Nonce tx))) txs)"
  using assms
proof (induction rule: ledger_run.induct)
  case (Cons tx env p led key register b cost i w time rest led')
  note later = ledger_run_nonces [OF Cons(10)]
  have "(tx_From t, tx_Nonce t) \<noteq> (tx_From tx, tx_Nonce tx)" if later_t: "Some t \<in> set rest" for t
  proof
    assume same: "(tx_From t, tx_Nonce t) = (tx_From tx, tx_Nonce tx)"
    obtain k where k: "k < length rest"
      "tx_Nonce t = acct_Nonce (ledger_step rcp time tx p key cost led (tx_From t)) + word_of_nat k"
      using bspec [OF later later_t] by auto
    have from_nonce: "tx_From t = tx_From tx" "tx_Nonce t = tx_Nonce tx" using same by simp_all
    have "tx_Nonce t = tx_Nonce tx + (1 + word_of_nat k)"
      unfolding k(2) ledger_step_nonce from_nonce(1) Cons(5) by simp
    then have "(word_of_nat (Suc k) :: u64) = 0" unfolding from_nonce(2) by simp
    then have "unat (word_of_nat (Suc k) :: u64) = 0" by simp
    moreover have "Suc k < 2 ^ 64" using k(1) Cons.prems by simp
    ultimately show False by (simp only: unat_of_nat) simp
  qed
  moreover have "\<forall>txn\<in>set rest. \<exists>t. txn = Some t" using later by blast
  ultimately have "\<forall>txn\<in>set rest. map_option (\<lambda>tx. (tx_From tx, tx_Nonce tx)) txn
      \<noteq> Some (tx_From tx, tx_Nonce tx)"
    by fastforce
  then have "Some (tx_From tx, tx_Nonce tx)
      \<notin> map_option (\<lambda>tx. (tx_From tx, tx_Nonce tx)) ` set rest"
    unfolding image_iff by metis
  moreover have "distinct (map (map_option (\<lambda>tx. (tx_From tx, tx_Nonce tx))) rest)"
    using Cons.prems by (intro Cons.IH) simp
  ultimately show ?case by simp
qed simp

lemma ledger_run_no_stake:
  assumes "ledger_run pw cl rcp led txs led'" and pw: "protowire_laws pw" and price: "CSize rcp \<noteq> 0"
    and "\<forall>txn\<in>set txs. fits pw txn" and "acct_Stake (led x) = 0"
  shows "acct_Stake (led' x) = 0 \<and> acct_Nonce (led' x) = acct_Nonce (led x)
       \<and> (\<forall>tx. Some tx \<in> set txs \<longrightarrow> tx_From tx \<noteq> x)"
  using assms(1,4,5)
proof (induction rule: ledger_run.induct)
  case (Cons tx env p led key register b cost i w time rest led')
  have "b \<noteq> []" using protowire_laws.MarshalTransaction_nonempty [OF pw Cons(7)] .
  moreover have "length b < 2 ^ 63" using Cons(7,12) by (simp add: fits_def)
  ultimately have "(word_of_nat (length b) :: u64) \<noteq> 0" by (rule word_of_length_pos)
  then have "0 < cost" unfolding Cons(8) using price by (intro Cost_positive)
  then have from_other: "tx_From tx \<noteq> x" using Cons(9,13) by auto
  have "acct_Stake (ledger_step rcp time tx p key cost led x) = 0"
    "acct_Nonce (ledger_step rcp time tx p key cost led x) = acct_Nonce (led x)"
    using from_other Cons(13) by (simp_all add: ledger_step_stranger payload_effect_other)
  then show ?case using Cons(11,12) from_other by auto
qed simp

section \<open>Preview and application\<close>

definition contract_free :: "protowire \<Rightarrow> transaction option \<Rightarrow> bool" where
  "contract_free pw txn \<longleftrightarrow>
     (case txn of None \<Rightarrow> True | Some tx \<Rightarrow>
        (case payload_of pw tx of None \<Rightarrow> True | Some p \<Rightarrow> \<not> is_contract p))"

lemma execute_payload_preview:
  "(\<And>p. pl = Some p \<Longrightarrow> \<not> is_contract p) \<Longrightarrow>
   execute_payload wz getA setA True tx pl sender s e = execute_payload wz getA setA False tx pl sender s e"
  by (cases pl; cases "the pl") auto

lemma prepare_sender_payload:
  "prepare_sender pw cl rcp getA s (Some tx) time = Inr (sender, env, b) \<Longrightarrow>
   payload_of pw tx = env_Payload env"
  by (erule prepare_sender_ok) (rule payload_ofI)

lemma applyTransaction_preview:
  assumes "contract_free (lib_pw L) txn"
  shows "applyTransactionWithKV L rcp getA setA True time txn s e
       = applyTransactionWithKV L rcp getA setA False time txn s e"
proof (cases txn)
  case (Some tx)
  show ?thesis
  proof (cases "prepare_sender (lib_pw L) (lib_cl L) rcp getA s (Some tx) time")
    case (Inr r)
    obtain sender env b where r: "r = (sender, env, b)" by (cases r)
    have "\<not> is_contract p" if "env_Payload env = Some p" for p
      using assms that prepare_sender_payload [OF Inr [unfolded r]] by (simp add: contract_free_def Some)
    note same = execute_payload_preview [OF this]
    show ?thesis by (simp add: applyTransactionWithKV_def Some Inr r same)
  qed (simp add: applyTransactionWithKV_def Some)
qed (simp add: applyTransactionWithKV_def)

lemma apply_transactions_preview:
  "\<forall>txn\<in>set txs. contract_free (lib_pw L) txn \<Longrightarrow>
   apply_transactions L rcp getA setA True time txs s e = apply_transactions L rcp getA setA False time txs s e"
  by (induction txs arbitrary: s e)
    (auto simp: applyTransaction_preview split: prod.split go.split sum.split)

text \<open>A transaction without a contract payload leaves the engine alone.\<close>

lemma applyTransaction_engine_same:
  assumes "contract_free (lib_pw L) txn"
    and "applyTransactionWithKV L rcp getA setA pv time txn s e = (s', e', out)"
  shows "e' = e"
proof (cases txn)
  case (Some tx)
  show ?thesis
  proof (cases "prepare_sender (lib_pw L) (lib_cl L) rcp getA s (Some tx) time")
    case (Inr r)
    obtain sender env b where r: "r = (sender, env, b)" by (cases r)
    have free: "\<not> is_contract p" if "env_Payload env = Some p" for p
      using assms(1) that prepare_sender_payload [OF Inr [unfolded r]] by (simp add: contract_free_def Some)
    have same: "e1 = e" if "execute_payload (lib_wz L) getA setA pv tx (env_Payload env) sender s e = (s1, e1, res)"
      for s1 e1 res
      using that free by (cases "env_Payload env"; cases "the (env_Payload env)") (auto split: prod.splits)
    show ?thesis
      using assms(2) same
      by (auto simp: applyTransactionWithKV_def Some Inr r split: prod.splits go.splits sum.splits)
  qed (use assms(2) in \<open>simp add: applyTransactionWithKV_def Some\<close>)
qed (use assms(2) in \<open>simp add: applyTransactionWithKV_def\<close>)

lemma apply_transactions_engine_same:
  "\<forall>txn\<in>set txs. contract_free (lib_pw L) txn \<Longrightarrow>
   apply_transactions L rcp getA setA pv time txs s e = (s', e', out) \<Longrightarrow> e' = e"
proof (induction txs arbitrary: s e)
  case (Cons txn rest)
  obtain s1 e1 res where step: "applyTransactionWithKV L rcp getA setA pv time txn s e = (s1, e1, res)"
    by (metis prod_cases3)
  have "e1 = e" using applyTransaction_engine_same [OF _ step] Cons.prems(1) by simp
  then show ?case using Cons step by (auto split: go.splits sum.splits)
qed simp

text \<open>An engine that the program can have: none, or one built by its operations.\<close>

definition engine_ok :: "('r, 'c, 'm) contract_engine option \<Rightarrow> bool" where
  "engine_ok e \<longleftrightarrow> (case e of None \<Rightarrow> True | Some ce \<Rightarrow> engine_inv ce)"

lemma execute_payload_engine:
  assumes "engine_ok e"
    and "execute_payload wz getA setA pv tx pl sender s e = (s', e', out)"
  shows "engine_ok e'" and "\<lbrakk>\<not> pv; pl = Some p; is_contract p\<rbrakk> \<Longrightarrow> \<nexists>r. out = Ret (Inr r)"
proof -
  have "engine_ok e' \<and> (\<not> pv \<and> pl = Some p \<and> is_contract p \<longrightarrow> (\<nexists>r. out = Ret (Inr r)))"
  proof (cases pl)
    case (Some q)
    show ?thesis
    proof (cases q)
      case (ContractDeploy d)
      show ?thesis
      proof (cases e)
        case (Some ce)
        obtain ce' res where dep: "DeployContract wz ce (tx_To tx) (cd_WASMCode d) (tx_To tx) = (ce', res)"
          by force
        have "engine_inv ce" using assms(1) Some by (simp add: engine_ok_def)
        note inv = this DeployContract_inv [OF this dep]
        then show ?thesis
          using assms(2) \<open>pl = Some q\<close> ContractDeploy Some dep
          by (auto simp: exec_deploy_def engine_ok_def Let_def
              split: if_splits go.splits sum.splits)
      qed (use assms \<open>pl = Some q\<close> ContractDeploy in \<open>auto simp: exec_deploy_def engine_ok_def\<close>)
    next
      case (ContractCall c)
      show ?thesis
      proof (cases e)
        case (Some ce)
        obtain ce' res where exe: "ExecuteContractWithResult wz ce (cc_Address c) = (ce', res)"
          by force
        have "engine_inv ce" using assms(1) Some by (simp add: engine_ok_def)
        note inv = this ExecuteContractWithResult_inv [OF this exe]
        then show ?thesis
          using assms(2) \<open>pl = Some q\<close> ContractCall Some exe
          by (auto simp: exec_call_def engine_ok_def split: if_splits go.splits sum.splits)
      qed (use assms \<open>pl = Some q\<close> ContractCall in \<open>auto simp: exec_call_def engine_ok_def\<close>)
    qed (use assms \<open>pl = Some q\<close> in \<open>auto split: prod.splits\<close>)
  qed (use assms in simp)
  then show "engine_ok e'" "\<lbrakk>\<not> pv; pl = Some p; is_contract p\<rbrakk> \<Longrightarrow> \<nexists>r. out = Ret (Inr r)" by auto
qed

lemma applyTransaction_engine:
  assumes "engine_ok e" and "applyTransactionWithKV L rcp getA setA pv time txn s e = (s', e', out)"
  shows "engine_ok e'" and "\<lbrakk>\<not> pv; out = Ret (Inr u)\<rbrakk> \<Longrightarrow> contract_free (lib_pw L) txn"
proof -
  have "engine_ok e' \<and> (\<not> pv \<and> out = Ret (Inr u) \<longrightarrow> contract_free (lib_pw L) txn)"
  proof (cases txn)
    case (Some tx)
    show ?thesis
    proof (cases "prepare_sender (lib_pw L) (lib_cl L) rcp getA s (Some tx) time")
      case (Inr r)
      obtain sender env b where r: "r = (sender, env, b)" by (cases r)
      obtain s1 e1 res where exe:
        "execute_payload (lib_wz L) getA setA pv tx (env_Payload env) sender s e = (s1, e1, res)"
        by (metis prod_cases3)
      have pl: "payload_of (lib_pw L) tx = env_Payload env"
        by (rule prepare_sender_payload [OF Inr [unfolded r]])
      have "e' = e1" and "out = Ret (Inr u) \<longrightarrow> (\<exists>x. res = Ret (Inr x))"
        using assms(2) by (auto simp: applyTransactionWithKV_def Some Inr r exe
            split: go.splits sum.splits prod.splits)
      then show ?thesis
        using execute_payload_engine [OF assms(1) exe]
        by (auto simp: contract_free_def Some pl split: option.split)
    qed (use assms in \<open>auto simp: applyTransactionWithKV_def Some\<close>)
  qed (use assms in \<open>auto simp: applyTransactionWithKV_def contract_free_def\<close>)
  then show "engine_ok e'" "\<lbrakk>\<not> pv; out = Ret (Inr u)\<rbrakk> \<Longrightarrow> contract_free (lib_pw L) txn" by auto
qed

lemma apply_transactions_engine:
  assumes "engine_ok e" and "apply_transactions L rcp getA setA pv time txs s e = (s', e', out)"
  shows "engine_ok e'" and "\<lbrakk>\<not> pv; out = Ret (Inr u)\<rbrakk> \<Longrightarrow> \<forall>txn\<in>set txs. contract_free (lib_pw L) txn"
proof -
  have "engine_ok e' \<and> (\<not> pv \<and> out = Ret (Inr u) \<longrightarrow> (\<forall>txn\<in>set txs. contract_free (lib_pw L) txn))"
    using assms
  proof (induction txs arbitrary: s e)
    case (Cons txn rest)
    obtain s1 e1 res where step: "applyTransactionWithKV L rcp getA setA pv time txn s e = (s1, e1, res)"
      by (metis prod_cases3)
    note eng = applyTransaction_engine [OF Cons.prems(1) step]
    show ?case
    proof (cases "\<exists>v. res = Ret (Inr v)")
      case True
      then show ?thesis using Cons.IH [OF eng(1)] Cons.prems(2) step eng(2) by auto
    next
      case False
      then show ?thesis using Cons.prems(2) step eng(1)
        by (auto split: go.splits sum.splits)
    qed
  qed auto
  then show "engine_ok e'" "\<lbrakk>\<not> pv; out = Ret (Inr u)\<rbrakk> \<Longrightarrow> \<forall>txn\<in>set txs. contract_free (lib_pw L) txn"
    by auto
qed

end
