(* ===== verification/Chain.thy ===== *)
theory Chain
  imports Ledger
begin

text \<open>
  Blocks over the store: the batch of \<open>ApplyBlock\<close> is a view in the sense of \<open>account_view\<close>, so
  the lemmas on sequences of transactions hold for blocks, and what is committed can be read
  back: the accounts, the block, the timestamp window and the state root.
\<close>

section \<open>The batch as a view of the accounts\<close>

locale chain_env = store_env "lib_pw L" "lib_pb L"
  for L :: "('kv, 'r, 'c, 'm) libs"

text \<open>The ledger stored in a database or a batch, and that every account sits at its address.\<close>

definition ledger :: "('kv, 'r, 'c, 'm) libs \<Rightarrow> 'kv \<Rightarrow> address \<Rightarrow> account" where
  "ledger L db = account_of (batch_get L) db"

definition well_addressed :: "('kv, 'r, 'c, 'm) libs \<Rightarrow> 'kv \<Rightarrow> bool" where
  "well_addressed L db \<longleftrightarrow> addressed (batch_get L) db"

context chain_env
begin

lemma batch_read_after_write:
  "batch_set L s (Some a) = Inr s' \<Longrightarrow>
   batch_get L s' addr = (if addr = acct_Address a then Inr (Some a) else batch_get L s addr)"
  using account_read_after_write [of s a s' addr]
  by (simp add: batch_get_def batch_set_def get_or_zero_def)

end

sublocale chain_env \<subseteq> batch: account_view "batch_get L" "batch_set L"
  by unfold_locales (rule batch_read_after_write)

context chain_env
begin

lemmas batch_view = batch.account_view_axioms

end

lemma account_range_keys:
  "\<not> bytes_of (CHR ''b'' # k) @ r < bytes_of accountPrefix @ [0xFF]"
  "\<not> bytes_of (CHR ''m'' # k) @ r < bytes_of accountPrefix @ [0xFF]"
  by (simp_all add: accountPrefix_def bytes_of_Cons)

section \<open>What a successful call has done\<close>

lemma push_timestamp_ok:
  assumes "push_timestamp n window t = Ret (Inr ts)"
  shows "0 \<le> n" and "ts = drop (length window + 1 - nat n) (window @ [t])" and "int (length ts) \<le> n"
  using assms by (auto simp: push_timestamp_def Let_def split: if_splits)

lemma ApplyBlock_ok:
  assumes "ApplyBlock L st (Some b) engine = (st', engine', Ret (Inr root))"
  obtains e1 window batch ts db d where
    "PreviewBlock L st (Some b) engine = (e1, Ret (Inr (bl_StateRoot b)))"
    "GetLastTimestamps (lib_pb L) (st_store st) = Inr window"
    "apply_transactions L (st_rcParams st) (batch_get L) (batch_set L) False
       (EffectiveTime (bl_Timestamp b) window (MaxSkewSec (st_rcParams st))) (bl_Transactions b)
       (DbNewBatch (lib_pb L) (st_store st)) e1 = (batch, engine', Ret (Inr ()))"
    "push_timestamp (WindowN (st_rcParams st)) window (bl_Timestamp b) = Ret (Inr ts)"
    "commit_block L ts b batch = Inr (db, root)" "st' = st\<lparr>st_store := db, st_dag := d\<rparr>"
    "d = (case AddNode (Some \<lparr>sn_RootHash = root, sn_Parents = [bl_PrevHash b],
         sn_Height = bl_Height b\<rparr>) (st_dag st) of Inl _ \<Rightarrow> st_dag st | Inr d \<Rightarrow> d)"
proof -
  obtain e1 where pre: "PreviewBlock L st (Some b) engine = (e1, Ret (Inr (bl_StateRoot b)))"
    using assms by (auto simp: ApplyBlock_def split: prod.splits go.splits sum.splits if_splits)
  obtain window where window: "GetLastTimestamps (lib_pb L) (st_store st) = Inr window"
    using assms by (auto simp: ApplyBlock_def pre split: sum.splits)
  obtain batch e2 out where run: "apply_transactions L (st_rcParams st) (batch_get L) (batch_set L) False
       (EffectiveTime (bl_Timestamp b) window (MaxSkewSec (st_rcParams st))) (bl_Transactions b)
       (DbNewBatch (lib_pb L) (st_store st)) e1 = (batch, e2, out)"
    by (metis prod_cases3)
  obtain u where out: "out = Ret (Inr u)" "e2 = engine'"
    using assms by (auto simp: ApplyBlock_def pre window run Let_def split: go.splits sum.splits prod.splits)
  obtain ts where ts: "push_timestamp (WindowN (st_rcParams st)) window (bl_Timestamp b) = Ret (Inr ts)"
    using assms by (auto simp: ApplyBlock_def pre window run out Let_def split: go.splits sum.splits prod.splits)
  obtain db where db: "commit_block L ts b batch = Inr (db, root)"
    using assms by (auto simp: ApplyBlock_def pre window run out ts Let_def split: sum.splits prod.splits)
  show ?thesis
    using assms that [OF pre window _ ts db] run out
    by (auto simp: ApplyBlock_def pre window run out ts db Let_def)
qed

lemma commit_block_ok:
  assumes "commit_block L ts b batch = Inr (db, root)"
  obtains b1 h b2 where "setLastTimestampsWithWriter (lib_pb L) batch ts = Inr b1"
    "ComputeStateRootFromReader (lib_pw L) (Sum256 (lib_cl L)) (lib_pb L) b1 = Inr root"
    "root = bl_StateRoot b" "HashBlock (lib_pw L) (Sum256 (lib_cl L)) (Some b) = Inr h"
    "setBlockWithWriter (lib_pw L) (lib_pb L) b1 (Some b) h = Inr b2" "DbCommit (lib_pb L) b2 = Inr db"
  using assms by (auto simp: commit_block_def)

context chain_env
begin

lemma ledger_batch [simp]: "ledger L (DbNewBatch (lib_pb L) db) = ledger L db"
  by (simp add: ledger_def account_of_def batch_get_def get_or_zero_def fun_eq_iff)

lemma well_addressed_batch [simp]: "well_addressed L (DbNewBatch (lib_pb L) db) = well_addressed L db"
  by (simp add: well_addressed_def addressed_def batch_get_def get_or_zero_def)

lemma commit_block_effect:
  assumes "commit_block L ts b batch = Inr (db, root)"
  shows "root = bl_StateRoot b" and "batch_get L db = batch_get L batch"
    and "length ts < 2 ^ 32 \<Longrightarrow> GetLastTimestamps (lib_pb L) db = Inr ts"
    and "ComputeStateRootFromReader (lib_pw L) (Sum256 (lib_cl L)) (lib_pb L) db = Inr root' \<Longrightarrow> root' = root"
    and "\<exists>h. HashBlock (lib_pw L) (Sum256 (lib_cl L)) (Some b) = Inr h
      \<and> (length h = 32 \<longrightarrow> length (bl_PrevHash b) = 32 \<longrightarrow> length (bl_StateRoot b) = 32 \<longrightarrow>
           GetBlockByHash (lib_pw L) (lib_pb L) db h = Inr (Some b)
         \<and> GetBlockByHeight (lib_pw L) (lib_pb L) db (bl_Height b) = Inr (Some b))"
proof -
  obtain b1 h b2 where w: "setLastTimestampsWithWriter (lib_pb L) batch ts = Inr b1"
    "ComputeStateRootFromReader (lib_pw L) (Sum256 (lib_cl L)) (lib_pb L) b1 = Inr root"
    "root = bl_StateRoot b" "HashBlock (lib_pw L) (Sum256 (lib_cl L)) (Some b) = Inr h"
    "setBlockWithWriter (lib_pw L) (lib_pb L) b1 (Some b) h = Inr b2" "DbCommit (lib_pb L) b2 = Inr db"
    using assms by (rule commit_block_ok)
  note blk = block_write [OF w(5)]
  show "root = bl_StateRoot b" by (rule w(3))
  show "batch_get L db = batch_get L batch"
    by (simp add: batch_get_def get_or_zero_def fun_eq_iff commit_accounts [OF w(6)] blk(1)
        timestamps_write_accounts [OF w(1)])
  show "GetLastTimestamps (lib_pb L) db = Inr ts" if "length ts < 2 ^ 32"
    using timestamps_after_write [OF w(1) that] blk(2)
    by (simp add: GetLastTimestamps_def get_commit [OF w(6)])
  show "root' = root"
    if "ComputeStateRootFromReader (lib_pw L) (Sum256 (lib_cl L)) (lib_pb L) db = Inr root'"
    using that w(2)
  proof (rule state_root_extensional)
    fix k assume "bytes_of accountPrefix \<le> k" "k < bytes_of accountPrefix @ [0xFF]"
    then have "k \<noteq> bytes_of blockPrefix @ h" "k \<noteq> bytes_of blockHeightPrefix @ MarshalUint64 (bl_Height b)"
      using account_range_keys(1) unfolding blockPrefix_def blockHeightPrefix_def by auto
    then show "DbGet (lib_pb L) db k = DbGet (lib_pb L) b1 k"
      using w(5) by (auto simp: get_commit [OF w(6)] setBlockWithWriter_def Let_def get_set)
  qed
  obtain bs where bs: "MarshalBlock (lib_pw L) (Some b) = Inr bs"
    using w(5) by (auto simp: setBlockWithWriter_def)
  show "\<exists>h. HashBlock (lib_pw L) (Sum256 (lib_cl L)) (Some b) = Inr h
      \<and> (length h = 32 \<longrightarrow> length (bl_PrevHash b) = 32 \<longrightarrow> length (bl_StateRoot b) = 32 \<longrightarrow>
           GetBlockByHash (lib_pw L) (lib_pb L) db h = Inr (Some b)
         \<and> GetBlockByHeight (lib_pw L) (lib_pb L) db (bl_Height b) = Inr (Some b))"
    by (intro exI [of _ h])
      (simp add: w(4) GetBlockByHash_def GetBlockByHeight_def get_commit [OF w(6)] blk(3,4) bs
        block_roundtrip [OF _ _ bs])
qed

text \<open>The accounts after a block are those of its transactions, run on the accounts before.\<close>

lemma ApplyBlock_ledger:
  assumes "ApplyBlock L st (Some b) engine = (st', engine', Ret (Inr root))"
    and "well_addressed L (st_store st)"
  shows "ledger_run (lib_pw L) (lib_cl L) (st_rcParams st) (ledger L (st_store st)) (bl_Transactions b)
      (ledger L (st_store st'))"
    and "well_addressed L (st_store st')" and "st_rcParams st' = st_rcParams st"
proof -
  obtain e1 window batch ts db d where
    run: "apply_transactions L (st_rcParams st) (batch_get L) (batch_set L) False
       (EffectiveTime (bl_Timestamp b) window (MaxSkewSec (st_rcParams st))) (bl_Transactions b)
       (DbNewBatch (lib_pb L) (st_store st)) e1 = (batch, engine', Ret (Inr ()))"
    and com: "commit_block L ts b batch = Inr (db, root)" and st': "st' = st\<lparr>st_store := db, st_dag := d\<rparr>"
    using assms(1) by (rule ApplyBlock_ok)
  have addr: "addressed (batch_get L) (DbNewBatch (lib_pb L) (st_store st))"
    using assms(2) well_addressed_batch by (simp add: well_addressed_def)
  have "account_of (batch_get L) db = account_of (batch_get L) batch"
    by (simp add: account_of_def fun_eq_iff commit_block_effect(2) [OF com])
  then show "ledger_run (lib_pw L) (lib_cl L) (st_rcParams st) (ledger L (st_store st)) (bl_Transactions b)
      (ledger L (st_store st'))"
    using batch.apply_transactions_run(1) [OF run addr] ledger_batch [of "st_store st"]
    by (simp add: ledger_def st')
  show "well_addressed L (st_store st')"
    using batch.apply_transactions_run(2) [OF run addr]
    by (simp add: well_addressed_def addressed_def st' commit_block_effect(2) [OF com])
  show "st_rcParams st' = st_rcParams st" by (simp add: st')
qed

end

section \<open>Chains of blocks\<close>

text \<open>Blocks applied one after the other, each over whatever engine the node has then.\<close>

inductive chain_run :: "('kv, 'r, 'c, 'm) libs \<Rightarrow> 'kv state \<Rightarrow> block list \<Rightarrow> 'kv state \<Rightarrow> bool"
  for L where
  Nil: "chain_run L st [] st"
| Cons: "ApplyBlock L st (Some b) e = (st1, e', Ret (Inr root)) \<Longrightarrow> chain_run L st1 bs st2
    \<Longrightarrow> chain_run L st (b # bs) st2"

context chain_env
begin

lemma chain_run_ledger:
  assumes "chain_run L st bs st'" and "well_addressed L (st_store st)"
  shows "ledger_run (lib_pw L) (lib_cl L) (st_rcParams st) (ledger L (st_store st))
      (concat (map bl_Transactions bs)) (ledger L (st_store st'))
    \<and> st_rcParams st' = st_rcParams st \<and> well_addressed L (st_store st')"
  using assms
proof (induction rule: chain_run.induct)
  case (Cons st b e st1 e' root bs st2)
  note blk = ApplyBlock_ledger [OF Cons(1) Cons.prems]
  have "ledger_run (lib_pw L) (lib_cl L) (st_rcParams st) (ledger L (st_store st1))
      (concat (map bl_Transactions bs)) (ledger L (st_store st2))
    \<and> st_rcParams st2 = st_rcParams st \<and> well_addressed L (st_store st2)"
    using Cons.IH [OF blk(2)] by (simp add: blk(3))
  then show ?case using ledger_run_append [OF blk(1)] by simp
qed (auto intro: ledger_run.Nil)

end

section \<open>Computing the root never fails on decodable accounts\<close>

definition decodable :: "protowire \<Rightarrow> 'kv pebble \<Rightarrow> 'kv \<Rightarrow> bool" where
  "decodable pw pb db \<longleftrightarrow> (\<forall>k v. bytes_of accountPrefix \<le> k \<longrightarrow> k < bytes_of accountPrefix @ [0xFF] \<longrightarrow>
     DbGet pb db k = Inr (Some v) \<longrightarrow> (\<exists>a. unmarshalAccount pw v = Inr a))"

lemma collect_accounts_total:
  "(\<And>k v. (k, v) \<in> set kvs \<Longrightarrow> \<exists>a. unmarshalAccount pw v = Inr a) \<Longrightarrow>
   \<exists>xs. collect_accounts pw (\<lambda>key acct. bind_err (marshalAccount pw (Some acct)) (\<lambda>val. Inr (key, val))) kvs = Inr xs"
proof (induction kvs)
  case (Cons kv kvs)
  obtain k v where kv: "kv = (k, v)" by (cases kv)
  obtain a where a: "unmarshalAccount pw v = Inr a" using Cons.prems [of k v] kv by auto
  obtain val where val: "marshalAccount pw (Some a) = Inr val" using marshalAccount_Some by blast
  show ?case using Cons.IH Cons.prems kv a val by auto
qed simp

context store_env
begin

lemma state_root_total:
  assumes "decodable pw pb db" and "DbScan pb db (bytes_of accountPrefix) (bytes_of accountPrefix @ [0xFF]) = Inr kvs"
  shows "\<exists>root. ComputeStateRootFromReader pw sha256 pb db = Inr root"
proof -
  have "\<exists>a. unmarshalAccount pw v = Inr a" if "(k, v) \<in> set kvs" for k v
    using assms(1) scan_entries [OF assms(2), of k v] that by (auto simp: decodable_def)
  then obtain xs where "collect_accounts pw (\<lambda>key acct. bind_err (marshalAccount pw (Some acct))
      (\<lambda>val. Inr (key, val))) kvs = Inr xs"
    using collect_accounts_total [of kvs pw] by blast
  then have "state_items pw pb db = Inr (sort_key fst xs)"
    by (simp add: state_items_def iterateAccounts_def assms(2))
  then show ?thesis by (simp add: ComputeStateRootFromReader_def Let_def)
qed

lemma decodable_account_write:
  "decodable pw pb s \<Longrightarrow> setAccountWithWriter pw pb s (Some a) = Inr s' \<Longrightarrow> decodable pw pb s'"
  by (auto simp: decodable_def setAccountWithWriter_def get_set dest: account_roundtrip split: if_splits)

end

end
