(* ===== verification/Sample.thy ===== *)
theory Sample
  imports Chain
begin

text \<open>
  A small chain on which the witnesses run: the interfaces instantiated by concrete functions
  (the wire format, the store in memory, a runtime that accepts every module, and stand-ins for
  the cryptography that satisfy the shapes the code checks), one funded and staked account,
  and signed transactions of it. Nothing here models code of the repository.
\<close>

section \<open>Libraries and keys\<close>

definition toy_signature :: "bytes \<Rightarrow> bytes" where
  "toy_signature msg = take 64 (msg @ replicate 64 0)"

definition toy_crypto :: crypto_lib where
  "toy_crypto = \<lparr>Sum256 = pad_hash, Ed25519Verify = (\<lambda>pk msg sg. sg = toy_signature msg),
     Ed25519Sign = (\<lambda>sk msg. toy_signature msg), ConvertBits = (\<lambda>b from_bits to_bits pad. Inr b),
     Bech32Encode = (\<lambda>hrp b. Inr (hrp @ string_of b)),
     Bech32Decode = (\<lambda>s. Inr (take 3 s, bytes_of (drop 3 s)))\<rparr>"

definition toy_libs :: "((bytes, bytes) RBT.rbt, unit, nat, nat) libs" where
  "toy_libs = \<lparr>lib_pw = wire_format, lib_cl = toy_crypto, lib_pb = memory_store, lib_wz = ok_runtime\<rparr>"

lemma toy_libs_simps [simp]:
  "lib_pw toy_libs = wire_format" "lib_cl toy_libs = toy_crypto" "lib_pb toy_libs = memory_store"
  "lib_wz toy_libs = ok_runtime"
  by (simp_all add: toy_libs_def)

interpretation toy: chain_env toy_libs
  unfolding chain_env_def toy_libs_simps by (rule memory_env.store_env_axioms)

definition toy_key :: bytes where "toy_key = replicate 32 65"
definition toy_alice :: address where "toy_alice = ''ocn'' @ replicate 20 (CHR ''A'')"

lemma toy_address: "AddressFromPubKey toy_crypto toy_key = Inr toy_alice"
  by code_simp

lemma length_toy_key [simp]: "length toy_key = 32" "toy_key \<noteq> []"
  by (simp_all add: toy_key_def)

lemma toy_alice_nonempty [simp]: "toy_alice \<noteq> []"
  by (simp add: toy_alice_def)

section \<open>Signed transactions\<close>

definition toy_unsigned :: "u64 \<Rightarrow> address \<Rightarrow> payload \<Rightarrow> transaction" where
  "toy_unsigned n to p = \<lparr>tx_From = toy_alice, tx_To = to, tx_Nonce = n,
     tx_Payload = projr (EncodePayload wire_format (Some p) toy_key), tx_Signature = []\<rparr>"

definition toy_tx :: "u64 \<Rightarrow> address \<Rightarrow> payload \<Rightarrow> transaction" where
  "toy_tx n to p = (toy_unsigned n to p)\<lparr>tx_Signature :=
     toy_signature (projr (SigningBytes wire_format (Some (toy_unsigned n to p))))\<rparr>"

lemma toy_tx_simps [simp]:
  "tx_From (toy_tx n to p) = toy_alice" "tx_To (toy_tx n to p) = to" "tx_Nonce (toy_tx n to p) = n"
  by (simp_all add: toy_tx_def toy_unsigned_def)

lemma toy_decode [simp]:
  "DecodePayload wire_format (tx_Payload (toy_tx n to p))
     = Inr \<lparr>env_Payload = Some p, env_SenderPubKey = toy_key\<rparr>"
proof -
  obtain out where out: "EncodePayload wire_format (Some p) toy_key = Inr out"
    using EncodePayload_Some by blast
  then have "DecodePayload wire_format out = Inr \<lparr>env_Payload = Some p, env_SenderPubKey = toy_key\<rparr>"
    by (rule wire.EncodePayload_decodes)
  then show ?thesis by (simp add: toy_tx_def toy_unsigned_def out)
qed

lemma toy_verify [simp]: "VerifySignature wire_format toy_crypto (Some (toy_tx n to p)) toy_key = Inr ()"
proof -
  have same: "(toy_tx n to p)\<lparr>tx_Signature := []\<rparr> = (toy_unsigned n to p)\<lparr>tx_Signature := []\<rparr>"
    by (simp add: toy_tx_def)
  have "SigningBytes wire_format (Some (toy_tx n to p)) = SigningBytes wire_format (Some (toy_unsigned n to p))"
    unfolding SigningBytes_Some same ..
  moreover obtain msg where "SigningBytes wire_format (Some (toy_unsigned n to p)) = Inr msg"
    using MarshalTransaction_Some by (auto simp: SigningBytes_Some)
  ultimately show ?thesis
    by (simp add: VerifySignature_ok Ed25519PublicKeySize_def Ed25519SignatureSize_def toy_crypto_def)
      (simp add: toy_tx_def toy_signature_def)
qed

lemma toy_resolve:
  assumes "stored = [] \<or> stored = toy_key"
  shows "ResolveSenderPubKey toy_crypto (Some (toy_tx n to p)) stored toy_key = Inr (toy_key, stored = [])"
  using assms by (auto simp: ResolveSenderPubKey_ok Ed25519PublicKeySize_def toy_address)

section \<open>A funded account\<close>

definition toy_account :: account where
  "toy_account = (zero_account toy_alice)\<lparr>acct_Balance := 1000, acct_Stake := 100, acct_RC := 900\<rparr>"

text \<open>A view that is a plain map: the simplest provider of the interface.\<close>

definition map_get :: "(address \<rightharpoonup> account) \<Rightarrow> address \<Rightarrow> error + account option" where
  "map_get s addr = Inr (s addr)"

definition map_set :: "(address \<rightharpoonup> account) \<Rightarrow> account option \<Rightarrow> error + (address \<rightharpoonup> account)" where
  "map_set s acct = (case acct of None \<Rightarrow> Inl ''account is nil'' | Some a \<Rightarrow> Inr (s(acct_Address a \<mapsto> a)))"

interpretation map_view: account_view map_get map_set
  by unfold_locales (auto simp: map_get_def map_set_def)

lemma toy_prepare:
  assumes "getA s toy_alice = Inr (Some a)" and "acct_PubKey a = [] \<or> acct_PubKey a = toy_key"
    and "acct_Nonce a = n" and "to \<noteq> []"
    and "MarshalTransaction wire_format (Some (toy_tx n to p)) = Inr b"
  shows "prepare_sender wire_format toy_crypto rcp getA s (Some (toy_tx n to p)) time
    = Inr (a\<lparr>acct_PubKey := toy_key,
         acct_RC := fst (Regen rcp (acct_RC a) (acct_Stake a) (acct_LastRCEffectiveTime a) time),
         acct_LastRCEffectiveTime := time, acct_RCMax := RCMax rcp (acct_Stake a)\<rparr>,
       \<lparr>env_Payload = Some p, env_SenderPubKey = toy_key\<rparr>, b)"
proof -
  obtain rc where R: "Regen rcp (acct_RC a) (acct_Stake a) (acct_LastRCEffectiveTime a) time = (rc, time)"
    using Regen_time by (metis prod.collapse)
  have upd: "(if acct_PubKey a = [] then a\<lparr>acct_PubKey := toy_key\<rparr> else a) = a\<lparr>acct_PubKey := toy_key\<rparr>"
    using assms(2) by (cases a) auto
  show ?thesis
    by (simp add: prepare_sender_def assms(1,3-5) wrap_err_def toy_resolve [OF assms(2)] upd Let_def R)
      (use assms(2) in \<open>cases a; auto\<close>)
qed

section \<open>Transactions that succeed\<close>

definition toy_pay :: payload where
  "toy_pay = Transfer \<lparr>tr_To = ''bob'', tr_Amount = 5\<rparr>"

definition toy_self_pay :: payload where
  "toy_self_pay = Transfer \<lparr>tr_To = toy_alice, tr_Amount = 5\<rparr>"

definition toy_view :: "address \<rightharpoonup> account" where
  "toy_view = [toy_alice \<mapsto> toy_account]"

lemma toy_pay_size:
  "map_sum id length (MarshalTransaction wire_format (Some (toy_tx 0 ''bob'' toy_pay))) = Inr 143"
  "map_sum id length (MarshalTransaction wire_format (Some (toy_tx 0 ''bob'' toy_self_pay))) = Inr 163"
  by code_simp+

lemma toy_regen: "Regen test_params 900 100 0 10 = (1000, 10)" "RCMax test_params 100 = 1000"
  by code_simp+

text \<open>A run over any view in which no write fails: the sender has the credits for any transaction
  of at most nine hundred bytes and two writes.\<close>

definition toy_sender :: account where
  "toy_sender = toy_account\<lparr>acct_PubKey := toy_key, acct_RC := 1000, acct_LastRCEffectiveTime := 10,
     acct_RCMax := 1000\<rparr>"

lemma toy_apply:
  assumes get: "getA s toy_alice = Inr (Some toy_account)"
    and total_set: "\<And>s a. \<exists>s'. setA s (Some a) = Inr s'"
    and exe: "execute_payload ok_runtime getA setA pv (toy_tx 0 ''bob'' p) (Some p) toy_sender s e
      = (s1, e1, Ret (Inr (sender, 0, w)))"
    and sender: "acct_RC sender = 1000" "acct_Address sender = toy_alice" "w \<le> 2"
    and len: "map_sum id length (MarshalTransaction wire_format (Some (toy_tx 0 ''bob'' p))) = Inr n"
      "n \<le> 900"
  shows "\<exists>a s2. applyTransactionWithKV toy_libs test_params getA setA pv 10 (Some (toy_tx 0 ''bob'' p))
      s e = (s2, e1, Ret (Inr ())) \<and> setA s1 (Some a) = Inr s2 \<and> acct_Address a = toy_alice
    \<and> acct_Balance a = acct_Balance sender \<and> acct_Nonce a = acct_Nonce sender + 1"
proof -
  obtain b where b: "MarshalTransaction wire_format (Some (toy_tx 0 ''bob'' p)) = Inr b" "length b = n"
    using len(1) by (cases "MarshalTransaction wire_format (Some (toy_tx 0 ''bob'' p))") auto
  have prep: "prepare_sender wire_format toy_crypto test_params getA s (Some (toy_tx 0 ''bob'' p)) 10
    = Inr (toy_sender, \<lparr>env_Payload = Some p, env_SenderPubKey = toy_key\<rparr>, b)"
    using toy_prepare [of getA s toy_account 0 "''bob''" p b test_params 10] toy_regen b(1) get
    by (simp add: toy_sender_def toy_account_def zero_account_def)
  have "unat (Cost test_params (word_of_nat n) 0 w) \<le> 900 + 100"
    using sender(3) len(2) by (simp add: unat_Cost test_params_def unat_of_nat word_le_nat_alt)
  then have cost: "\<not> 1000 < Cost test_params (word_of_nat n) 0 w" by (simp add: word_less_nat_alt)
  define a where "a = sender\<lparr>acct_RC := 1000 - Cost test_params (word_of_nat n) 0 w,
    acct_Nonce := acct_Nonce sender + 1, acct_RCMax := RCMax test_params (acct_Stake sender)\<rparr>"
  obtain s2 where s2: "setA s1 (Some a) = Inr s2" using total_set by blast
  have "applyTransactionWithKV toy_libs test_params getA setA pv 10 (Some (toy_tx 0 ''bob'' p)) s e
      = (s2, e1, Ret (Inr ()))"
    using exe sender cost b(2) s2
    by (simp add: applyTransactionWithKV_def prep charge_sender_def Let_def a_def)
  then show ?thesis using s2 sender(2) by (intro exI [of _ a] exI [of _ s2]) (simp add: a_def)
qed

definition toy_bob :: account where
  "toy_bob = (zero_account ''bob'')\<lparr>acct_Balance := 5\<rparr>"

lemma toy_transfer_applies:
  assumes "getA s toy_alice = Inr (Some toy_account)" and "getA s ''bob'' = Inr acct"
    and "or_zero ''bob'' acct = zero_account ''bob''" and total_set: "\<And>s a. \<exists>s'. setA s (Some a) = Inr s'"
  obtains s1 s2 a where "setA s (Some toy_bob) = Inr s1" "setA s1 (Some a) = Inr s2"
    "applyTransactionWithKV toy_libs test_params getA setA pv 10 (Some (toy_tx 0 ''bob'' toy_pay)) s e
      = (s2, e, Ret (Inr ()))"
    "acct_Address a = toy_alice" "acct_Balance a = 995" "acct_Nonce a = 1"
proof -
  obtain s1 where s1: "setA s (Some toy_bob) = Inr s1" using total_set by blast
  have bob: "(or_zero ''bob'' acct)\<lparr>acct_Balance := acct_Balance (or_zero ''bob'' acct) + 5\<rparr> = toy_bob"
    unfolding assms(3) by (simp add: toy_bob_def zero_account_def)
  have "execute_payload ok_runtime getA setA pv (toy_tx 0 ''bob'' toy_pay) (Some toy_pay) toy_sender s e
    = (s1, e, Ret (Inr (toy_sender\<lparr>acct_Balance := 995\<rparr>, 0, 2)))"
    using s1 bob assms(2)
    by (simp add: toy_pay_def exec_transfer_def Let_def toy_sender_def toy_account_def)
  from toy_apply [OF assms(1) total_set this _ _ _ toy_pay_size(1)] show ?thesis
    using that [OF s1] by (auto simp: toy_sender_def toy_account_def zero_account_def)
qed

lemma map_set_total: "\<exists>s'. map_set s (Some a) = Inr s'"
  by (simp add: map_set_def)

lemma toy_pay_applies:
  "\<exists>a. applyTransactionWithKV toy_libs test_params map_get map_set False 10 (Some (toy_tx 0 ''bob'' toy_pay))
      toy_view None = (toy_view(''bob'' \<mapsto> toy_bob, toy_alice \<mapsto> a), None, Ret (Inr ()))
    \<and> acct_Balance a = 995 \<and> acct_Nonce a = 1"
proof -
  have "''bob'' \<noteq> toy_alice" by (simp add: toy_alice_def)
  then have get: "map_get toy_view toy_alice = Inr (Some toy_account)" "map_get toy_view ''bob'' = Inr None"
    by (simp_all add: map_get_def toy_view_def)
  show ?thesis
    using get(1,2) or_zero_simps(1) map_set_total
    by (rule toy_transfer_applies [of map_get toy_view None map_set False None])
      (auto simp: map_set_def toy_bob_def)
qed

lemma toy_self_pay_applies:
  "\<exists>s'. applyTransactionWithKV toy_libs test_params map_get map_set False 10
        (Some (toy_tx 0 ''bob'' toy_self_pay)) toy_view None = (s', None, Ret (Inr ()))"
proof -
  have get: "map_get toy_view toy_alice = Inr (Some toy_account)"
    by (simp add: map_get_def toy_view_def)
  have "execute_payload ok_runtime map_get map_set False (toy_tx 0 ''bob'' toy_self_pay) (Some toy_self_pay)
      toy_sender toy_view None
    = (toy_view(toy_alice \<mapsto> toy_account\<lparr>acct_Balance := 1005\<rparr>), None,
       Ret (Inr (toy_sender\<lparr>acct_Balance := 995\<rparr>, 0, 2)))"
    by (simp add: toy_self_pay_def exec_transfer_def map_get_def map_set_def toy_view_def toy_account_def
        toy_sender_def zero_account_def Let_def)
  from toy_apply [OF get map_set_total this _ _ _ toy_pay_size(2)] show ?thesis
    by (auto simp: toy_sender_def toy_account_def zero_account_def)
qed

lemma toy_addressed: "addressed map_get toy_view"
  by (simp add: addressed_def map_get_def toy_view_def toy_account_def)

section \<open>A block that is applied\<close>

definition toy_db :: "(bytes, bytes) RBT.rbt" where
  "toy_db = RBT.insert (bytes_of (accountPrefix @ toy_alice))
     (projr (marshalAccount wire_format (Some toy_account))) RBT.empty"

definition toy_state :: "(bytes, bytes) RBT.rbt state" where
  "toy_state = NewState toy_db NewDAG test_params"

definition toy_block :: "hash \<Rightarrow> transaction option list \<Rightarrow> block" where
  "toy_block root txs = \<lparr>bl_Height = 1, bl_PrevHash = zero_hash, bl_StateRoot = root, bl_Timestamp = 10,
     bl_Proposer = toy_alice, bl_Transactions = txs, bl_ValidatorSigs = []\<rparr>"

lemma toy_block_simps [simp]:
  "bl_StateRoot (toy_block root txs) = root" "bl_Timestamp (toy_block root txs) = 10"
  "bl_Transactions (toy_block root txs) = txs" "bl_ValidatorSigs (toy_block root txs) = []"
  "bl_PrevHash (toy_block root txs) = zero_hash" "bl_Height (toy_block root txs) = 1"
  by (simp_all add: toy_block_def)

lemma toy_state_simps [simp]: "st_store toy_state = toy_db" "st_rcParams toy_state = test_params"
  by (simp_all add: toy_state_def NewState_def)

lemma toy_db_written: "batch_set toy_libs RBT.empty (Some toy_account) = Inr toy_db"
proof -
  obtain v where "marshalAccount wire_format (Some toy_account) = Inr v" using marshalAccount_Some by blast
  then show ?thesis
    by (simp add: batch_set_def setAccountWithWriter_def memory_store_def toy_db_def toy_account_def
        del: bytes_of_append)
qed

lemma toy_db_reads:
  "batch_get toy_libs toy_db toy_alice = Inr (Some toy_account)"
  "batch_get toy_libs toy_db ''bob'' = Inr (Some (zero_account ''bob''))"
  "well_addressed toy_libs toy_db"
proof -
  have empty: "batch_get toy_libs RBT.empty x = Inr (Some (zero_account x))" for x
    by (simp add: batch_get_def get_or_zero_def getAccountFromReader_def memory_store_def)
  have get: "batch_get toy_libs toy_db x = Inr (Some (if x = toy_alice then toy_account else zero_account x))" for x
    using toy.batch_read_after_write [OF toy_db_written, of x] by (simp add: empty toy_account_def)
  show "batch_get toy_libs toy_db toy_alice = Inr (Some toy_account)" by (simp add: get)
  show "batch_get toy_libs toy_db ''bob'' = Inr (Some (zero_account ''bob''))"
    by (simp add: get toy_alice_def)
  show "well_addressed toy_libs toy_db"
    by (simp add: well_addressed_def addressed_def get toy_account_def)
qed

lemma batch_set_total: "\<exists>s'. batch_set toy_libs s (Some a) = Inr s'"
  using marshalAccount_Some [of wire_format a]
  by (auto simp: batch_set_def setAccountWithWriter_def memory_store_def)

lemma memory_batch [simp]: "DbNewBatch memory_store db = db" "DbCommit memory_store db = Inr db"
  by (simp_all add: memory_store_def)

lemma memory_scan: "\<exists>kvs. DbScan memory_store db lo hi = Inr kvs"
  by (simp add: memory_store_def)

lemma toy_db_decodable: "decodable wire_format memory_store toy_db"
proof -
  have "decodable wire_format memory_store RBT.empty" by (simp add: decodable_def memory_store_def)
  then show ?thesis
    using memory_env.decodable_account_write toy_db_written by (auto simp: batch_set_def)
qed

lemma toy_pay_contract_free: "contract_free wire_format (Some (toy_tx n to toy_pay))"
  by (simp add: contract_free_def payload_of_def toy_pay_def)

lemma toy_pay_batch:
  obtains s where "\<And>pv. apply_transactions toy_libs test_params (batch_get toy_libs) (batch_set toy_libs) pv 10
      [Some (toy_tx 0 ''bob'' toy_pay)] toy_db e = (s, e, Ret (Inr ()))"
    and "decodable wire_format memory_store s"
proof -
  obtain s1 s2 a where run: "batch_set toy_libs toy_db (Some toy_bob) = Inr s1" "batch_set toy_libs s1 (Some a) = Inr s2"
    "applyTransactionWithKV toy_libs test_params (batch_get toy_libs) (batch_set toy_libs) False 10
      (Some (toy_tx 0 ''bob'' toy_pay)) toy_db e = (s2, e, Ret (Inr ()))"
    using toy_db_reads(1,2) or_zero_simps(2) batch_set_total by (rule toy_transfer_applies)
  have "apply_transactions toy_libs test_params (batch_get toy_libs) (batch_set toy_libs) False 10
      [Some (toy_tx 0 ''bob'' toy_pay)] toy_db e = (s2, e, Ret (Inr ()))"
    by (simp add: run(3))
  moreover from this have "apply_transactions toy_libs test_params (batch_get toy_libs) (batch_set toy_libs) True 10
      [Some (toy_tx 0 ''bob'' toy_pay)] toy_db e = (s2, e, Ret (Inr ()))"
    using toy_pay_contract_free by (subst apply_transactions_preview) simp_all
  moreover have "decodable wire_format memory_store s2"
    using run(1,2) memory_env.decodable_account_write [OF memory_env.decodable_account_write
        [OF toy_db_decodable, of toy_bob s1], of a s2]
    by (simp add: batch_set_def)
  ultimately show ?thesis using that [of s2] by (metis (full_types))
qed

text \<open>The block is previewed to its root, and then applied.\<close>

lemma memory_meta_write:
  assumes "decodable wire_format memory_store s"
  shows "decodable wire_format memory_store (RBT.insert (bytes_of metaLastTimestamps) v s)"
  using assms account_range_keys(2) [of _ "[]"]
  by (auto simp: decodable_def memory_store_def metaLastTimestamps_def split: if_splits)

lemma toy_block_hashes:
  assumes "None \<notin> set txs"
  obtains h m where "HashBlock wire_format pad_hash (Some (toy_block root txs)) = Inr h"
    "MarshalBlock wire_format (Some (toy_block root txs)) = Inr m" "length h = 32"
proof -
  obtain e where e: "put_transactions wire_format [] txs = Inr e"
    using wire.put_transactions_total [OF assms] by blast
  define b where "b = block_header wire_format (toy_block root txs) @ e"
  have b: "MarshalBlockForHash wire_format (Some (toy_block root txs)) = Inr b"
    using e by (simp add: wire.MarshalBlockForHash_eq b_def)
  then have "MarshalBlock wire_format (Some (toy_block root txs)) = Inr b"
    by (simp add: wire.MarshalBlock_eq)
  with b show ?thesis
    using length_pad_hash by (intro that [of "pad_hash b" b]) (simp_all add: HashBlock_def HashBytes_def)
qed

lemma toy_block_applies:
  obtains root st' where "length root = 32"
    "ApplyBlock toy_libs toy_state (Some (toy_block root [Some (toy_tx 0 ''bob'' toy_pay)])) e
       = (st', e, Ret (Inr root))"
    "PreviewBlock toy_libs toy_state (Some (toy_block root [Some (toy_tx 0 ''bob'' toy_pay)])) e
       = (e, Ret (Inr root))"
proof -
  let ?txs = "[Some (toy_tx 0 ''bob'' toy_pay)]"
  obtain s where run: "\<And>pv. apply_transactions toy_libs test_params (batch_get toy_libs) (batch_set toy_libs) pv 10
      ?txs toy_db e = (s, e, Ret (Inr ()))" and dec: "decodable wire_format memory_store s"
    using toy_pay_batch [of e] by blast
  have root_total: "\<exists>r. ComputeStateRootFromReader wire_format pad_hash memory_store db = Inr r"
    if "decodable wire_format memory_store db" for db
    using memory_env.state_root_total [OF that] memory_scan by blast
  obtain root where root: "ComputeStateRootFromReader wire_format pad_hash memory_store s = Inr root"
    using root_total [OF dec] by blast
  define s1 where "s1 = RBT.insert (bytes_of metaLastTimestamps) (encodeTimestamps [10]) s"
  obtain root1 where root1: "ComputeStateRootFromReader wire_format pad_hash memory_store s1 = Inr root1"
    using root_total memory_meta_write [OF dec] unfolding s1_def by blast
  have "root1 = root"
    by (rule memory.state_root_extensional [OF root1 root])
      (use account_range_keys(2) [of _ "[]"] in \<open>auto simp: s1_def memory_store_def metaLastTimestamps_def\<close>)
  note same_root = root1 [unfolded this]
  obtain h m where h: "HashBlock wire_format pad_hash (Some (toy_block root ?txs)) = Inr h"
    "MarshalBlock wire_format (Some (toy_block root ?txs)) = Inr m"
    by (rule toy_block_hashes [of ?txs]) simp
  have ts: "GetLastTimestamps memory_store toy_db = Inr []"
    by (simp add: GetLastTimestamps_def memory_store_def toy_db_def key_defs del: bytes_of_append)
  have pre: "PreviewBlock toy_libs toy_state (Some (toy_block root ?txs)) e = (e, Ret (Inr root))"
    by (simp add: PreviewBlock_def ts EffectiveTime_def run del: apply_transactions.simps)
      (simp add: root toy_crypto_def)
  have set_ts: "setLastTimestampsWithWriter memory_store s [10] = Inr s1"
    by (simp add: setLastTimestampsWithWriter_def memory_store_def s1_def)
  obtain s2 where set_blk: "setBlockWithWriter wire_format memory_store s1 (Some (toy_block root ?txs)) h = Inr s2"
    using h(2) by (simp add: setBlockWithWriter_def memory_store_def Let_def)
  have com: "commit_block toy_libs [10] (toy_block root ?txs) s = Inr (s2, root)"
    using set_ts same_root h(1) set_blk
    by (simp add: commit_block_def toy_crypto_def)
  have push: "push_timestamp (WindowN test_params) [] 10 = Ret (Inr [10])"
    by (simp add: push_timestamp_def test_params_def)
  obtain st' where st': "ApplyBlock toy_libs toy_state (Some (toy_block root ?txs)) e = (st', e, Ret (Inr root))"
    using push com
    by (simp add: ApplyBlock_def pre ts EffectiveTime_def run Let_def del: apply_transactions.simps)
  have "length root = 32"
    using root
    by (auto simp: ComputeStateRootFromReader_def Let_def zero_hash_def min_def split: if_splits)
  then show ?thesis using st' pre by (rule that)
qed

section \<open>A block with a contract call\<close>

definition toy_call :: payload where
  "toy_call = ContractCall \<lparr>cc_Address = ''c'', cc_Method = ''m'', cc_Args = []\<rparr>"

lemma toy_call_size:
  "map_sum id length (MarshalTransaction wire_format (Some (toy_tx 0 ''bob'' toy_call))) = Inr 142"
  by code_simp

lemma toy_call_previews:
  obtains root where
    "PreviewBlock toy_libs toy_state (Some (toy_block root [Some (toy_tx 0 ''bob'' toy_call)]))
       (Some (NewContractEngine ())) = (Some (NewContractEngine ()), Ret (Inr root))"
proof -
  let ?e = "Some (NewContractEngine ()) :: (unit, nat, nat) contract_engine option"
  have "execute_payload ok_runtime (batch_get toy_libs) (batch_set toy_libs) True (toy_tx 0 ''bob'' toy_call)
      (Some toy_call) toy_sender toy_db ?e = (toy_db, ?e, Ret (Inr (toy_sender, 0, 0)))"
    by (simp add: toy_call_def exec_call_def EstimateContractCall_def EstimateStateWrites_def
        metrics_of_def NewContractEngine_def)
  from toy_apply [OF toy_db_reads(1) batch_set_total this _ _ _ toy_call_size]
  obtain s a where run: "applyTransactionWithKV toy_libs test_params (batch_get toy_libs) (batch_set toy_libs) True 10
      (Some (toy_tx 0 ''bob'' toy_call)) toy_db ?e = (s, ?e, Ret (Inr ()))"
    and wr: "batch_set toy_libs toy_db (Some a) = Inr s"
    by (auto simp: toy_sender_def toy_account_def zero_account_def)
  have "decodable wire_format memory_store s"
    using memory_env.decodable_account_write [OF toy_db_decodable, of a s] wr by (simp add: batch_set_def)
  then obtain root where root: "ComputeStateRootFromReader wire_format pad_hash memory_store s = Inr root"
    using memory_env.state_root_total memory_scan by blast
  have "GetLastTimestamps memory_store toy_db = Inr []"
    by (simp add: GetLastTimestamps_def memory_store_def toy_db_def key_defs del: bytes_of_append)
  then show ?thesis
    using root by (intro that) (simp add: PreviewBlock_def EffectiveTime_def run toy_crypto_def)
qed

end
