(* ===== verification/Preview.thy ===== *)
theory Preview
  imports Chain
begin

text \<open>
  The preview of a block and its application: a preview leaves the contract engine alone, and over a
  store that does not fail a block without contract payloads is applied as it was previewed.
\<close>

section \<open>What a preview leaves alone\<close>

lemma execute_preview_engine:
  assumes "execute_payload wz getA setA True tx p sender s e = (s', e', out)"
  shows "e' = e"
  using assms
  by (cases p rule: option.exhaust; cases "the p")
    (auto simp: exec_deploy_def exec_call_def exec_transfer_def Let_def
      split: option.splits sum.splits go.splits prod.splits if_splits)

lemma applyTransaction_preview_engine:
  "applyTransactionWithKV L rcp getA setA True time txn s e = (s', e', out) \<Longrightarrow> e' = e"
  by (auto simp: applyTransactionWithKV_def dest!: execute_preview_engine
      split: option.splits sum.splits go.splits prod.splits)

lemma apply_transactions_preview_engine:
  "apply_transactions L rcp getA setA True time txs s e = (s', e', out) \<Longrightarrow> e' = e"
proof (induction txs arbitrary: s e)
  case (Cons txn txs)
  obtain s1 e1 r where step: "applyTransactionWithKV L rcp getA setA True time txn s e = (s1, e1, r)"
    by (metis prod_cases3)
  then show ?case
    using Cons applyTransaction_preview_engine [OF step] by (auto split: go.splits sum.splits)
qed simp

lemma PreviewBlock_engine: "PreviewBlock L st blk e = (e', out) \<Longrightarrow> e' = e"
  by (auto simp: PreviewBlock_def Let_def dest!: apply_transactions_preview_engine
      split: option.splits sum.splits go.splits prod.splits)

lemma PreviewBlock_root:
  "PreviewBlock L st (Some (b\<lparr>bl_StateRoot := s\<rparr>)) e = PreviewBlock L st (Some b) e"
  by (simp add: PreviewBlock_def Let_def split: sum.split)

section \<open>Application after a preview\<close>

text \<open>A store whose writes, commits and scans do not fail.\<close>

definition io_ok :: "'kv pebble \<Rightarrow> bool" where
  "io_ok pb \<longleftrightarrow> (\<forall>db k v. \<exists>db'. DbSet pb db k v = Inr db') \<and> (\<forall>b. \<exists>db. DbCommit pb b = Inr db) \<and>
     (\<forall>db lo hi. \<exists>kvs. DbScan pb db lo hi = Inr kvs)"

context pebble_laws
begin

lemma state_root_carries:
  assumes "ComputeStateRootFromReader pw h pb r = Inr root" and "io_ok pb"
    and "\<And>k. bytes_of accountPrefix \<le> k \<Longrightarrow> k < bytes_of accountPrefix @ [0xFF] \<Longrightarrow> DbGet pb r k = DbGet pb r' k"
  shows "ComputeStateRootFromReader pw h pb r' = Inr root"
proof -
  obtain xs where xs: "DbScan pb r (bytes_of accountPrefix) (bytes_of accountPrefix @ [0xFF]) = Inr xs"
    using assms(2) unfolding io_ok_def by blast
  obtain ys where ys: "DbScan pb r' (bytes_of accountPrefix) (bytes_of accountPrefix @ [0xFF]) = Inr ys"
    using assms(2) unfolding io_ok_def by blast
  have "xs = ys" using xs ys assms(3) by (rule scan_extensional)
  then show ?thesis using assms(1) xs ys
    by (simp add: ComputeStateRootFromReader_def state_items_def iterateAccounts_def)
qed

end

lemma apply_transactions_some:
  "apply_transactions L rcp getA setA pv time txs s e = (s', e', Ret (Inr u)) \<Longrightarrow> None \<notin> set txs"
proof (induction txs arbitrary: s e)
  case (Cons txn txs)
  then show ?case
    by (cases txn) (auto simp: applyTransactionWithKV_def split: prod.splits go.splits sum.splits)
qed simp

lemma PreviewBlock_sigs:
  "PreviewBlock L st (Some (b\<lparr>bl_ValidatorSigs := s\<rparr>)) e = PreviewBlock L st (Some b) e"
  by (simp add: PreviewBlock_def Let_def split: sum.split)

lemma memory_io_ok: "io_ok memory_store"
  by (simp add: io_ok_def memory_store_def)

context chain_env
begin

lemma commit_block_total:
  assumes "io_ok (lib_pb L)" and "None \<notin> set (bl_Transactions b)"
    and "ComputeStateRootFromReader (lib_pw L) (Sum256 (lib_cl L)) (lib_pb L) batch = Inr (bl_StateRoot b)"
  shows "\<exists>db. commit_block L ts b batch = Inr (db, bl_StateRoot b)
    \<and> ComputeStateRootFromReader (lib_pw L) (Sum256 (lib_cl L)) (lib_pb L) db = Inr (bl_StateRoot b)"
proof -
  obtain b1 where b1: "DbSet (lib_pb L) batch (bytes_of metaLastTimestamps) (encodeTimestamps ts) = Inr b1"
    using assms(1) unfolding io_ok_def by blast
  have root: "ComputeStateRootFromReader (lib_pw L) (Sum256 (lib_cl L)) (lib_pb L) b1 = Inr (bl_StateRoot b)"
  proof (rule state_root_carries [OF assms(3,1)])
    fix k assume "bytes_of accountPrefix \<le> k" "k < bytes_of accountPrefix @ [0xFF]"
    then have "k \<noteq> bytes_of metaLastTimestamps"
      using account_range_keys(2) [of _ "[]"] by (auto simp: metaLastTimestamps_def)
    then show "DbGet (lib_pb L) batch k = DbGet (lib_pb L) b1 k" using get_set [OF b1] by simp
  qed
  obtain e where e: "put_transactions (lib_pw L) [] (bl_Transactions b) = Inr e"
    using put_transactions_total [OF assms(2)] by blast
  then obtain h bs where hash: "HashBlock (lib_pw L) (Sum256 (lib_cl L)) (Some b) = Inr h"
    and enc: "MarshalBlock (lib_pw L) (Some b) = Inr bs"
    by (simp add: HashBlock_def MarshalBlockForHash_eq MarshalBlock_eq)
  obtain b2 where b2: "DbSet (lib_pb L) b1 (bytes_of blockPrefix @ h) bs = Inr b2"
    using assms(1) unfolding io_ok_def by blast
  obtain b3 where b3: "DbSet (lib_pb L) b2 (bytes_of blockHeightPrefix @ MarshalUint64 (bl_Height b)) h = Inr b3"
    using assms(1) unfolding io_ok_def by blast
  obtain db where db: "DbCommit (lib_pb L) b3 = Inr db"
    using assms(1) unfolding io_ok_def by blast
  have "ComputeStateRootFromReader (lib_pw L) (Sum256 (lib_cl L)) (lib_pb L) db = Inr (bl_StateRoot b)"
  proof (rule state_root_carries [OF root assms(1)])
    fix k assume "k < bytes_of accountPrefix @ [0xFF]"
    then have "k \<noteq> bytes_of blockPrefix @ h" "k \<noteq> bytes_of blockHeightPrefix @ MarshalUint64 (bl_Height b)"
      using account_range_keys(1) unfolding blockPrefix_def blockHeightPrefix_def by auto
    then show "DbGet (lib_pb L) b1 k = DbGet (lib_pb L) db k"
      by (simp add: get_commit [OF db] get_set [OF b3] get_set [OF b2])
  qed
  then show ?thesis
    using b1 root hash enc b2 b3 db
    by (simp add: commit_block_def setLastTimestampsWithWriter_def setBlockWithWriter_def Let_def)
qed

lemma ApplyBlock_total:
  assumes "io_ok (lib_pb L)" and "0 \<le> WindowN (st_rcParams st)"
    and free: "\<forall>txn\<in>set (bl_Transactions b). contract_free (lib_pw L) txn"
    and pre: "PreviewBlock L st (Some b) e = (e1, Ret (Inr (bl_StateRoot b)))"
  shows "\<exists>st'. ApplyBlock L st (Some b) e = (st', e, Ret (Inr (bl_StateRoot b)))
    \<and> ComputeStateRootFromReader (lib_pw L) (Sum256 (lib_cl L)) (lib_pb L) (st_store st') = Inr (bl_StateRoot b)"
proof -
  obtain window where window: "GetLastTimestamps (lib_pb L) (st_store st) = Inr window"
    using pre by (auto simp: PreviewBlock_def split: sum.splits)
  let ?run = "\<lambda>pv. apply_transactions L (st_rcParams st) (batch_get L) (batch_set L) pv
    (EffectiveTime (bl_Timestamp b) window (MaxSkewSec (st_rcParams st))) (bl_Transactions b)
    (DbNewBatch (lib_pb L) (st_store st)) e"
  obtain batch e2 out where run: "?run True = (batch, e2, out)" by (metis prod_cases3)
  have out: "out = Ret (Inr ())"
    "ComputeStateRootFromReader (lib_pw L) (Sum256 (lib_cl L)) (lib_pb L) batch = Inr (bl_StateRoot b)"
    using pre window run by (auto simp: PreviewBlock_def Let_def split: go.splits sum.splits)
  have e2: "e2 = e" using apply_transactions_engine_same [OF free run] .
  have e1: "e1 = e" using PreviewBlock_engine [OF pre] .
  have run': "?run False = (batch, e, Ret (Inr ()))"
    using run out(1) e2 apply_transactions_preview [OF free] by metis
  have "\<exists>ts. push_timestamp (WindowN (st_rcParams st)) window (bl_Timestamp b) = Ret (Inr ts)"
    using assms(2) by (simp add: push_timestamp_def Let_def)
  then obtain ts where ts: "push_timestamp (WindowN (st_rcParams st)) window (bl_Timestamp b) = Ret (Inr ts)"
    by blast
  obtain db where "commit_block L ts b batch = Inr (db, bl_StateRoot b)"
    "ComputeStateRootFromReader (lib_pw L) (Sum256 (lib_cl L)) (lib_pb L) db = Inr (bl_StateRoot b)"
    using commit_block_total [OF assms(1) apply_transactions_some [OF run'] out(2)] by blast
  then show ?thesis
    by (simp add: ApplyBlock_def pre e1 window run' ts Let_def)
qed

end

end
