(* ===== verification/Transition.thy ===== *)
theory Transition
  imports Sample Preview
begin

text \<open>
  The properties of the state transition: what one transaction does to the ledger, what every
  sequence of transactions keeps, and what a block that was applied has left in the store. They
  are stated for every implementation of the interfaces and rest on the lemmas of \<open>Ledger\<close> and
  \<open>Chain\<close>; the witnesses run on the sample chain.
\<close>

section \<open>One transaction\<close>

text \<open>Property C1. The transition of a transaction refines the ledger specification: when it
  returns without an error, the payload decoded, the signature verifies over the signing bytes
  under a key whose address is the sender, the nonce is the account's, the sender can afford
  the payload and the cost, the cost is that of the encoded size with the payload's instructions and
  state writes (fixed for a payload that is no contract's), and the accounts afterwards are exactly \<open>ledger_step\<close> of the
  accounts before: the payload's effect on other accounts, and then the settled sender.\<close>

theorem transaction_refines_ledger:
  assumes "account_view getA setA" and "addressed getA s"
    and "applyTransactionWithKV L rcp getA setA pv time (Some tx) s e = (s', e', Ret (Inr u))"
  shows "\<exists>p key cost msg a b i w. a = account_of getA s (tx_From tx)
       \<and> payload_of (lib_pw L) tx = Some p
       \<and> AddressFromPubKey (lib_cl L) key = Inr (tx_From tx)
       \<and> (acct_PubKey a = [] \<or> key = acct_PubKey a)
       \<and> SigningBytes (lib_pw L) (Some tx) = Inr msg
       \<and> Ed25519Verify (lib_cl L) key msg (tx_Signature tx)
       \<and> acct_Nonce a = tx_Nonce tx \<and> affordable p a
       \<and> MarshalTransaction (lib_pw L) (Some tx) = Inr b \<and> cost = Cost rcp (word_of_nat (length b)) i w
       \<and> (\<not> is_contract p \<longrightarrow> (i, w) = cost_shape e p)
       \<and> cost \<le> fst (Regen rcp (acct_RC a) (acct_Stake a) (acct_LastRCEffectiveTime a) time)
       \<and> account_of getA s' = ledger_step rcp time tx p key cost (account_of getA s)"
proof -
  show ?thesis
    using assms(3,2)
  proof (rule account_view.transaction_effect_priced [OF assms(1)])
    fix env p key register b i w cost
    assume "DecodePayload (lib_pw L) (tx_Payload tx) = Inr env" "env_Payload env = Some p"
      and res: "ResolveSenderPubKey (lib_cl L) (Some tx) (acct_PubKey (account_of getA s (tx_From tx)))
        (env_SenderPubKey env) = Inr (key, register)"
      and ver: "VerifySignature (lib_pw L) (lib_cl L) (Some tx) key = Inr ()"
      and rest: "acct_Nonce (account_of getA s (tx_From tx)) = tx_Nonce tx"
        "affordable p (account_of getA s (tx_From tx))"
        "MarshalTransaction (lib_pw L) (Some tx) = Inr b" "cost = Cost rcp (word_of_nat (length b)) i w"
        "cost \<le> fst (Regen rcp (acct_RC (account_of getA s (tx_From tx)))
           (acct_Stake (account_of getA s (tx_From tx)))
           (acct_LastRCEffectiveTime (account_of getA s (tx_From tx))) time)"
        "account_of getA s' = ledger_step rcp time tx p key cost (account_of getA s)"
        "\<not> is_contract p \<Longrightarrow> (i, w) = cost_shape e p"
    then have "payload_of (lib_pw L) tx = Some p" by (simp add: payload_of_def)
    moreover obtain msg where "SigningBytes (lib_pw L) (Some tx) = Inr msg"
      "Ed25519Verify (lib_cl L) key msg (tx_Signature tx)"
      using ver by (auto simp: VerifySignature_ok)
    moreover have "AddressFromPubKey (lib_cl L) key = Inr (tx_From tx)"
      "acct_PubKey (account_of getA s (tx_From tx)) = [] \<or> key = acct_PubKey (account_of getA s (tx_From tx))"
      using res by (auto simp: ResolveSenderPubKey_ok split: if_splits)
    ultimately show ?thesis using rest by blast
  qed
qed

lemma transaction_refines_ledger_witness:
  "\<exists>s' p key cost. applyTransactionWithKV toy_libs test_params map_get map_set False 10
       (Some (toy_tx 0 ''bob'' toy_pay)) toy_view None = (s', None, Ret (Inr ()))
     \<and> payload_of wire_format (toy_tx 0 ''bob'' toy_pay) = Some p
     \<and> account_of map_get s' = ledger_step test_params 10 (toy_tx 0 ''bob'' toy_pay) p key cost
         (account_of map_get toy_view)"
proof -
  obtain s' where run: "applyTransactionWithKV toy_libs test_params map_get map_set False 10
      (Some (toy_tx 0 ''bob'' toy_pay)) toy_view None = (s', None, Ret (Inr ()))"
    using toy_pay_applies by blast
  from transaction_refines_ledger [OF map_view.account_view_axioms toy_addressed run] run
  show ?thesis by auto
qed

text \<open>Property. Only the owner of an account can take from it: for every address other than the
  sender of the transaction, nonce, stake, credits and key are unchanged, and the balance
  either is unchanged or was credited with the amount of a transfer to that address.\<close>

theorem only_the_sender_pays:
  assumes "account_view getA setA" and "addressed getA s"
    and "applyTransactionWithKV L rcp getA setA pv time (Some tx) s e = (s', e', Ret (Inr u))"
    and "x \<noteq> tx_From tx"
  shows "acct_Nonce (account_of getA s' x) = acct_Nonce (account_of getA s x)
       \<and> acct_Stake (account_of getA s' x) = acct_Stake (account_of getA s x)
       \<and> acct_RC (account_of getA s' x) = acct_RC (account_of getA s x)
       \<and> acct_PubKey (account_of getA s' x) = acct_PubKey (account_of getA s x)
       \<and> (acct_Balance (account_of getA s' x) = acct_Balance (account_of getA s x)
          \<or> (\<exists>q. payload_of (lib_pw L) tx = Some (Transfer q) \<and> tr_To q = x
               \<and> acct_Balance (account_of getA s' x) = acct_Balance (account_of getA s x) + tr_Amount q))"
  using assms(3,2)
proof (rule account_view.transaction_effect [OF assms(1)])
  fix env p key cost
  assume "DecodePayload (lib_pw L) (tx_Payload tx) = Inr env" "env_Payload env = Some p"
    and step: "account_of getA s' = ledger_step rcp time tx p key cost (account_of getA s)"
  then have "payload_of (lib_pw L) tx = Some p" by (simp add: payload_of_def)
  moreover have "acct_Balance (payload_effect tx p led x) = acct_Balance (led x)
      \<or> (\<exists>q. p = Transfer q \<and> tr_To q = x \<and> acct_Balance (payload_effect tx p led x) = acct_Balance (led x) + tr_Amount q)"
    for led by (cases p) auto
  ultimately show ?thesis
    using assms(4) by (simp add: step ledger_step_stranger payload_effect_other)
qed

lemma only_the_sender_pays_witness:
  "\<exists>s'. applyTransactionWithKV toy_libs test_params map_get map_set False 10
       (Some (toy_tx 0 ''bob'' toy_pay)) toy_view None = (s', None, Ret (Inr ()))
     \<and> acct_Nonce (account_of map_get s' ''bob'') = acct_Nonce (account_of map_get toy_view ''bob'')
     \<and> acct_Balance (account_of map_get s' ''bob'') = 5"
proof -
  obtain a where run: "applyTransactionWithKV toy_libs test_params map_get map_set False 10
      (Some (toy_tx 0 ''bob'' toy_pay)) toy_view None
    = (toy_view(''bob'' \<mapsto> toy_bob, toy_alice \<mapsto> a), None, Ret (Inr ()))"
    using toy_pay_applies by blast
  have other: "''bob'' \<noteq> tx_From (toy_tx 0 ''bob'' toy_pay)" by (simp add: toy_alice_def)
  from only_the_sender_pays [OF map_view.account_view_axioms toy_addressed run other] run other
  show ?thesis by (auto simp: account_of_def map_get_def toy_bob_def)
qed

text \<open>Property. A transfer to oneself destroys the amount: the credit is written first and the
  sender's own record, debited, is written over it. No other account changes.\<close>

theorem self_transfer_burns:
  assumes "account_view getA setA" and "addressed getA s"
    and "applyTransactionWithKV L rcp getA setA pv time (Some tx) s e = (s', e', Ret (Inr u))"
    and "payload_of (lib_pw L) tx = Some (Transfer q)" and "tr_To q = tx_From tx"
  shows "acct_Balance (account_of getA s' (tx_From tx))
         = acct_Balance (account_of getA s (tx_From tx)) - tr_Amount q
       \<and> tr_Amount q \<le> acct_Balance (account_of getA s (tx_From tx))
       \<and> (\<forall>x. x \<noteq> tx_From tx \<longrightarrow> account_of getA s' x = account_of getA s x)"
  using assms(3,2)
proof (rule account_view.transaction_effect [OF assms(1)])
  fix env p key cost
  assume "DecodePayload (lib_pw L) (tx_Payload tx) = Inr env" "env_Payload env = Some p"
    and afford: "affordable p (account_of getA s (tx_From tx))"
    and step: "account_of getA s' = ledger_step rcp time tx p key cost (account_of getA s)"
  then have "p = Transfer q" using assms(4) by (simp add: payload_of_def)
  then show ?thesis using assms(5) afford by (simp add: step ledger_step_def settled_def)
qed

lemma self_transfer_burns_witness:
  "\<exists>s'. applyTransactionWithKV toy_libs test_params map_get map_set False 10
       (Some (toy_tx 0 ''bob'' toy_self_pay)) toy_view None = (s', None, Ret (Inr ()))
     \<and> acct_Balance (account_of map_get toy_view toy_alice) = 1000
     \<and> acct_Balance (account_of map_get s' toy_alice) = 995"
proof -
  obtain s' where run: "applyTransactionWithKV toy_libs test_params map_get map_set False 10
      (Some (toy_tx 0 ''bob'' toy_self_pay)) toy_view None = (s', None, Ret (Inr ()))"
    using toy_self_pay_applies by (elim exE)
  have pl: "payload_of (lib_pw toy_libs) (toy_tx 0 ''bob'' toy_self_pay)
      = Some (Transfer \<lparr>tr_To = toy_alice, tr_Amount = 5\<rparr>)"
    by (simp add: payload_of_def toy_self_pay_def)
  have before: "acct_Balance (account_of map_get toy_view toy_alice) = 1000"
    by (simp add: account_of_def map_get_def toy_view_def toy_account_def)
  have "acct_Balance (account_of map_get s' toy_alice) = 1000 - 5"
    using self_transfer_burns [OF map_view.account_view_axioms toy_addressed run pl] before by simp
  then show ?thesis using before run by simp
qed

section \<open>Chains of blocks\<close>

abbreviation transactions :: "block list \<Rightarrow> transaction option list" where
  "transactions bs \<equiv> concat (map bl_Transactions bs)"

lemma toy_chain:
  obtains root st' where "chain_run toy_libs toy_state [toy_block root [Some (toy_tx 0 ''bob'' toy_pay)]] st'"
proof -
  obtain root st' where "ApplyBlock toy_libs toy_state (Some (toy_block root [Some (toy_tx 0 ''bob'' toy_pay)])) None
      = (st', None, Ret (Inr root))"
    using toy_block_applies [of None] by blast
  then have "chain_run toy_libs toy_state [toy_block root [Some (toy_tx 0 ''bob'' toy_pay)]] st'"
    by (rule chain_run.Cons [OF _ chain_run.Nil])
  then show ?thesis by (rule that)
qed

lemma toy_well_addressed: "well_addressed toy_libs (st_store toy_state)"
  using toy_db_reads(3) by simp

text \<open>Property C3. No chain of blocks creates tokens. Over any finite set of addresses that covers
  the senders and recipients, with a supply (balances and stakes) below \<open>2 ^ 64\<close> at the start,
  the supply at the end plus what self-transfers destroyed on the way is the supply at the
  start; no balance wraps around.\<close>

theorem supply_conserved_up_to_burns:
  assumes "chain_env L" and "chain_run L st bs st'" and "well_addressed L (st_store st)"
    and "finite A" and "\<forall>txn\<in>set (transactions bs). touches (lib_pw L) txn \<subseteq> A"
    and "total_supply A (ledger L (st_store st)) < 2 ^ 64"
  shows "total_supply A (ledger L (st_store st'))
       + (\<Sum>txn\<leftarrow>transactions bs. burned_by (lib_pw L) txn)
       = total_supply A (ledger L (st_store st))"
  using ledger_run_supply [OF chain_env.chain_run_ledger [OF assms(1-3), THEN conjunct1] assms(4-6)] .

lemma toy_ledger:
  "ledger toy_libs toy_db toy_alice = toy_account" "ledger toy_libs toy_db ''bob'' = zero_account ''bob''"
  using toy_db_reads by (simp_all add: ledger_def account_of_def)

lemma supply_conserved_up_to_burns_witness:
  "\<exists>root st'. chain_run toy_libs toy_state [toy_block root [Some (toy_tx 0 ''bob'' toy_pay)]] st'
     \<and> total_supply {toy_alice, ''bob''} (ledger toy_libs (st_store st')) = 1100"
proof -
  obtain root st' where run: "chain_run toy_libs toy_state [toy_block root [Some (toy_tx 0 ''bob'' toy_pay)]] st'"
    by (rule toy_chain)
  have ne: "toy_alice \<noteq> ''bob''" by (simp add: toy_alice_def)
  have pl: "payload_of wire_format (toy_tx 0 ''bob'' toy_pay) = Some (Transfer \<lparr>tr_To = ''bob'', tr_Amount = 5\<rparr>)"
    by (simp add: payload_of_def toy_pay_def)
  have before: "total_supply {toy_alice, ''bob''} (ledger toy_libs (st_store toy_state)) = 1100"
    using ne by (simp add: total_supply_def wealth_of_def toy_ledger)
      (simp add: toy_account_def zero_account_def)
  from supply_conserved_up_to_burns [OF toy.chain_env_axioms run toy_well_addressed, of "{toy_alice, ''bob''}"]
  have "total_supply {toy_alice, ''bob''} (ledger toy_libs (st_store st')) = 1100"
    using ne before by (simp add: touches_def pl burned_by_def del: toy_state_simps)
  with run show ?thesis by blast
qed

text \<open>Property C2. No transaction is applied twice along a chain: among all the transactions of
  the blocks that were applied, fewer than \<open>2 ^ 64\<close>, no two have the same sender and nonce.\<close>

theorem no_transaction_replays:
  assumes "chain_env L" and "chain_run L st bs st'" and "well_addressed L (st_store st)"
    and "length (transactions bs) < 2 ^ 64"
  shows "distinct (map (map_option (\<lambda>tx. (tx_From tx, tx_Nonce tx))) (transactions bs))"
  using ledger_run_no_replay [OF chain_env.chain_run_ledger [OF assms(1-3), THEN conjunct1] assms(4)] .

lemma no_transaction_replays_witness:
  "\<exists>root st'. chain_run toy_libs toy_state [toy_block root [Some (toy_tx 0 ''bob'' toy_pay)]] st'
     \<and> distinct (map (map_option (\<lambda>tx. (tx_From tx, tx_Nonce tx)))
         (transactions [toy_block root [Some (toy_tx 0 ''bob'' toy_pay)]]))"
proof -
  obtain root st' where run: "chain_run toy_libs toy_state [toy_block root [Some (toy_tx 0 ''bob'' toy_pay)]] st'"
    by (rule toy_chain)
  with no_transaction_replays [OF toy.chain_env_axioms run toy_well_addressed] show ?thesis by fastforce
qed

text \<open>Property. An account without stake can never act: with a size price that is not zero,
  no transaction of it succeeds, a delegation of its own balance included, because regeneration
  sets its credits to zero before the cost is charged. So along any chain it stays without
  stake, with the same nonce, whatever it receives.\<close>

theorem unstaked_accounts_are_frozen:
  assumes "chain_env L" and "chain_run L st bs st'" and "well_addressed L (st_store st)"
    and "CSize (st_rcParams st) \<noteq> 0" and "\<forall>txn\<in>set (transactions bs). fits (lib_pw L) txn"
    and "acct_Stake (ledger L (st_store st) x) = 0"
  shows "acct_Stake (ledger L (st_store st') x) = 0
       \<and> acct_Nonce (ledger L (st_store st') x) = acct_Nonce (ledger L (st_store st) x)
       \<and> (\<forall>tx. Some tx \<in> set (transactions bs) \<longrightarrow> tx_From tx \<noteq> x)"
proof -
  have "protowire_laws (lib_pw L)" using assms(1) by (simp add: chain_env_def store_env_def)
  from ledger_run_no_stake [OF chain_env.chain_run_ledger [OF assms(1-3), THEN conjunct1] this assms(4-6)]
  show ?thesis .
qed

lemma unstaked_accounts_are_frozen_witness:
  "\<exists>root st'. chain_run toy_libs toy_state [toy_block root [Some (toy_tx 0 ''bob'' toy_pay)]] st'
     \<and> acct_Stake (ledger toy_libs (st_store st') ''bob'') = 0
     \<and> acct_Nonce (ledger toy_libs (st_store st') ''bob'') = 0"
proof -
  obtain root st' where run: "chain_run toy_libs toy_state [toy_block root [Some (toy_tx 0 ''bob'' toy_pay)]] st'"
    by (rule toy_chain)
  have "\<forall>txn\<in>set (transactions [toy_block root [Some (toy_tx 0 ''bob'' toy_pay)]]). fits (lib_pw toy_libs) txn"
    using toy_pay_size(1) by (auto simp: fits_def)
  with unstaked_accounts_are_frozen [OF toy.chain_env_axioms run toy_well_addressed, of "''bob''"] run
  show ?thesis by (auto simp: test_params_def toy_ledger zero_account_def)
qed

section \<open>One block\<close>

text \<open>Property C4. What \<open>ApplyBlock\<close> returns as applied is committed: the root it returns is the
  block's own \<open>StateRoot\<close>, the root computed from the new database (when it can be read) is that
  root, the block is found again by its hash and by its height, and the timestamp window is the
  old one with the block's timestamp appended, cut to the last \<open>WindowN\<close>.\<close>

theorem applied_block_is_committed:
  assumes "chain_env L" and "ApplyBlock L st (Some b) e = (st', e', Ret (Inr root))"
    and "\<forall>x. length (Sum256 (lib_cl L) x) = 32" and "length (bl_PrevHash b) = 32"
    and "length (bl_StateRoot b) = 32" and "WindowN (st_rcParams st) < 2 ^ 32"
  shows "root = bl_StateRoot b
       \<and> (\<forall>r. ComputeStateRootFromReader (lib_pw L) (Sum256 (lib_cl L)) (lib_pb L) (st_store st') = Inr r
            \<longrightarrow> r = root)
       \<and> (\<exists>h. HashBlock (lib_pw L) (Sum256 (lib_cl L)) (Some b) = Inr h
            \<and> GetBlockByHash (lib_pw L) (lib_pb L) (st_store st') h = Inr (Some b))
       \<and> GetBlockByHeight (lib_pw L) (lib_pb L) (st_store st') (bl_Height b) = Inr (Some b)
       \<and> (\<exists>ts ts'. GetLastTimestamps (lib_pb L) (st_store st) = Inr ts
            \<and> GetLastTimestamps (lib_pb L) (st_store st') = Inr ts'
            \<and> ts' = drop (length ts + 1 - nat (WindowN (st_rcParams st))) (ts @ [bl_Timestamp b]))"
proof -
  obtain e1 window batch ts db d where
    old: "GetLastTimestamps (lib_pb L) (st_store st) = Inr window"
    and push: "push_timestamp (WindowN (st_rcParams st)) window (bl_Timestamp b) = Ret (Inr ts)"
    and com: "commit_block L ts b batch = Inr (db, root)" and st': "st' = st\<lparr>st_store := db, st_dag := d\<rparr>"
    using assms(2) by (rule ApplyBlock_ok)
  note eff = chain_env.commit_block_effect [OF assms(1) com]
  have "length ts < 2 ^ 32" using push_timestamp_ok(3) [OF push] assms(6) by simp
  note new = eff(3) [OF this]
  obtain h where h: "HashBlock (lib_pw L) (Sum256 (lib_cl L)) (Some b) = Inr h"
    "length h = 32 \<longrightarrow> GetBlockByHash (lib_pw L) (lib_pb L) db h = Inr (Some b)
         \<and> GetBlockByHeight (lib_pw L) (lib_pb L) db (bl_Height b) = Inr (Some b)"
    using eff(5) assms(4,5) by blast
  then have "length h = 32" using assms(3) by (auto simp: HashBlock_def HashBytes_def)
  then show ?thesis
    using eff(1,4) h old new push_timestamp_ok(2) [OF push] by (simp add: st')
qed

lemma applied_block_is_committed_witness:
  "\<exists>root st'. ApplyBlock toy_libs toy_state (Some (toy_block root [Some (toy_tx 0 ''bob'' toy_pay)])) None
       = (st', None, Ret (Inr root))
     \<and> GetBlockByHeight wire_format memory_store (st_store st') 1
       = Inr (Some (toy_block root [Some (toy_tx 0 ''bob'' toy_pay)]))"
proof -
  obtain root st' where run: "length root = 32"
    "ApplyBlock toy_libs toy_state (Some (toy_block root [Some (toy_tx 0 ''bob'' toy_pay)])) None
      = (st', None, Ret (Inr root))"
    using toy_block_applies [of None] by blast
  have "\<forall>x. length (Sum256 (lib_cl toy_libs) x) = 32" using length_pad_hash by (simp add: toy_crypto_def)
  from applied_block_is_committed [OF toy.chain_env_axioms run(2) this] run
  show ?thesis by (auto simp: test_params_def zero_hash_def)
qed

text \<open>Property. A block that is not applied changes nothing: whatever error or panic
  \<open>ApplyBlock\<close> ends with, at whichever step, the store and the graph are as before.\<close>

theorem failed_block_changes_nothing:
  assumes "ApplyBlock L st blk e = (st', e', out)" and "\<forall>root. out \<noteq> Ret (Inr root)"
  shows "st' = st"
  using assms
  by (auto simp: ApplyBlock_def Let_def
      split: option.splits prod.splits go.splits sum.splits if_splits)

lemma failed_block_changes_nothing_witness:
  "\<exists>st' e' err. ApplyBlock toy_libs toy_state (Some (toy_block [1] [])) None = (st', e', Ret (Inl err))
     \<and> st' = toy_state"
proof -
  obtain r where r: "ComputeStateRootFromReader wire_format pad_hash memory_store toy_db = Inr r"
    using memory_env.state_root_total [OF toy_db_decodable] memory_scan by blast
  then have "length r = 32"
    by (auto simp: ComputeStateRootFromReader_def Let_def zero_hash_def min_def split: if_splits)
  moreover have "GetLastTimestamps memory_store toy_db = Inr []"
    by (simp add: GetLastTimestamps_def memory_store_def toy_db_def key_defs del: bytes_of_append)
  ultimately have run: "ApplyBlock toy_libs toy_state (Some (toy_block [1] [])) None
      = (toy_state, None, Ret (Inl ''state root mismatch''))"
    using r by (auto simp: ApplyBlock_def PreviewBlock_def toy_crypto_def)
  from failed_block_changes_nothing [OF run] run show ?thesis by blast
qed

text \<open>Property C30. For a block without contract payloads the preview decides the application, while the
  writes, commits and scans of the store do not fail and \<open>WindowN\<close> is not negative. \<open>ApplyBlock\<close> ends
  with the error or panic of \<open>PreviewBlock\<close>, rejects a block that does not carry the previewed root,
  and applies every other: it returns the previewed root, and that is the root of the new database.
  A block is accepted by one exactly when it is applied by the other.\<close>

theorem preview_predicts_application:
  assumes "chain_env L" and "io_ok (lib_pb L)" and "0 \<le> WindowN (st_rcParams st)"
    and "\<forall>txn\<in>set (bl_Transactions b). contract_free (lib_pw L) txn"
  shows "\<exists>st'. ApplyBlock L st (Some b) e
      = (case snd (PreviewBlock L st (Some b) e) of
           Panic err \<Rightarrow> (st, e, Panic err)
         | Ret (Inl err) \<Rightarrow> (st, e, Ret (Inl err))
         | Ret (Inr root) \<Rightarrow>
             if bl_StateRoot b \<noteq> root then (st, e, Ret (Inl ''state root mismatch''))
             else (st', e, Ret (Inr root)))
    \<and> (\<forall>root. snd (PreviewBlock L st (Some b) e) = Ret (Inr root) \<longrightarrow> bl_StateRoot b = root \<longrightarrow>
         ComputeStateRootFromReader (lib_pw L) (Sum256 (lib_cl L)) (lib_pb L) (st_store st') = Inr root)"
proof -
  obtain e1 out where pre: "PreviewBlock L st (Some b) e = (e1, out)" by fastforce
  have e1: "e1 = e" using PreviewBlock_engine [OF pre] .
  show ?thesis
  proof (cases "out = Ret (Inr (bl_StateRoot b))")
    case True
    from chain_env.ApplyBlock_total [OF assms(1-4) pre [unfolded True]] show ?thesis
      by (auto simp: pre True)
  next
    case False
    then show ?thesis
      by (auto simp: ApplyBlock_def pre e1 split: go.split sum.split)
  qed
qed

lemma preview_predicts_application_witness:
  "\<exists>root st'. snd (PreviewBlock toy_libs toy_state (Some (toy_block root [Some (toy_tx 0 ''bob'' toy_pay)])) None) = Ret (Inr root)
     \<and> ApplyBlock toy_libs toy_state (Some (toy_block root [Some (toy_tx 0 ''bob'' toy_pay)])) None = (st', None, Ret (Inr root))
     \<and> ComputeStateRootFromReader wire_format pad_hash memory_store (st_store st') = Inr root"
proof -
  obtain root where pre: "PreviewBlock toy_libs toy_state
      (Some (toy_block root [Some (toy_tx 0 ''bob'' toy_pay)])) None = (None, Ret (Inr root))"
    using toy_block_applies [of None] by blast
  let ?b = "toy_block root [Some (toy_tx 0 ''bob'' toy_pay)]"
  have free: "\<forall>txn\<in>set (bl_Transactions ?b). contract_free (lib_pw toy_libs) txn"
    using toy_pay_contract_free by simp
  have io: "io_ok (lib_pb toy_libs)" "0 \<le> WindowN (st_rcParams toy_state)"
    using memory_io_ok by (simp_all add: test_params_def)
  obtain st' where "ApplyBlock toy_libs toy_state (Some ?b) None = (st', None, Ret (Inr root))"
    "ComputeStateRootFromReader (lib_pw toy_libs) (Sum256 (lib_cl toy_libs)) (lib_pb toy_libs) (st_store st') = Inr root"
    using preview_predicts_application [OF toy.chain_env_axioms io free, of None] by (auto simp: pre)
  with pre show ?thesis by (intro exI [of _ root] exI [of _ st']) (simp add: toy_crypto_def)
qed

text \<open>Property C31. A block with a contract payload is never applied, over any runtime and with any
  engine that the program can have: \<open>ApplyBlock\<close> never returns its root. The preview
  validates and estimates but does not run the engine, so it can accept such a block (the instance
  below is one), and proposals are built and voted on by the preview alone.\<close>

theorem contract_blocks_never_apply:
  assumes "e = None \<or> (\<exists>ce. e = Some ce \<and> reachable_engine wz ce)"
    and "txn \<in> set (bl_Transactions b)" and "\<not> contract_free (lib_pw L) txn"
  shows "snd (snd (ApplyBlock L st (Some b) e)) \<noteq> Ret (Inr root)"
proof
  assume out: "snd (snd (ApplyBlock L st (Some b) e)) = Ret (Inr root)"
  obtain st' e' where run: "ApplyBlock L st (Some b) e = (st', e', Ret (Inr root))"
    using out by (metis prod.collapse)
  have ok: "engine_ok e" using assms(1) reachable_engine_inv by (auto simp: engine_ok_def)
  obtain e1 window batch where pre: "PreviewBlock L st (Some b) e = (e1, Ret (Inr (bl_StateRoot b)))"
    and app: "apply_transactions L (st_rcParams st) (batch_get L) (batch_set L) False
       (EffectiveTime (bl_Timestamp b) window (MaxSkewSec (st_rcParams st))) (bl_Transactions b)
       (DbNewBatch (lib_pb L) (st_store st)) e1 = (batch, e', Ret (Inr ()))"
    using run by (rule ApplyBlock_ok)
  have "engine_ok e1"
    using pre apply_transactions_engine(1) [OF ok]
    by (auto simp: PreviewBlock_def Let_def split: sum.splits prod.splits go.splits)
  from apply_transactions_engine(2) [OF this app] assms(2,3) show False by auto
qed

lemma contract_blocks_never_apply_witness:
  "\<exists>root. PreviewBlock toy_libs toy_state (Some (toy_block root [Some (toy_tx 0 ''bob'' toy_call)]))
       (Some (NewContractEngine ())) = (Some (NewContractEngine ()), Ret (Inr root))
     \<and> snd (snd (ApplyBlock toy_libs toy_state (Some (toy_block root [Some (toy_tx 0 ''bob'' toy_call)]))
         (Some (NewContractEngine ())))) \<noteq> Ret (Inr root)"
proof -
  obtain root where pre: "PreviewBlock toy_libs toy_state
      (Some (toy_block root [Some (toy_tx 0 ''bob'' toy_call)])) (Some (NewContractEngine ()))
      = (Some (NewContractEngine ()), Ret (Inr root))"
    by (rule toy_call_previews)
  have "\<not> contract_free (lib_pw toy_libs) (Some (toy_tx 0 ''bob'' toy_call))"
    by (simp add: contract_free_def payload_of_def toy_call_def)
  then have "snd (snd (ApplyBlock toy_libs toy_state (Some (toy_block root [Some (toy_tx 0 ''bob'' toy_call)]))
      (Some (NewContractEngine ())))) \<noteq> Ret (Inr root)"
    by (intro contract_blocks_never_apply [where wz = ok_runtime])
      (auto intro: reachable_engine.new)
  with pre show ?thesis by (intro exI conjI)
qed

end
