(* ===== verification/Converge.thy ===== *)
theory Converge
  imports Transition
begin

text \<open>
  Agreement of the state transition between nodes: two nodes that hold the same accounts and the
  same timestamp window, over whatever stores, runtimes and contract engines, hold the same
  accounts and the same window after the same blocks. The blocks carry no contract payloads;
  what a contract call costs is up to the runtime of each node.
\<close>

section \<open>One transaction over two views\<close>

lemma transaction_determined:
  assumes "account_view getA setA" "account_view getB setB"
    and libs: "lib_pw M = lib_pw L" "lib_cl M = lib_cl L"
    and runA: "applyTransactionWithKV L rcp getA setA pvA time txn s eA = (s', eA', Ret (Inr u))"
    and runB: "applyTransactionWithKV M rcp getB setB pvB time txn t eB = (t', eB', Ret (Inr v))"
    and addr: "addressed getA s" "addressed getB t" and free: "contract_free (lib_pw L) txn"
    and same: "account_of getB t = account_of getA s"
  shows "account_of getB t' = account_of getA s' \<and> addressed getA s' \<and> addressed getB t'"
proof -
  obtain tx where tx: "txn = Some tx" using runA by (cases txn) (auto simp: applyTransactionWithKV_def)
  show ?thesis
  proof (rule account_view.transaction_effect_priced [OF assms(1) runA [unfolded tx] addr(1)])
    fix env p key register b i w cost
    assume A: "DecodePayload (lib_pw L) (tx_Payload tx) = Inr env" "env_Payload env = Some p"
      "ResolveSenderPubKey (lib_cl L) (Some tx) (acct_PubKey (account_of getA s (tx_From tx)))
         (env_SenderPubKey env) = Inr (key, register)"
      "MarshalTransaction (lib_pw L) (Some tx) = Inr b" "cost = Cost rcp (word_of_nat (length b)) i w"
      "addressed getA s'" "account_of getA s' = ledger_step rcp time tx p key cost (account_of getA s)"
      "\<not> is_contract p \<Longrightarrow> (i, w) = cost_shape eA p"
    show ?thesis
    proof (rule account_view.transaction_effect_priced [OF assms(2) runB [unfolded tx] addr(2)])
      fix env' p' key' register' b' i' w' cost'
      assume B: "DecodePayload (lib_pw M) (tx_Payload tx) = Inr env'" "env_Payload env' = Some p'"
        "ResolveSenderPubKey (lib_cl M) (Some tx) (acct_PubKey (account_of getB t (tx_From tx)))
           (env_SenderPubKey env') = Inr (key', register')"
        "MarshalTransaction (lib_pw M) (Some tx) = Inr b'" "cost' = Cost rcp (word_of_nat (length b')) i' w'"
        "addressed getB t'" "account_of getB t' = ledger_step rcp time tx p' key' cost' (account_of getB t)"
        "\<not> is_contract p' \<Longrightarrow> (i', w') = cost_shape eB p'"
      have eq: "p' = p" "key' = key" "b' = b" using A(1-4) B(1-4) by (simp_all add: libs same)
      have "\<not> is_contract p"
        using free payload_ofI [OF A(1)] A(2) by (simp add: contract_free_def tx)
      then have "(i', w') = (i, w)"
        using A(8) B(8) cost_shape_fixed [of p eA eB] by (simp add: eq)
      then show ?thesis using A(5-7) B(5-7) by (simp add: eq same)
    qed
  qed
qed

lemma transactions_determined:
  assumes views: "account_view getA setA" "account_view getB setB"
    and libs: "lib_pw M = lib_pw L" "lib_cl M = lib_cl L"
  shows "\<lbrakk>apply_transactions L rcp getA setA pvA time txs s eA = (s', eA', Ret (Inr u));
    apply_transactions M rcp getB setB pvB time txs t eB = (t', eB', Ret (Inr v));
    addressed getA s; addressed getB t; \<forall>txn\<in>set txs. contract_free (lib_pw L) txn;
    account_of getB t = account_of getA s\<rbrakk>
   \<Longrightarrow> account_of getB t' = account_of getA s' \<and> addressed getA s' \<and> addressed getB t'"
proof (induction txs arbitrary: s t eA eB)
  case (Cons txn rest)
  obtain s1 e1 where A: "applyTransactionWithKV L rcp getA setA pvA time txn s eA = (s1, e1, Ret (Inr ()))"
    "apply_transactions L rcp getA setA pvA time rest s1 e1 = (s', eA', Ret (Inr u))"
    using Cons.prems(1) by (rule apply_transactions_Cons_ok) blast
  obtain t1 e2 where B: "applyTransactionWithKV M rcp getB setB pvB time txn t eB = (t1, e2, Ret (Inr ()))"
    "apply_transactions M rcp getB setB pvB time rest t1 e2 = (t', eB', Ret (Inr v))"
    using Cons.prems(2) by (rule apply_transactions_Cons_ok) blast
  have "contract_free (lib_pw L) txn" using Cons.prems(5) by simp
  note one = transaction_determined [OF views libs A(1) B(1) Cons.prems(3,4) this Cons.prems(6)]
  show ?case
    by (rule Cons.IH [OF A(2) B(2)]) (use one Cons.prems(5) in simp_all)
qed simp

section \<open>Blocks and chains\<close>

text \<open>Two nodes agree when their parameters, accounts and timestamp windows are the same.\<close>

definition nodes_agree ::
  "('kv, 'r, 'c, 'm) libs \<Rightarrow> 'kv state \<Rightarrow> ('kv2, 'r2, 'c2, 'm2) libs \<Rightarrow> 'kv2 state \<Rightarrow> bool"
where
  "nodes_agree L st M nd \<longleftrightarrow>
     st_rcParams nd = st_rcParams st \<and> ledger M (st_store nd) = ledger L (st_store st)
     \<and> GetLastTimestamps (lib_pb M) (st_store nd) = GetLastTimestamps (lib_pb L) (st_store st)"

lemma block_determined:
  assumes envs: "chain_env L" "chain_env M" and libs: "lib_pw M = lib_pw L" "lib_cl M = lib_cl L"
    and runA: "ApplyBlock L st (Some b) eA = (st', eA', Ret (Inr rootA))"
    and runB: "ApplyBlock M nd (Some b) eB = (nd', eB', Ret (Inr rootB))"
    and addr: "well_addressed L (st_store st)" "well_addressed M (st_store nd)"
    and free: "\<forall>txn\<in>set (bl_Transactions b). contract_free (lib_pw L) txn"
    and agree: "nodes_agree L st M nd" and small: "WindowN (st_rcParams st) < 2 ^ 32"
  shows "nodes_agree L st' M nd'"
proof -
  obtain e1 window batch ts db d where A: "GetLastTimestamps (lib_pb L) (st_store st) = Inr window"
    "apply_transactions L (st_rcParams st) (batch_get L) (batch_set L) False
       (EffectiveTime (bl_Timestamp b) window (MaxSkewSec (st_rcParams st))) (bl_Transactions b)
       (DbNewBatch (lib_pb L) (st_store st)) e1 = (batch, eA', Ret (Inr ()))"
    "push_timestamp (WindowN (st_rcParams st)) window (bl_Timestamp b) = Ret (Inr ts)"
    "commit_block L ts b batch = Inr (db, rootA)" "st' = st\<lparr>st_store := db, st_dag := d\<rparr>"
    using runA by (rule ApplyBlock_ok)
  obtain e2 window' batch' ts' db' d' where B: "GetLastTimestamps (lib_pb M) (st_store nd) = Inr window'"
    "apply_transactions M (st_rcParams nd) (batch_get M) (batch_set M) False
       (EffectiveTime (bl_Timestamp b) window' (MaxSkewSec (st_rcParams nd))) (bl_Transactions b)
       (DbNewBatch (lib_pb M) (st_store nd)) e2 = (batch', eB', Ret (Inr ()))"
    "push_timestamp (WindowN (st_rcParams nd)) window' (bl_Timestamp b) = Ret (Inr ts')"
    "commit_block M ts' b batch' = Inr (db', rootB)" "nd' = nd\<lparr>st_store := db', st_dag := d'\<rparr>"
    using runB by (rule ApplyBlock_ok)
  have par: "st_rcParams nd = st_rcParams st" and win: "window' = window"
    and led: "ledger M (st_store nd) = ledger L (st_store st)"
    using agree A(1) B(1) by (simp_all add: nodes_agree_def)
  have ts: "ts' = ts" using A(3) B(3) by (simp add: par win)
  have short: "length ts < 2 ^ 32" using push_timestamp_ok(3) [OF A(3)] small by simp
  note effA = chain_env.commit_block_effect [OF envs(1) A(4)]
    and effB = chain_env.commit_block_effect [OF envs(2) B(4)]
  have views: "account_view (batch_get L) (batch_set L)" "account_view (batch_get M) (batch_set M)"
    using chain_env.batch_view [OF envs(1)] chain_env.batch_view [OF envs(2)] .
  have start: "addressed (batch_get L) (DbNewBatch (lib_pb L) (st_store st))"
    "addressed (batch_get M) (DbNewBatch (lib_pb M) (st_store nd))"
    "account_of (batch_get M) (DbNewBatch (lib_pb M) (st_store nd))
       = account_of (batch_get L) (DbNewBatch (lib_pb L) (st_store st))"
    using addr led chain_env.well_addressed_batch [OF envs(1), of "st_store st"]
      chain_env.well_addressed_batch [OF envs(2), of "st_store nd"]
      chain_env.ledger_batch [OF envs(1), of "st_store st"] chain_env.ledger_batch [OF envs(2), of "st_store nd"]
    by (simp_all add: well_addressed_def ledger_def)
  have "account_of (batch_get M) batch' = account_of (batch_get L) batch"
    using transactions_determined [OF views libs A(2) B(2) [unfolded par win] start(1,2) free start(3)] by blast
  then have "ledger M db' = ledger L db"
    by (simp add: ledger_def account_of_def fun_eq_iff effA(2) effB(2))
  then show ?thesis
    using effA(3) [OF short] effB(3) ts short by (simp add: nodes_agree_def A(5) B(5) par)
qed

lemma chains_determined:
  assumes "chain_run L st bs st'" and envs: "chain_env L" "chain_env M"
    and libs: "lib_pw M = lib_pw L" "lib_cl M = lib_cl L"
  shows "\<lbrakk>chain_run M nd bs nd'; well_addressed L (st_store st); well_addressed M (st_store nd);
    \<forall>b\<in>set bs. \<forall>txn\<in>set (bl_Transactions b). contract_free (lib_pw L) txn;
    nodes_agree L st M nd; WindowN (st_rcParams st) < 2 ^ 32\<rbrakk> \<Longrightarrow> nodes_agree L st' M nd'"
  using assms(1)
proof (induction arbitrary: nd rule: chain_run.induct)
  case (Nil st)
  then show ?case by (auto elim: chain_run.cases)
next
  case (Cons st b e st1 e' root bs st2)
  from Cons.prems(1) obtain e2 nd1 e2' root2 where B:
    "ApplyBlock M nd (Some b) e2 = (nd1, e2', Ret (Inr root2))" "chain_run M nd1 bs nd'"
    by (auto elim: chain_run.cases)
  have free: "\<forall>txn\<in>set (bl_Transactions b). contract_free (lib_pw L) txn" using Cons.prems(4) by simp
  note one = block_determined [OF envs libs Cons.hyps(1) B(1) Cons.prems(2,3) free Cons.prems(5,6)]
  note keepA = chain_env.ApplyBlock_ledger [OF envs(1) Cons.hyps(1) Cons.prems(2)]
    and keepB = chain_env.ApplyBlock_ledger [OF envs(2) B(1) Cons.prems(3)]
  show ?case
    by (rule Cons.IH [OF B(2) keepA(2) keepB(2)]) (use one Cons.prems(4,6) keepA(3) in simp_all)
qed

text \<open>The graph takes no part in deciding a block.\<close>

lemma ApplyBlock_any_graph:
  assumes "ApplyBlock L st (Some b) e = (st', e', Ret (Inr root))"
  shows "\<exists>nd'. ApplyBlock L (st\<lparr>st_dag := d\<rparr>) (Some b) e = (nd', e', Ret (Inr root))"
  using assms
  by (auto simp: ApplyBlock_def PreviewBlock_def Let_def split: sum.splits prod.splits go.splits if_splits)

text \<open>Property C5. The state transition is deterministic: two nodes with the same parameters, the same
  accounts and the same timestamp window that both apply the same blocks end with the same accounts
  and the same window. Nothing else matters: not the stores and what else they hold, nor the graphs,
  the contract engines, their runtimes or the times at which the blocks come. Blocks with contract
  payloads, which no engine of the program ever applies, are left out.\<close>

theorem replicas_converge:
  assumes "chain_env L" "chain_env M" and "lib_pw M = lib_pw L" "lib_cl M = lib_cl L"
    and "chain_run L st bs st'" "chain_run M nd bs nd'"
    and "well_addressed L (st_store st)" "well_addressed M (st_store nd)"
    and "\<forall>b\<in>set bs. \<forall>txn\<in>set (bl_Transactions b). contract_free (lib_pw L) txn"
    and "st_rcParams nd = st_rcParams st" and "WindowN (st_rcParams st) < 2 ^ 32"
    and "ledger M (st_store nd) = ledger L (st_store st)"
    and "GetLastTimestamps (lib_pb M) (st_store nd) = GetLastTimestamps (lib_pb L) (st_store st)"
  shows "ledger M (st_store nd') = ledger L (st_store st')
       \<and> GetLastTimestamps (lib_pb M) (st_store nd') = GetLastTimestamps (lib_pb L) (st_store st')
       \<and> st_rcParams nd' = st_rcParams st'"
proof -
  have "nodes_agree L st M nd" using assms(10,12,13) by (simp add: nodes_agree_def)
  with chains_determined [OF assms(5,1-4,6-9)] assms(11) show ?thesis by (simp add: nodes_agree_def)
qed

text \<open>A node that keeps a graph of its history, and one that does not.\<close>

lemma replicas_converge_witness:
  "\<exists>root st' nd'. chain_run toy_libs toy_state [toy_block root [Some (toy_tx 0 ''bob'' toy_pay)]] st'
     \<and> chain_run toy_libs (toy_state\<lparr>st_dag := (NewDAG\<lparr>dag_tips := [zero_hash]\<rparr>)\<rparr>)
         [toy_block root [Some (toy_tx 0 ''bob'' toy_pay)]] nd'
     \<and> ledger toy_libs (st_store nd') = ledger toy_libs (st_store st')"
proof -
  let ?d = "NewDAG\<lparr>dag_tips := [zero_hash]\<rparr>"
  obtain root st' where A: "ApplyBlock toy_libs toy_state (Some (toy_block root [Some (toy_tx 0 ''bob'' toy_pay)])) None
      = (st', None, Ret (Inr root))"
    using toy_block_applies [of None] by blast
  obtain nd' where B: "ApplyBlock toy_libs (toy_state\<lparr>st_dag := ?d\<rparr>)
      (Some (toy_block root [Some (toy_tx 0 ''bob'' toy_pay)])) None = (nd', None, Ret (Inr root))"
    using ApplyBlock_any_graph [OF A] by blast
  note runs = chain_run.Cons [OF A chain_run.Nil] chain_run.Cons [OF B chain_run.Nil]
  have addr: "well_addressed toy_libs (st_store (toy_state\<lparr>st_dag := ?d\<rparr>))"
    using toy_well_addressed by simp
  have "ledger toy_libs (st_store nd') = ledger toy_libs (st_store st')"
    using replicas_converge [OF toy.chain_env_axioms toy.chain_env_axioms refl refl runs toy_well_addressed addr]
      toy_pay_contract_free by (simp add: test_params_def)
  with runs show ?thesis by blast
qed

end
