(* ===== verification/DPoS.thy ===== *)
theory DPoS
  imports Types "HOL-Library.Finite_Map" "HOL-Library.Product_Lexorder"
begin

text \<open>
  Validators and their power, \<open>pkg/consensus/dpos.go\<close>: registration, delegation, slashing and
  the validator set. The Go map of validators is a finite map; the pointers in it are shared
  with nothing (\<open>ValidatorSet\<close> and \<open>GetValidator\<close> copy the struct), so updating a validator in
  place is writing the map. The copies are shallow: they share the map \<open>Delegations\<close>, which no
  reader of a copy looks at.
\<close>

section \<open>Definitions\<close>

record dpos =
  dp_validators :: "(address, validator) fmap"
  dp_minStake :: u64
  dp_maxValidators :: u32

definition NewDPoS :: "u64 \<Rightarrow> u32 \<Rightarrow> dpos" where
  "NewDPoS minStake maxValidators =
     \<lparr>dp_validators = fmempty, dp_minStake = minStake, dp_maxValidators = maxValidators\<rparr>"

definition set_validator :: "address \<Rightarrow> validator \<Rightarrow> dpos \<Rightarrow> dpos" where
  "set_validator addr v d = d\<lparr>dp_validators := fmupd addr v (dp_validators d)\<rparr>"

definition RegisterValidator :: "address \<Rightarrow> bytes \<Rightarrow> u64 \<Rightarrow> u16 \<Rightarrow> dpos \<Rightarrow> error + dpos" where
  "RegisterValidator operatorAddr consensusPubKey stake commission d =
     guard_err (stake < dp_minStake d) ''stake below minimum''
    (guard_err (fmlookup (dp_validators d) operatorAddr \<noteq> None) ''validator already registered''
    (guard_err (dp_maxValidators d \<le> word_of_nat (fcard (fmdom (dp_validators d))))
       ''max validators reached''
    (Inr (set_validator operatorAddr
       \<lparr>val_OperatorAddress = operatorAddr, val_ConsensusPubKey = consensusPubKey, val_Power = stake,
        val_Stake = stake, val_Delegations = Map.empty, val_Commission = commission, val_Index = 0,
        val_JailedUntilEpoch = 0\<rparr> d))))"

text \<open>Reading a Go map of integers: a missing key is zero.\<close>

definition delegated :: "validator \<Rightarrow> address \<Rightarrow> u64" where
  "delegated v a = (case val_Delegations v a of None \<Rightarrow> 0 | Some x \<Rightarrow> x)"

definition Delegate :: "address \<Rightarrow> address \<Rightarrow> u64 \<Rightarrow> dpos \<Rightarrow> error + dpos" where
  "Delegate delegator validator amount d =
     (case fmlookup (dp_validators d) validator of
        None \<Rightarrow> Inl ''validator not found''
      | Some v \<Rightarrow>
          guard_err (amount = 0) ''delegation amount must be positive''
         (let v = v\<lparr>val_Delegations := (val_Delegations v)(delegator \<mapsto> delegated v delegator + amount)\<rparr>;
              v = v\<lparr>val_Power := val_Power v + amount\<rparr>
          in Inr (set_validator validator v d)))"

definition Undelegate :: "address \<Rightarrow> address \<Rightarrow> u64 \<Rightarrow> dpos \<Rightarrow> error + dpos" where
  "Undelegate delegator validator amount d =
     (case fmlookup (dp_validators d) validator of
        None \<Rightarrow> Inl ''validator not found''
      | Some v \<Rightarrow>
          guard_err (delegated v delegator < amount) ''insufficient delegation''
         (let v = v\<lparr>val_Delegations := (val_Delegations v)(delegator \<mapsto> delegated v delegator - amount)\<rparr>;
              v = v\<lparr>val_Power := val_Power v - amount\<rparr>
          in Inr (set_validator validator v d)))"

definition SlashDoubleSign :: "address \<Rightarrow> u64 \<Rightarrow> u64 \<Rightarrow> u64 \<Rightarrow> dpos \<Rightarrow> error + dpos" where
  "SlashDoubleSign validator slashBps jailEpochs currentEpoch d =
     (case fmlookup (dp_validators d) validator of
        None \<Rightarrow> Inl ''validator not found''
      | Some v \<Rightarrow>
          let slashAmount = (val_Stake v * slashBps) div 10000;
              v = (if slashAmount \<le> val_Stake v then v\<lparr>val_Stake := val_Stake v - slashAmount\<rparr> else v);
              v = v\<lparr>val_Power := val_Stake v\<rparr>;
              v = v\<lparr>val_JailedUntilEpoch := currentEpoch + jailEpochs\<rparr>
          in Inr (set_validator validator v d))"

definition SlashOffline :: "address \<Rightarrow> u64 \<Rightarrow> u64 \<Rightarrow> u64 \<Rightarrow> dpos \<Rightarrow> error + dpos" where
  "SlashOffline validator slashBps jailEpochs currentEpoch d =
     SlashDoubleSign validator slashBps jailEpochs currentEpoch d"

definition GetValidator :: "address \<Rightarrow> dpos \<Rightarrow> validator option" where
  "GetValidator operatorAddr d = fmlookup (dp_validators d) operatorAddr"

text \<open>
  The comparison of \<open>sort.Slice\<close>: more power first, then the smaller address. Operator addresses
  are the keys of the map, so no two elements are equal and the sorted slice is unique; it is
  the sort by a key that orders the same way.
\<close>

definition validator_less :: "validator \<Rightarrow> validator \<Rightarrow> bool" where
  "validator_less v w \<longleftrightarrow>
     (if val_Power v = val_Power w then val_OperatorAddress v < val_OperatorAddress w
      else val_Power w < val_Power v)"

definition rank :: "validator \<Rightarrow> u64 \<times> address" where
  "rank v = (max_u64 - val_Power v, val_OperatorAddress v)"

fun assign_index :: "nat \<Rightarrow> validator list \<Rightarrow> validator list" where
  "assign_index i [] = []"
| "assign_index i (v # vs) = v\<lparr>val_Index := word_of_nat i\<rparr> # assign_index (Suc i) vs"

fun index_by_addr :: "nat \<Rightarrow> validator list \<Rightarrow> (address \<rightharpoonup> u32) \<Rightarrow> (address \<rightharpoonup> u32)" where
  "index_by_addr i [] index = index"
| "index_by_addr i (v # vs) index =
     index_by_addr (Suc i) vs (index(val_OperatorAddress v \<mapsto> word_of_nat i))"

text \<open>\<open>order\<close> is the order in which Go's \<open>range\<close> visits the keys of the map.\<close>

definition DPoS_ValidatorSet :: "address list \<Rightarrow> dpos \<Rightarrow> validator_set" where
  "DPoS_ValidatorSet order d =
     (let validators = List.map_filter (fmlookup (dp_validators d)) order;
          totalPower = foldl (\<lambda>acc v. acc + val_Power v) 0 validators;
          validators = sort_key rank validators;
          index = index_by_addr 0 validators Map.empty
      in \<lparr>vs_Validators = assign_index 0 validators, vs_TotalPower = totalPower, vs_IndexByAddr = index\<rparr>)"

section \<open>The managers the program can build\<close>

inductive dpos_step :: "dpos \<Rightarrow> dpos \<Rightarrow> bool" where
  register: "RegisterValidator a k stake c d = Inr d' \<Longrightarrow> dpos_step d d'"
| delegate: "Delegate a v amount d = Inr d' \<Longrightarrow> dpos_step d d'"
| undelegate: "Undelegate a v amount d = Inr d' \<Longrightarrow> dpos_step d d'"

inductive dpos_slash :: "dpos \<Rightarrow> dpos \<Rightarrow> bool" where
  slash: "SlashDoubleSign v bps jail epoch d = Inr d' \<Longrightarrow> dpos_slash d d'"
| offline: "SlashOffline v bps jail epoch d = Inr d' \<Longrightarrow> dpos_slash d d'"

inductive reachable_dpos :: "dpos \<Rightarrow> bool" where
  new: "reachable_dpos (NewDPoS m n)"
| step: "reachable_dpos d \<Longrightarrow> dpos_step d d' \<Longrightarrow> reachable_dpos d'"
| slash: "reachable_dpos d \<Longrightarrow> dpos_slash d d' \<Longrightarrow> reachable_dpos d'"

text \<open>Managers on which nobody has been slashed.\<close>

inductive unslashed_dpos :: "dpos \<Rightarrow> bool" where
  new: "unslashed_dpos (NewDPoS m n)"
| step: "unslashed_dpos d \<Longrightarrow> dpos_step d d' \<Longrightarrow> unslashed_dpos d'"

inductive_cases dpos_stepE: "dpos_step d d'"
inductive_cases dpos_slashE: "dpos_slash d d'"

lemma set_validator_lookup [simp]:
  "fmlookup (dp_validators (set_validator a v d)) b = (if b = a then Some v else fmlookup (dp_validators d) b)"
  by (simp add: set_validator_def)

lemmas dpos_ops = RegisterValidator_def Delegate_def Undelegate_def SlashDoubleSign_def SlashOffline_def Let_def

definition keyed :: "dpos \<Rightarrow> bool" where
  "keyed d \<longleftrightarrow> (\<forall>a v. fmlookup (dp_validators d) a = Some v \<longrightarrow>
     val_OperatorAddress v = a \<and> finite (dom (val_Delegations v)))"

lemma keyed_new: "keyed (NewDPoS m n)"
  by (simp add: keyed_def NewDPoS_def)

lemma keyed_set:
  "keyed d \<Longrightarrow> val_OperatorAddress v = a \<Longrightarrow> finite (dom (val_Delegations v)) \<Longrightarrow> keyed (set_validator a v d)"
  by (auto simp: keyed_def)

lemma keyed_step: "dpos_step d d' \<Longrightarrow> keyed d \<Longrightarrow> keyed d'"
  by (erule dpos_stepE)
    (auto simp: dpos_ops keyed_def split: option.splits if_splits)

lemma keyed_slash: "dpos_slash d d' \<Longrightarrow> keyed d \<Longrightarrow> keyed d'"
  by (erule dpos_slashE)
    (auto simp: dpos_ops keyed_def split: option.splits if_splits)

lemma reachable_keyed: "reachable_dpos d \<Longrightarrow> keyed d"
  by (induction rule: reachable_dpos.induct) (auto intro: keyed_new keyed_step keyed_slash)

lemma unslashed_reachable: "unslashed_dpos d \<Longrightarrow> reachable_dpos d"
  by (induction rule: unslashed_dpos.induct) (auto intro: reachable_dpos.intros)

text \<open>What a manager becomes while its operations are called.\<close>

abbreviation dpos_evolves :: "dpos \<Rightarrow> dpos \<Rightarrow> bool" where
  "dpos_evolves \<equiv> (\<lambda>d d'. dpos_step d d' \<or> dpos_slash d d')\<^sup>*\<^sup>*"

lemma dpos_change_keys:
  assumes "dpos_step d d' \<or> dpos_slash d d'" and "fmlookup (dp_validators d) a = Some v"
  shows "\<exists>w. fmlookup (dp_validators d') a = Some w \<and> val_ConsensusPubKey w = val_ConsensusPubKey v"
  using assms(1)
proof
  assume "dpos_step d d'"
  then show ?thesis
    by (rule dpos_stepE) (use assms(2) in \<open>auto simp: dpos_ops split: option.splits if_splits\<close>)
next
  assume "dpos_slash d d'"
  then show ?thesis
    by (rule dpos_slashE) (use assms(2) in \<open>auto simp: dpos_ops split: option.splits if_splits\<close>)
qed

lemma dpos_evolves_keys:
  "dpos_evolves d d' \<Longrightarrow> fmlookup (dp_validators d) a = Some v \<Longrightarrow>
   \<exists>w. fmlookup (dp_validators d') a = Some w \<and> val_ConsensusPubKey w = val_ConsensusPubKey v"
proof (induction rule: rtranclp_induct)
  case (step y z)
  then obtain u where "fmlookup (dp_validators y) a = Some u" "val_ConsensusPubKey u = val_ConsensusPubKey v" by blast
  with dpos_change_keys [OF step.hyps(2)] show ?case by metis
qed blast

section \<open>Power is stake plus delegations, until somebody is slashed\<close>

definition backing :: "validator \<Rightarrow> u64" where
  "backing v = val_Stake v + (\<Sum>a\<in>dom (val_Delegations v). delegated v a)"

lemma delegations_sum_upd:
  assumes "finite (dom m)"
  shows "(\<Sum>a\<in>dom (m(x \<mapsto> y)). case (m(x \<mapsto> y)) a of None \<Rightarrow> 0 | Some z \<Rightarrow> z)
       = (\<Sum>a\<in>dom m. case m a of None \<Rightarrow> 0 | Some z \<Rightarrow> z)
         - (case m x of None \<Rightarrow> 0 | Some z \<Rightarrow> z) + (y :: u64)"
proof -
  let ?f = "\<lambda>m a. case m a of None \<Rightarrow> 0 | Some z \<Rightarrow> (z :: u64)"
  have rest: "sum (?f (m(x \<mapsto> y))) (dom m - {x}) = sum (?f m) (dom m - {x})"
    by (rule sum.cong) auto
  have "sum (?f (m(x \<mapsto> y))) (dom (m(x \<mapsto> y))) = y + sum (?f m) (dom m - {x})"
    using sum.insert_remove [OF assms, of "?f (m(x \<mapsto> y))" x] by (simp add: rest)
  moreover have "sum (?f m) (dom m) = ?f m x + sum (?f m) (dom m - {x})"
  proof (cases "x \<in> dom m")
    case True
    then show ?thesis using sum.remove [OF assms True, of "?f m"] by simp
  next
    case False
    then show ?thesis by (simp add: domIff)
  qed
  ultimately show ?thesis by simp
qed

lemma backing_upd:
  assumes "finite (dom (val_Delegations v))"
  shows "backing (v\<lparr>val_Delegations := (val_Delegations v)(x \<mapsto> y), val_Power := p\<rparr>)
       = backing v - delegated v x + y"
  using delegations_sum_upd [OF assms, of x y]
  by (simp add: backing_def delegated_def)

lemma unslashed_power:
  assumes "unslashed_dpos d" and "fmlookup (dp_validators d) a = Some v"
  shows "val_Power v = backing v"
  using assms
proof (induction arbitrary: a v rule: unslashed_dpos.induct)
  case (step d d')
  have keyed: "keyed d" using reachable_keyed unslashed_reachable step.hyps(1) by blast
  from step.hyps(2) show ?case
  proof (cases rule: dpos_step.cases)
    case (register op k stake c)
    then show ?thesis using step
      by (auto simp: RegisterValidator_def backing_def split: if_splits)
  next
    case (delegate del val amount)
    then obtain w where w: "fmlookup (dp_validators d) val = Some w"
      "d' = set_validator val (w\<lparr>val_Delegations := (val_Delegations w)(del \<mapsto> delegated w del + amount),
         val_Power := val_Power w + amount\<rparr>) d"
      by (auto simp: Delegate_def Let_def split: option.splits)
    then have "finite (dom (val_Delegations w))" "val_Power w = backing w"
      using keyed step.IH by (auto simp: keyed_def)
    then show ?thesis using w step by (auto simp: backing_upd split: if_splits)
  next
    case (undelegate del val amount)
    then obtain w where w: "fmlookup (dp_validators d) val = Some w"
      "d' = set_validator val (w\<lparr>val_Delegations := (val_Delegations w)(del \<mapsto> delegated w del - amount),
         val_Power := val_Power w - amount\<rparr>) d"
      by (auto simp: Undelegate_def Let_def split: option.splits)
    then have "finite (dom (val_Delegations w))" "val_Power w = backing w"
      using keyed step.IH by (auto simp: keyed_def)
    then show ?thesis using w step by (auto simp: backing_upd split: if_splits)
  qed
qed (simp add: NewDPoS_def)


section \<open>The validator set\<close>

lemma max_minus_less: "max_u64 - p < max_u64 - q \<longleftrightarrow> q < (p :: u64)"
proof -
  have "unat (max_u64 - x) = 2 ^ 64 - 1 - unat x" for x :: u64
    using unat_u64_le [of x] by (simp add: unat_sub word_le_nat_alt)
  then show ?thesis
    using unat_u64_le [of p] unat_u64_le [of q] by (simp add: word_less_nat_alt) arith
qed

lemma rank_less: "rank v < rank w \<longleftrightarrow> validator_less v w"
  using linorder_neq_iff [of "val_Power v" "val_Power w"]
  by (auto simp: rank_def validator_less_def less_prod_def max_minus_less not_less [symmetric])

lemma rank_inject: "rank v = rank w \<longleftrightarrow> val_Power v = val_Power w \<and> val_OperatorAddress v = val_OperatorAddress w"
  by (auto simp: rank_def)

lemma mset_map_filter: "mset (List.map_filter f xs) = image_mset the (filter_mset (\<lambda>y. y \<noteq> None) (image_mset f (mset xs)))"
  by (induction xs) (auto simp: map_filter_simps split: option.splits)

lemma foldl_add_sum: "foldl (\<lambda>acc v. acc + f v) (a :: u64) xs = a + sum_list (map f xs)"
  by (induction xs arbitrary: a) (simp_all add: add.assoc)


text \<open>\<open>range_order d order\<close>: \<open>order\<close> is an order in which \<open>range d.validators\<close> may visit the keys.\<close>

definition range_order :: "dpos \<Rightarrow> address list \<Rightarrow> bool" where
  "range_order d order \<longleftrightarrow> distinct order \<and> set order = fset (fmdom (dp_validators d))"

definition visited :: "dpos \<Rightarrow> address list \<Rightarrow> validator list" where
  "visited d order = List.map_filter (fmlookup (dp_validators d)) order"

lemma set_map_filter_lookup: "set (List.map_filter f xs) = {v. \<exists>a\<in>set xs. f a = Some v}"
  by (induction xs) (auto simp: map_filter_simps split: option.splits)

lemma visited_set:
  "range_order d order \<Longrightarrow> set (visited d order) = fset (fmran (dp_validators d))"
  by (fastforce simp: visited_def range_order_def set_map_filter_lookup fmlookup_ran_iff intro: fmdomI)

lemma visited_addresses:
  assumes "keyed d" and "range_order d order"
  shows "map val_OperatorAddress (visited d order) = order"
proof -
  have "set xs \<subseteq> set order \<Longrightarrow>
      map val_OperatorAddress (List.map_filter (fmlookup (dp_validators d)) xs) = xs" for xs
  proof (induction xs)
    case (Cons a xs)
    then obtain v where "fmlookup (dp_validators d) a = Some v"
      using assms(2) by (auto simp: range_order_def dest: fmdomE)
    then show ?case using Cons assms(1) by (auto simp: map_filter_simps keyed_def)
  qed (simp add: map_filter_simps)
  then show ?thesis by (simp add: visited_def)
qed

lemma visited_mset:
  assumes "range_order d order" and "range_order d order'"
  shows "mset (visited d order) = mset (visited d order')"
proof -
  have "mset order = mset order'"
    using assms by (simp add: range_order_def set_eq_iff_mset_eq_distinct [symmetric])
  then show ?thesis by (simp add: visited_def mset_map_filter)
qed

lemma visited_inj: "keyed d \<Longrightarrow> range_order d order \<Longrightarrow> inj_on rank (set (visited d order))"
  by (auto simp: inj_on_def visited_set rank_inject keyed_def fmlookup_ran_iff)

lemma validator_set_order:
  assumes "keyed d" "range_order d order" "range_order d order'"
  shows "DPoS_ValidatorSet order d = DPoS_ValidatorSet order' d"
proof -
  note m = visited_mset [OF assms(2,3)]
  have "sort_key rank (visited d order) = sort_key rank (visited d order')"
    by (rule sort_key_inj_key_eq) (simp_all add: m assms visited_inj)
  moreover have "sum_list (map val_Power (visited d order)) = sum_list (map val_Power (visited d order'))"
    by (metis m mset_map sum_mset_sum_list)
  ultimately show ?thesis
    by (simp add: DPoS_ValidatorSet_def visited_def [symmetric] foldl_add_sum Let_def)
qed


lemma assign_index_eq: "assign_index i vs = map (\<lambda>(j, v). v\<lparr>val_Index := word_of_nat j\<rparr>) (enumerate i vs)"
  by (induction i vs rule: assign_index.induct) simp_all

lemma length_assign_index [simp]: "length (assign_index i vs) = length vs"
  by (simp add: assign_index_eq)

lemma nth_assign_index [simp]:
  "k < length vs \<Longrightarrow> assign_index i vs ! k = (vs ! k)\<lparr>val_Index := word_of_nat (i + k)\<rparr>"
  by (simp add: assign_index_eq nth_enumerate_eq)

lemma map_assign_index [simp]:
  "(\<And>v n. f (v\<lparr>val_Index := n\<rparr>) = f v) \<Longrightarrow> map f (assign_index i vs) = map f vs"
  by (induction i vs rule: assign_index.induct) simp_all

lemma index_by_addr_other:
  "a \<notin> val_OperatorAddress ` set vs \<Longrightarrow> index_by_addr i vs m a = m a"
  by (induction i vs m rule: index_by_addr.induct) auto

lemma index_by_addr_nth:
  "distinct (map val_OperatorAddress vs) \<Longrightarrow> k < length vs \<Longrightarrow>
    index_by_addr i vs m (val_OperatorAddress (vs ! k)) = Some (word_of_nat (i + k))"
  by (induction i vs m arbitrary: k rule: index_by_addr.induct)
    (auto simp: nth_Cons index_by_addr_other split: nat.splits)

lemma index_by_addr_iff:
  assumes "distinct (map val_OperatorAddress vs)" and "length vs < 2 ^ 32"
  shows "index_by_addr 0 vs Map.empty a = Some n \<longleftrightarrow>
    unat n < length vs \<and> val_OperatorAddress (vs ! unat n) = a"
proof -
  have small: "k < length vs \<Longrightarrow> unat (word_of_nat k :: u32) = k" for k
    using assms(2) by (simp add: unat_of_nat take_bit_nat_eq_self)
  show ?thesis
  proof (cases "a \<in> val_OperatorAddress ` set vs")
    case True
    then obtain k where k: "k < length vs" "val_OperatorAddress (vs ! k) = a"
      by (auto simp: in_set_conv_nth)
    have "unat n < length vs \<and> val_OperatorAddress (vs ! unat n) = a \<longleftrightarrow> unat n = k"
      using k nth_eq_iff_index_eq [OF assms(1), of "unat n" k] by auto
    also have "\<dots> \<longleftrightarrow> n = word_of_nat k"
      using small [OF k(1)] by auto
    finally show ?thesis
      using index_by_addr_nth [OF assms(1) k(1), of 0 Map.empty] k(2) by auto
  next
    case False
    then show ?thesis by (auto simp: index_by_addr_other)
  qed
qed

text \<open>The number of validators stays below the bound, so an index fits its 32 bits.\<close>

definition capped :: "dpos \<Rightarrow> bool" where
  "capped d \<longleftrightarrow> fcard (fmdom (dp_validators d)) \<le> unat (dp_maxValidators d)"

lemma capped_set: "fmlookup (dp_validators d) a \<noteq> None \<Longrightarrow> capped (set_validator a v d) \<longleftrightarrow> capped d"
  by (auto simp: capped_def set_validator_def finsert_absorb fmdomI)

lemma capped_register:
  assumes "RegisterValidator a k s c d = Inr d'" and "capped d"
  shows "capped d'"
proof -
  have "unat (word_of_nat (fcard (fmdom (dp_validators d))) :: u32) = fcard (fmdom (dp_validators d))"
    using assms(2) unsigned_less [of "dp_maxValidators d", where ?'a = nat]
    by (simp add: capped_def unat_of_nat take_bit_nat_eq_self)
  moreover have "\<not> dp_maxValidators d \<le> word_of_nat (fcard (fmdom (dp_validators d)))"
    and new: "fmlookup (dp_validators d) a = None"
    using assms(1) by (auto simp: RegisterValidator_def)
  ultimately have "fcard (fmdom (dp_validators d)) < unat (dp_maxValidators d)"
    by (simp add: word_le_nat_alt)
  then show ?thesis
    using assms(1) new by (auto simp: RegisterValidator_def capped_def set_validator_def fmdom_notI fcard_finsert_disjoint Suc_le_eq)
qed

lemma reachable_capped: "reachable_dpos d \<Longrightarrow> capped d"
proof (induction rule: reachable_dpos.induct)
  case (step d d')
  from step.hyps(2) show ?case
    by cases (use step.IH capped_register in \<open>auto simp: dpos_ops capped_set split: option.splits\<close>)
next
  case (slash d d')
  from slash.hyps(2) show ?case
    by cases (use slash.IH in \<open>auto simp: dpos_ops capped_set split: option.splits if_splits\<close>)
qed (simp add: capped_def NewDPoS_def fcard_fempty)


lemma visited_length:
  assumes "keyed d" "range_order d order"
  shows "length (visited d order) = fcard (fmdom (dp_validators d))"
  using arg_cong [OF visited_addresses [OF assms], of length] assms(2)
  by (metis length_map distinct_card fcard.rep_eq range_order_def)

lemma visited_small:
  assumes "reachable_dpos d" "range_order d order"
  shows "length (visited d order) < 2 ^ 32"
  using reachable_capped [OF assms(1)] visited_length [OF reachable_keyed [OF assms(1)] assms(2)]
    unsigned_less [of "dp_maxValidators d", where ?'a = nat]
  by (simp add: capped_def)

lemma sorted_by_rank:
  assumes "keyed d" "range_order d order"
  shows "sorted_wrt validator_less (sort_key rank (visited d order))"
proof -
  let ?vs = "sort_key rank (visited d order)"
  have "distinct (map rank (visited d order))"
    using visited_addresses [OF assms] assms visited_inj [OF assms]
    by (metis distinct_map range_order_def)
  then have "distinct (map rank ?vs)" by (metis distinct_map mset_eq_imp_distinct_iff mset_map mset_sort set_sort)
  then have "sorted_wrt (<) (map rank ?vs)"
    by (simp add: strict_sorted_iff)
  then show ?thesis by (simp add: sorted_wrt_map rank_less)
qed

lemma validator_set_facts:
  assumes "reachable_dpos d" and "range_order d order" and "s = DPoS_ValidatorSet order d"
  shows "sorted_wrt validator_less (vs_Validators s)"
    and "(\<lambda>v. v\<lparr>val_Index := 0\<rparr>) ` set (vs_Validators s) = (\<lambda>v. v\<lparr>val_Index := 0\<rparr>) ` fset (fmran (dp_validators d))"
    and "vs_TotalPower s = sum_list (map val_Power (vs_Validators s))"
    and "vs_IndexByAddr s a = Some n \<longleftrightarrow>
      unat n < length (vs_Validators s) \<and> val_OperatorAddress (vs_Validators s ! unat n) = a"
    and "i < length (vs_Validators s) \<Longrightarrow> unat (val_Index (vs_Validators s ! i)) = i"
    and "distinct (map val_OperatorAddress (vs_Validators s))"
proof -
  let ?vs = "sort_key rank (visited d order)"
  note keyed = reachable_keyed [OF assms(1)]
  have s: "vs_Validators s = assign_index 0 ?vs" "vs_TotalPower s = sum_list (map val_Power (visited d order))"
    "vs_IndexByAddr s = index_by_addr 0 ?vs Map.empty"
    by (simp_all add: assms(3) DPoS_ValidatorSet_def visited_def Let_def foldl_add_sum)
  have small: "length ?vs < 2 ^ 32" using visited_small [OF assms(1,2)] by simp
  have addresses: "distinct (map val_OperatorAddress ?vs)"
    using visited_addresses [OF keyed assms(2)] assms(2)
    by (metis distinct_map range_order_def mset_eq_imp_distinct_iff mset_map mset_sort)
  show "sorted_wrt validator_less (vs_Validators s)"
    using sorted_by_rank [OF keyed assms(2)]
    by (auto simp: s(1) sorted_wrt_iff_nth_less validator_less_def)
  have strip: "map (\<lambda>v. v\<lparr>val_Index := 0\<rparr>) (assign_index 0 ?vs) = map (\<lambda>v. v\<lparr>val_Index := 0\<rparr>) ?vs"
    by (rule map_assign_index) simp
  show "(\<lambda>v. v\<lparr>val_Index := 0\<rparr>) ` set (vs_Validators s) = (\<lambda>v. v\<lparr>val_Index := 0\<rparr>) ` fset (fmran (dp_validators d))"
    using arg_cong [OF strip, of set] visited_set [OF assms(2)] by (simp add: s(1) del: map_assign_index)
  have "map val_Power (assign_index 0 ?vs) = map val_Power ?vs" by (rule map_assign_index) simp
  moreover have "sum_list (map val_Power ?vs) = sum_list (map val_Power (visited d order))"
    by (metis mset_map mset_sort sum_mset_sum_list)
  ultimately show "vs_TotalPower s = sum_list (map val_Power (vs_Validators s))" by (simp add: s)
  show "vs_IndexByAddr s a = Some n \<longleftrightarrow>
      unat n < length (vs_Validators s) \<and> val_OperatorAddress (vs_Validators s ! unat n) = a"
    using index_by_addr_iff [OF addresses small] by (auto simp: s)
  show "unat (val_Index (vs_Validators s ! i)) = i" if "i < length (vs_Validators s)"
    using that small by (simp add: s(1) unat_of_nat take_bit_nat_eq_self)
  have "map val_OperatorAddress (assign_index 0 ?vs) = map val_OperatorAddress ?vs"
    by (rule map_assign_index) simp
  then show "distinct (map val_OperatorAddress (vs_Validators s))" using addresses by (simp add: s(1))
qed

text \<open>Property C24. The validator set is a function of the manager alone: however the map is walked, the
  result is the same list, strictly sorted by descending power and then address, whose entries are
  all the registered validators (jailed ones included) numbered by their position; the total is the
  sum of their powers modulo \<open>2 ^ 64\<close>, and \<open>IndexByAddr\<close> is exactly the inverse of the numbering.\<close>

theorem validator_set_canonical:
  assumes "reachable_dpos d" and "range_order d order" and "range_order d order'"
    and "s = DPoS_ValidatorSet order d"
  shows "DPoS_ValidatorSet order' d = s
    \<and> sorted_wrt validator_less (vs_Validators s)
    \<and> (\<lambda>v. v\<lparr>val_Index := 0\<rparr>) ` set (vs_Validators s) = (\<lambda>v. v\<lparr>val_Index := 0\<rparr>) ` fset (fmran (dp_validators d))
    \<and> vs_TotalPower s = sum_list (map val_Power (vs_Validators s))
    \<and> (\<forall>a n. vs_IndexByAddr s a = Some n \<longleftrightarrow>
        unat n < length (vs_Validators s) \<and> val_OperatorAddress (vs_Validators s ! unat n) = a)
    \<and> (\<forall>i<length (vs_Validators s). unat (val_Index (vs_Validators s ! i)) = i)"
  by (intro conjI allI impI validator_set_facts [OF assms(1,2,4)])
    (use assms validator_set_order [OF reachable_keyed [OF assms(1)] assms(2,3)] in simp_all)


section \<open>A manager with two validators\<close>

definition sample_dpos :: dpos where
  "sample_dpos = projr (bind_err (RegisterValidator ''a'' [1] 100 5 (NewDPoS 10 4))
     (\<lambda>d. bind_err (RegisterValidator ''b'' [2] 300 5 d) (Delegate ''c'' ''a'' 40)))"

lemma fcard_small: "fcard {||} = 0" "fcard {|x|} = 1"
  by (simp_all add: fcard.rep_eq)

lemma four_le_one: "\<not> 4 \<le> (1 :: u32)"
  by (simp add: word_le_nat_alt)

lemmas sample_simps = four_le_one sample_dpos_def dpos_ops guard_err_def NewDPoS_def set_validator_def delegated_def fcard_small

lemma sample_unslashed: "unslashed_dpos sample_dpos"
proof -
  obtain d1 d2 where "RegisterValidator ''a'' [1] 100 5 (NewDPoS 10 4) = Inr d1"
    "RegisterValidator ''b'' [2] 300 5 d1 = Inr d2" "Delegate ''c'' ''a'' 40 d2 = Inr sample_dpos"
    by (auto simp: sample_simps)
  then show ?thesis by (meson dpos_step.intros unslashed_dpos.intros)
qed

lemma sample_lookup:
  "fmlookup (dp_validators sample_dpos) ''a'' =
     Some \<lparr>val_OperatorAddress = ''a'', val_ConsensusPubKey = [1], val_Power = 140, val_Stake = 100,
       val_Delegations = [''c'' \<mapsto> 40], val_Commission = 5, val_Index = 0, val_JailedUntilEpoch = 0\<rparr>"
  by (simp add: sample_simps)

lemma sample_range: "range_order sample_dpos [''a'', ''b'']" "range_order sample_dpos [''b'', ''a'']"
  by (auto simp: range_order_def sample_simps)

lemma validator_set_canonical_witness:
  "DPoS_ValidatorSet [''a'', ''b''] sample_dpos = DPoS_ValidatorSet [''b'', ''a''] sample_dpos"
  using validator_set_canonical [OF unslashed_reachable [OF sample_unslashed] sample_range(2,1) refl] by simp

text \<open>Property C26. While nobody has been slashed, the power of a validator is its own stake plus the sum
  of the delegations it holds, whatever was registered, delegated and withdrawn (all sums being
  64-bit sums).\<close>

theorem power_is_backed:
  assumes "unslashed_dpos d" and "GetValidator a d = Some v"
  shows "val_Power v = val_Stake v + (\<Sum>x\<in>dom (val_Delegations v). delegated v x)"
  using unslashed_power [OF assms(1)] assms(2) by (simp add: GetValidator_def backing_def)

lemma power_is_backed_witness:
  "\<exists>v. GetValidator ''a'' sample_dpos = Some v \<and> val_Stake v = 100 \<and> delegated v ''c'' = 40 \<and> val_Power v = 140
     \<and> val_Power v = val_Stake v + (\<Sum>x\<in>dom (val_Delegations v). delegated v x)"
proof -
  obtain v where v: "GetValidator ''a'' sample_dpos = Some v" "val_Stake v = 100" "delegated v ''c'' = 40" "val_Power v = 140"
    by (simp add: GetValidator_def sample_lookup delegated_def)
  from power_is_backed [OF sample_unslashed v(1)] v show ?thesis by blast
qed

text \<open>Property. When the product \<open>stake * slashBps\<close> fits 64 bits and the rate is at most 10000, a slash
  removes exactly the rate, rounded down, and leaves the stake as the whole power: everything that
  was delegated is no longer counted, although the delegations stay on the books.\<close>

theorem slash_exact:
  assumes "GetValidator a d = Some v" and "unat bps \<le> 10000" and "unat (val_Stake v) * unat bps < 2 ^ 64"
    and "SlashDoubleSign a bps jail epoch d = Inr d'"
  shows "\<exists>w. GetValidator a d' = Some w
    \<and> unat (val_Stake w) = unat (val_Stake v) - unat (val_Stake v) * unat bps div 10000
    \<and> val_Power w = val_Stake w \<and> val_Delegations w = val_Delegations v
    \<and> val_JailedUntilEpoch w = epoch + jail"
proof -
  let ?amount = "(val_Stake v * bps) div 10000"
  have amount: "unat ?amount = unat (val_Stake v) * unat bps div 10000"
    using assms(3) by (simp add: unat_div unat_mult_small)
  have "unat (val_Stake v) * unat bps \<le> unat (val_Stake v) * 10000"
    using assms(2) by (intro mult_left_mono) auto
  then have "unat ?amount \<le> unat (val_Stake v)"
    unfolding amount by linarith
  then have "?amount \<le> val_Stake v" by (simp add: word_le_nat_alt)
  then show ?thesis
    using assms(1,4) amount by (auto simp: SlashDoubleSign_def GetValidator_def Let_def unat_sub)
qed

lemma slash_exact_witness:
  "\<exists>w. GetValidator ''a'' (projr (SlashDoubleSign ''a'' 500 9 1 sample_dpos)) = Some w
    \<and> unat (val_Stake w) = 95 \<and> val_Power w = val_Stake w"
  using slash_exact [of "''a''" sample_dpos _ 500 9 1] by (simp add: GetValidator_def sample_lookup SlashDoubleSign_def)

text \<open>Property C27. After a slash the delegations can still be withdrawn, and a withdrawal of more than the
  stake that is left makes the power wrap below zero: the slashed validator ends up with almost
  \<open>2 ^ 64\<close> of voting power.\<close>

theorem slash_then_withdraw_wraps:
  assumes "SlashDoubleSign a bps jail epoch d = Inr d'" and "GetValidator a d' = Some v"
    and "amount \<le> delegated v del" and "val_Stake v < amount"
  shows "\<exists>d'' w. Undelegate del a amount d' = Inr d'' \<and> GetValidator a d'' = Some w
    \<and> unat (val_Power w) = 2 ^ 64 + unat (val_Stake v) - unat amount"
proof -
  have "val_Power v = val_Stake v"
    using assms(1,2) by (auto simp: SlashDoubleSign_def GetValidator_def Let_def split: option.splits)
  moreover have "unat (val_Stake v - amount) = 2 ^ 64 + unat (val_Stake v) - unat amount"
    using assms(4) unat_u64_less [of amount]
    by (simp add: unat_sub_if' word_less_nat_alt)
  ultimately show ?thesis
    using assms(2,3) by (auto simp: Undelegate_def GetValidator_def Let_def guard_err_def)
qed

lemma slash_then_withdraw_wraps_witness:
  "\<exists>d'' w. Undelegate ''c'' ''a'' 40 (projr (SlashDoubleSign ''a'' 10000 9 1 sample_dpos)) = Inr d''
    \<and> GetValidator ''a'' d'' = Some w \<and> unat (val_Power w) = 2 ^ 64 - 40"
  using slash_then_withdraw_wraps [of "''a''" 10000 9 1 sample_dpos "projr (SlashDoubleSign ''a'' 10000 9 1 sample_dpos)" _ 40 "''c''"]
  by (auto simp: GetValidator_def sample_lookup SlashDoubleSign_def delegated_def)

end
