(* ===== verification/Heap.thy ===== *)
theory Heap
  imports Main "HOL-Library.Multiset"
begin

text \<open>
  The binary heap of Go's standard library (\<open>container/heap\<close>) over a slice, as the mempool uses
  it: \<open>Push\<close> appends and sifts up, \<open>Pop\<close> swaps the first and last elements, sifts down and
  removes the last. \<open>lt\<close> is the user's \<open>Less\<close> on the elements. The laws of a priority queue
  are stated as an interface and proved for this heap over any strict weak order.
\<close>

section \<open>Definitions\<close>

definition swap :: "nat \<Rightarrow> nat \<Rightarrow> 'a list \<Rightarrow> 'a list" where
  "swap i j h = h[i := h ! j, j := h ! i]"

definition parent :: "nat \<Rightarrow> nat" where
  "parent j = (j - 1) div 2"

function heap_up :: "('a \<Rightarrow> 'a \<Rightarrow> bool) \<Rightarrow> nat \<Rightarrow> 'a list \<Rightarrow> 'a list" where
  "heap_up lt j h =
     (let i = parent j
      in if i = j \<or> \<not> lt (h ! j) (h ! i) then h else heap_up lt i (swap i j h))"
  by pat_completeness auto
termination by (relation "measure (\<lambda>(lt, j, h). j)") (auto simp: parent_def)

function heap_down :: "('a \<Rightarrow> 'a \<Rightarrow> bool) \<Rightarrow> nat \<Rightarrow> nat \<Rightarrow> 'a list \<Rightarrow> 'a list" where
  "heap_down lt i n h =
     (let j1 = 2 * i + 1
      in if n \<le> j1 then h
         else let j2 = j1 + 1; j = (if j2 < n \<and> lt (h ! j2) (h ! j1) then j2 else j1)
              in if \<not> lt (h ! j) (h ! i) then h else heap_down lt j n (swap i j h))"
  by pat_completeness auto
termination by (relation "measure (\<lambda>(lt, i, n, h). n - i)") (auto simp: Let_def split: if_splits)

declare heap_up.simps [simp del] heap_down.simps [simp del]

definition heap_Push :: "('a \<Rightarrow> 'a \<Rightarrow> bool) \<Rightarrow> 'a \<Rightarrow> 'a list \<Rightarrow> 'a list" where
  "heap_Push lt x h = heap_up lt (length h) (h @ [x])"

definition heap_Pop :: "('a \<Rightarrow> 'a \<Rightarrow> bool) \<Rightarrow> 'a list \<Rightarrow> 'a \<times> 'a list" where
  "heap_Pop lt h =
     (let n = length h - 1;
          h = heap_down lt 0 n (swap 0 n h)
      in (h ! n, take n h))"

section \<open>The interface of a priority queue\<close>

text \<open>Slices whose \<open>Pop\<close> returns an element that no remaining one precedes. \<open>invar\<close> is what the
  operations keep.\<close>

locale priority_queue =
  fixes lt :: "'a \<Rightarrow> 'a \<Rightarrow> bool"
    and push :: "'a \<Rightarrow> 'q \<Rightarrow> 'q"
    and pop :: "'q \<Rightarrow> 'a \<times> 'q"
    and items :: "'q \<Rightarrow> 'a multiset"
    and invar :: "'q \<Rightarrow> bool"
  assumes invar_push: "invar q \<Longrightarrow> invar (push x q)"
    and items_push: "items (push x q) = add_mset x (items q)"
    and pop_spec: "invar q \<Longrightarrow> items q \<noteq> {#} \<Longrightarrow> pop q = (x, q') \<Longrightarrow>
      invar q' \<and> items q = add_mset x (items q') \<and> (\<forall>y\<in>#items q'. \<not> lt y x)"
begin

text \<open>Two queues with the same elements, no two of them tied, pop the same element and are left with
  the same elements.\<close>

lemma pop_determined:
  assumes "invar q" "invar r" "items q = items r" "items q \<noteq> {#}"
    and ties: "\<And>x y. x \<in># items q \<Longrightarrow> y \<in># items q \<Longrightarrow> \<not> lt x y \<Longrightarrow> \<not> lt y x \<Longrightarrow> x = y"
    and "pop q = (x, q')" "pop r = (y, r')"
  shows "x = y \<and> items q' = items r'"
proof -
  have q: "items q = add_mset x (items q')" "\<forall>z\<in>#items q'. \<not> lt z x"
    and r: "items q = add_mset y (items r')" "\<forall>z\<in>#items r'. \<not> lt z y"
    using assms pop_spec [of q x q'] pop_spec [of r y r'] by auto
  have "x = y"
  proof (rule ccontr)
    assume "x \<noteq> y"
    then have "y \<in># items q'" "x \<in># items r'"
      using q(1) r(1) by (metis insert_iff set_mset_add_mset_insert union_single_eq_member)+
    then show False using q r ties [of x y] \<open>x \<noteq> y\<close> by auto
  qed
  then show ?thesis using q(1) r(1) by simp
qed

end

section \<open>Sifting keeps the heap\<close>

definition is_heap :: "('a \<Rightarrow> 'a \<Rightarrow> bool) \<Rightarrow> 'a list \<Rightarrow> bool" where
  "is_heap lt h \<longleftrightarrow> (\<forall>i<length h. 0 < i \<longrightarrow> \<not> lt (h ! i) (h ! parent i))"

lemma parent_less: "0 < j \<Longrightarrow> parent j < j"
  by (auto simp: parent_def)

lemma parent_le: "parent j \<le> j"
  by (auto simp: parent_def)

lemma parent_eq_iff: "0 < c \<Longrightarrow> parent c = i \<longleftrightarrow> c = 2 * i + 1 \<or> c = 2 * i + 2"
  by (auto simp: parent_def)

lemma length_swap [simp]: "length (swap i j h) = length h"
  by (simp add: swap_def)

lemma mset_swap_eq [simp]: "i < length h \<Longrightarrow> j < length h \<Longrightarrow> mset (swap i j h) = mset h"
  by (simp add: swap_def mset_swap)

lemma nth_swap: "i < length h \<Longrightarrow> j < length h \<Longrightarrow>
    swap i j h ! k = (if k = j then h ! i else if k = i then h ! j else h ! k)"
  by (auto simp: swap_def nth_list_update)

lemma heap_up_mset [simp]: "j < length h \<Longrightarrow> mset (heap_up lt j h) = mset h"
proof (induction lt j h rule: heap_up.induct)
  case (1 lt j h)
  then show ?case
    using parent_le [of j] by (subst heap_up.simps) (auto simp: Let_def)
qed

lemma length_heap_up [simp]: "j < length h \<Longrightarrow> length (heap_up lt j h) = length h"
  using mset_eq_length heap_up_mset by blast

lemma heap_down_length [simp]: "length (heap_down lt i n h) = length h"
proof (induction lt i n h rule: heap_down.induct)
  case (1 lt i n h)
  then show ?case by (subst heap_down.simps) (simp add: Let_def)
qed

lemma heap_down_mset: "n \<le> length h \<Longrightarrow> mset (heap_down lt i n h) = mset h"
proof (induction lt i n h rule: heap_down.induct)
  case (1 lt i n h)
  then show ?case by (subst heap_down.simps) (auto simp: Let_def)
qed

lemma heap_down_beyond: "i < n \<Longrightarrow> n \<le> k \<Longrightarrow> n \<le> length h \<Longrightarrow> heap_down lt i n h ! k = h ! k"
proof (induction lt i n h rule: heap_down.induct)
  case (1 lt i n h)
  then show ?case by (subst heap_down.simps) (auto simp: Let_def nth_swap)
qed

text \<open>One step of sifting down, \<open>j\<close> being the child that is compared.\<close>

lemma heap_down_step:
  "2 * i + 1 < n \<Longrightarrow> j = (if 2 * i + 2 < n \<and> lt (h ! (2 * i + 2)) (h ! (2 * i + 1)) then 2 * i + 2 else 2 * i + 1)
    \<Longrightarrow> heap_down lt i n h = (if lt (h ! j) (h ! i) then heap_down lt j n (swap i j h) else h)"
  by (subst heap_down.simps) (simp add: Let_def)

lemma heap_down_leaf: "n \<le> 2 * i + 1 \<Longrightarrow> heap_down lt i n h = h"
  by (subst heap_down.simps) simp

text \<open>\<open>lt\<close> is a strict weak order: not being less is transitive.\<close>

locale weak_order =
  fixes lt :: "'a \<Rightarrow> 'a \<Rightarrow> bool"
  assumes asym: "lt x y \<Longrightarrow> \<not> lt y x"
    and not_lt_trans: "\<not> lt x y \<Longrightarrow> \<not> lt y z \<Longrightarrow> \<not> lt x z"
begin

lemma lt_not_lt: "lt x y \<Longrightarrow> \<not> lt z y \<Longrightarrow> \<not> lt z x"
  using asym not_lt_trans by blast

text \<open>A heap except that the element at \<open>j\<close> may precede its parent.\<close>

lemma heap_up_heap:
  assumes "j < length h"
    and "\<And>i. i < length h \<Longrightarrow> 0 < i \<Longrightarrow> i \<noteq> j \<Longrightarrow> \<not> lt (h ! i) (h ! parent i)"
    and "\<And>c. c < length h \<Longrightarrow> 0 < c \<Longrightarrow> parent c = j \<Longrightarrow> 0 < j \<Longrightarrow> \<not> lt (h ! c) (h ! parent j)"
  shows "is_heap lt (heap_up lt j h)"
  using assms
proof (induction j arbitrary: h rule: less_induct)
  case (less j)
  let ?i = "parent j" and ?h = "swap (parent j) j h"
  show ?case
  proof (cases "?i = j \<or> \<not> lt (h ! j) (h ! ?i)")
    case True
    have "\<not> lt (h ! k) (h ! parent k)" if "k < length h" "0 < k" for k
      using True less.prems(2) [OF that] parent_less [OF that(2)] by (cases "k = j") auto
    then show ?thesis using True by (subst heap_up.simps) (simp add: is_heap_def Let_def)
  next
    case False
    then have j: "0 < j" "?i < j" "?i < length h"
      using parent_less [of j] less.prems(1) by (auto simp: parent_def)
    note n = nth_swap [OF j(3) less.prems(1)]
    have "is_heap lt (heap_up lt ?i ?h)"
    proof (rule less.IH [OF j(2)])
      fix k assume k: "k < length ?h" "0 < k" "k \<noteq> ?i"
      show "\<not> lt (?h ! k) (?h ! parent k)"
      proof (cases "k = j")
        case True
        then show ?thesis using False j asym by (simp add: n)
      next
        case other: False
        then have *: "\<not> lt (h ! k) (h ! parent k)" using k less.prems(2) by simp
        show ?thesis
          using * other k False j less.prems(3) [of k] asym [of "h ! j" "h ! ?i"]
            not_lt_trans [of "h ! k" "h ! ?i" "h ! j"]
          by (auto simp: n)
      qed
    next
      fix c assume c: "c < length ?h" "0 < c" "parent c = ?i" "0 < ?i"
      have i: "\<not> lt (h ! ?i) (h ! parent ?i)" using less.prems(2) [of ?i] j c by simp
      have "parent ?i < ?i" using parent_less c(4) by blast
      moreover have "c \<noteq> ?i" using parent_less [OF c(2)] c(3) by auto
      moreover have "\<not> lt (h ! c) (h ! parent ?i)" if "c \<noteq> j"
        using not_lt_trans [OF _ i, of "h ! c"] less.prems(2) [of c] c that by simp
      ultimately show "\<not> lt (?h ! c) (?h ! parent ?i)"
        using i j by (cases "c = j") (simp_all add: n)
    qed (use j in simp)
    then show ?thesis using False by (subst heap_up.simps) (simp add: Let_def)
  qed
qed

lemma is_heap_Push: "is_heap lt h \<Longrightarrow> is_heap lt (heap_Push lt x h)"
  unfolding heap_Push_def
proof (rule heap_up_heap)
  fix i assume "is_heap lt h" "i < length (h @ [x])" "0 < i" "i \<noteq> length h"
  then show "\<not> lt ((h @ [x]) ! i) ((h @ [x]) ! parent i)"
    using parent_le [of i] by (simp add: is_heap_def nth_append)
next
  fix c assume "c < length (h @ [x])" "0 < c" "parent c = length h"
  then show "\<not> lt ((h @ [x]) ! c) ((h @ [x]) ! parent (length h))"
    using parent_less [of c] by simp
qed simp

lemma heap_down_heap:
  assumes "n \<le> length h"
    and "\<And>k. k < n \<Longrightarrow> 0 < k \<Longrightarrow> parent k \<noteq> i \<Longrightarrow> \<not> lt (h ! k) (h ! parent k)"
    and "\<And>c. c < n \<Longrightarrow> 0 < c \<Longrightarrow> parent c = i \<Longrightarrow> 0 < i \<Longrightarrow> \<not> lt (h ! c) (h ! parent i)"
    and "k < n" "0 < k"
  shows "\<not> lt (heap_down lt i n h ! k) (heap_down lt i n h ! parent k)"
  using assms
proof (induction "n - i" arbitrary: i h rule: less_induct)
  case less
  show ?case
  proof (cases "n \<le> 2 * i + 1")
    case True
    then have "parent k \<noteq> i" using less.prems(4,5) by (auto simp: parent_def)
    then show ?thesis using True less.prems by (simp add: heap_down_leaf)
  next
    case False
    then obtain j where jdef: "2 * i + 1 < n"
      "j = (if 2 * i + 2 < n \<and> lt (h ! (2 * i + 2)) (h ! (2 * i + 1)) then 2 * i + 2 else 2 * i + 1)"
      by simp
    note step = heap_down_step [of i n j lt h, OF jdef]
    have j: "j < n" "i < j" "parent j = i" "0 < j" using jdef by (auto simp: parent_def)
    have least: "\<not> lt (h ! c) (h ! j)" if "c < n" "0 < c" "parent c = i" for c
      using that asym jdef(2) by (auto simp: parent_eq_iff)
    show ?thesis
    proof (cases "lt (h ! j) (h ! i)")
      case stop: False
      then have "\<not> lt (h ! k) (h ! parent k)"
        using less.prems(2,4,5) least [of k] not_lt_trans by (cases "parent k = i") blast+
      then show ?thesis using stop by (simp add: step)
    next
      case True
      let ?h = "swap i j h"
      have lens: "i < length h" "j < length h" using j less.prems(1) by auto
      note m = nth_swap [OF lens]
      have "\<not> lt (heap_down lt j n ?h ! k) (heap_down lt j n ?h ! parent k)"
      proof (rule less.hyps)
        fix c assume c: "c < n" "0 < c" "parent c \<noteq> j"
        show "\<not> lt (?h ! c) (?h ! parent c)"
        proof (cases "c = j")
          case True
          then show ?thesis using asym [OF \<open>lt (h ! j) (h ! i)\<close>] j by (simp add: m)
        next
          case False
          then show ?thesis
            using c j least [of c] less.prems(2) [of c] less.prems(3) [of j] parent_less [OF c(2)]
            by (cases "c = i"; cases "parent c = i") (simp_all add: m)
        qed
      next
        fix c assume c: "c < n" "0 < c" "parent c = j"
        then show "\<not> lt (?h ! c) (?h ! parent j)"
          using j True less.prems(2) [of c] parent_less [of c] by (simp add: m)
      qed (use j less.prems in \<open>simp_all add: diff_less_mono2\<close>)
      then show ?thesis using True by (simp add: step)
    qed
  qed
qed


lemma heap_Pop_swap:
  assumes "h \<noteq> []" and "n = length h - 1"
  shows "swap 0 n h ! n = h ! 0" "n < length h" "length (swap 0 n h) = Suc n"
  using assms by (auto simp: nth_swap)

lemma heap_Pop_fst: "h \<noteq> [] \<Longrightarrow> fst (heap_Pop lt h) = h ! 0"
proof -
  assume h: "h \<noteq> []"
  let ?n = "length h - 1"
  have "heap_down lt 0 ?n (swap 0 ?n h) ! ?n = h ! 0"
  proof (cases "0 < ?n")
    case True
    then show ?thesis using heap_Pop_swap [OF h refl] by (simp add: heap_down_beyond)
  next
    case False
    then have "?n = 0" by simp
    then show ?thesis using heap_Pop_swap [OF h refl] by (simp add: heap_down_leaf)
  qed
  then show ?thesis by (simp add: heap_Pop_def Let_def)
qed

lemma heap_Pop_mset:
  assumes "h \<noteq> []" and "heap_Pop lt h = (x, h')"
  shows "mset h = add_mset x (mset h')"
proof -
  let ?n = "length h - 1"
  let ?d = "heap_down lt 0 ?n (swap 0 ?n h)"
  have len: "length ?d = Suc ?n" using assms(1) by simp
  have "mset ?d = mset h"
    using heap_down_mset [of ?n "swap 0 ?n h"] assms(1) by simp
  moreover have "?d = take ?n ?d @ [?d ! ?n]"
    using take_Suc_conv_app_nth [of ?n ?d] len by simp
  then have "mset ?d = add_mset (?d ! ?n) (mset (take ?n ?d))"
    by (metis mset.simps mset_append add_mset_add_single)
  ultimately show ?thesis using assms(2) by (auto simp: heap_Pop_def Let_def)
qed

lemma is_heap_root:
  assumes "is_heap lt h" "i < length h"
  shows "\<not> lt (h ! i) (h ! 0)"
  using assms(2)
proof (induction i rule: less_induct)
  case (less i)
  show ?case
  proof (cases "i = 0")
    case False
    then have "\<not> lt (h ! i) (h ! parent i)" using assms(1) less.prems by (simp add: is_heap_def)
    moreover have "\<not> lt (h ! parent i) (h ! 0)"
      using False less parent_less [of i] by simp
    ultimately show ?thesis by (rule not_lt_trans)
  qed (use asym in blast)
qed

lemma is_heap_Pop:
  assumes "is_heap lt h" "h \<noteq> []" "heap_Pop lt h = (x, h')"
  shows "is_heap lt h'"
proof -
  let ?n = "length h - 1"
  let ?s = "swap 0 ?n h" and ?d = "heap_down lt 0 (length h - 1) (swap 0 (length h - 1) h)"
  have h': "h' = take ?n ?d" using assms(3) by (auto simp: heap_Pop_def Let_def)
  have "\<not> lt (?d ! k) (?d ! parent k)" if k: "k < ?n" "0 < k" for k
  proof (rule heap_down_heap [OF _ _ _ k])
    fix c assume c: "c < ?n" "0 < c" "parent c \<noteq> 0"
    then have "?s ! c = h ! c" "?s ! parent c = h ! parent c"
      using parent_less [OF c(2)] assms(2) by (simp_all add: nth_swap)
    then show "\<not> lt (?s ! c) (?s ! parent c)"
      using assms(1) c by (simp add: is_heap_def)
  qed (use assms(2) in simp_all)
  moreover have "h' ! i = ?d ! i \<and> h' ! parent i = ?d ! parent i" if "i < ?n" for i
    using parent_le [of i] that by (simp add: h')
  ultimately show ?thesis by (simp add: h' is_heap_def)
qed

lemma heap_is_priority_queue: "priority_queue lt (heap_Push lt) (heap_Pop lt) mset (is_heap lt)"
proof
  show "is_heap lt (heap_Push lt x q)" if "is_heap lt q" for x q
    using that by (rule is_heap_Push)
  show "mset (heap_Push lt x q) = add_mset x (mset q)" for x q
    by (simp add: heap_Push_def)
  fix q q' x assume q: "is_heap lt q" "mset q \<noteq> {#}" "heap_Pop lt q = (x, q')"
  then have ne: "q \<noteq> []" by auto
  have "x = q ! 0" using heap_Pop_fst [OF ne] q(3) by simp
  moreover have "set q' \<subseteq> set q"
    using heap_Pop_mset [OF ne q(3)] by (metis set_mset_mset set_mset_add_mset_insert subset_insertI)
  ultimately have "\<forall>y\<in>#mset q'. \<not> lt y x"
    using is_heap_root [OF q(1)] by (force simp: in_set_conv_nth)
  then show "is_heap lt q' \<and> mset q = add_mset x (mset q') \<and> (\<forall>y\<in>#mset q'. \<not> lt y x)"
    using is_heap_Pop [OF q(1) ne q(3)] heap_Pop_mset [OF ne q(3)] by blast
qed

end

sublocale weak_order \<subseteq> pq: priority_queue lt "heap_Push lt" "heap_Pop lt" mset "is_heap lt"
  by (rule heap_is_priority_queue)

end
