(* ===== verification/Mempool.thy ===== *)
theory Mempool
  imports Sample Heap
begin

text \<open>
  Pending transactions, \<open>pkg/mempool/mempool.go\<close>: one queue per sender in the order of the nonces,
  admission (\<open>AddTx\<close>) and the selection for a block (\<open>SelectForBlock\<close>) through a heap of the first
  runnable transaction of every sender.

  The interfaces \<open>StateView\<close> and \<open>Coster\<close> are arguments of the operations that call them; so are
  the orders in which Go's \<open>range\<close> walks the two maps. The struct \<open>senderState\<close> is only reached
  through its map, so updating it in place is writing the map; the accounts in it are fresh
  decodings of the store.
\<close>

section \<open>Definitions\<close>

record mempool =
  mp_pool :: "address \<rightharpoonup> transaction list"

definition Mempool_New :: mempool where
  "Mempool_New = \<lparr>mp_pool = Map.empty\<rparr>"

definition queue_of :: "mempool \<Rightarrow> address \<Rightarrow> transaction list" where
  "queue_of m addr = (case mp_pool m addr of None \<Rightarrow> [] | Some q \<Rightarrow> q)"

text \<open>The loop of \<open>AddTx\<close> over the queue: insert before the first larger nonce, refuse an equal one.\<close>

fun insert_by_nonce :: "transaction \<Rightarrow> transaction list \<Rightarrow> error + transaction list" where
  "insert_by_nonce txn [] = Inr [txn]"
| "insert_by_nonce txn (existing # queue) =
     (if tx_Nonce txn = tx_Nonce existing then Inl ''duplicate nonce''
      else if tx_Nonce txn < tx_Nonce existing then Inr (txn # existing # queue)
      else bind_err (insert_by_nonce txn queue) (\<lambda>queue. Inr (existing # queue)))"

definition AddTx ::
  "protowire \<Rightarrow> crypto_lib \<Rightarrow> (address \<Rightarrow> error + account option) \<Rightarrow> (transaction option \<Rightarrow> error + u64)
   \<Rightarrow> transaction option \<Rightarrow> mempool \<Rightarrow> error + mempool"
where
  "AddTx pw cl getA costOf txn m =
     (case txn of
        None \<Rightarrow> Inl ''tx is nil''
      | Some tx \<Rightarrow>
          guard_err (tx_From tx = [] \<or> tx_To tx = []) ''invalid sender or recipient''
         (bind_err (getA (tx_From tx)) (\<lambda>acct.
          let acct = or_zero (tx_From tx) acct in
          bind_err (DecodePayload pw (tx_Payload tx)) (\<lambda>env.
          bind_err (ResolveSenderPubKey cl (Some tx) (acct_PubKey acct) (env_SenderPubKey env)) (\<lambda>(pubKey, _).
          bind_err (VerifySignature pw cl (Some tx) pubKey) (\<lambda>_.
          guard_err (tx_Nonce tx < acct_Nonce acct) ''stale nonce''
         (bind_err (costOf (Some tx)) (\<lambda>cost.
          guard_err (acct_RC acct < cost) ''insufficient rc''
         (bind_err (insert_by_nonce tx (queue_of m (tx_From tx))) (\<lambda>queue.
          Inr (m\<lparr>mp_pool := (mp_pool m)(tx_From tx \<mapsto> queue)\<rparr>)))))))))))"

text \<open>Items of the heap and their order, \<open>txHeap.Less\<close>: the dearer first, then by the hash in hex.\<close>

record tx_item =
  it_tx :: transaction
  it_cost :: u64
  it_hash :: hash
  it_sender :: address

definition hex_digit :: "nat \<Rightarrow> char" where
  "hex_digit n = ''0123456789abcdef'' ! n"

definition Hash_String :: "hash \<Rightarrow> string" where
  "Hash_String h = concat (map (\<lambda>b. [hex_digit (unat b div 16), hex_digit (unat b mod 16)]) h)"

definition item_less :: "tx_item \<Rightarrow> tx_item \<Rightarrow> bool" where
  "item_less x y =
     (if it_cost x \<noteq> it_cost y then it_cost y < it_cost x
      else Hash_String (it_hash x) < Hash_String (it_hash y))"

record sender_state =
  ss_acct :: account
  ss_cursor :: nat
  ss_queue :: "transaction list"

fun load_senders ::
  "(address \<Rightarrow> error + account option) \<Rightarrow> mempool \<Rightarrow> address list \<Rightarrow> (address \<rightharpoonup> sender_state)
   \<Rightarrow> error + (address \<rightharpoonup> sender_state)"
where
  "load_senders getA m [] senders = Inr senders"
| "load_senders getA m (addr # order) senders =
     bind_err (getA addr) (\<lambda>acct.
       case acct of
         None \<Rightarrow> load_senders getA m order senders
       | Some a \<Rightarrow>
           if queue_of m addr = [] then load_senders getA m order senders
           else load_senders getA m order
             (senders(addr \<mapsto> \<lparr>ss_acct = a, ss_cursor = 0, ss_queue = queue_of m addr\<rparr>)))"

text \<open>A sender's next transaction goes into the heap when its nonce is due and the credits suffice.\<close>

definition offer ::
  "protowire \<Rightarrow> crypto_lib \<Rightarrow> (transaction option \<Rightarrow> error + u64) \<Rightarrow> address \<Rightarrow> account \<Rightarrow> transaction
   \<Rightarrow> tx_item list \<Rightarrow> error + tx_item list"
where
  "offer pw cl costOf addr acct tx h =
     (if tx_Nonce tx \<noteq> acct_Nonce acct then Inr h
      else bind_err (costOf (Some tx)) (\<lambda>cost.
        if acct_RC acct < cost then Inr h
        else bind_err (HashTransaction pw (Sum256 cl) (Some tx)) (\<lambda>txHash.
          Inr (heap_Push item_less \<lparr>it_tx = tx, it_cost = cost, it_hash = txHash, it_sender = addr\<rparr> h))))"

fun seed_heap ::
  "protowire \<Rightarrow> crypto_lib \<Rightarrow> (transaction option \<Rightarrow> error + u64) \<Rightarrow> (address \<rightharpoonup> sender_state)
   \<Rightarrow> address list \<Rightarrow> tx_item list \<Rightarrow> error + tx_item list"
where
  "seed_heap pw cl costOf senders [] h = Inr h"
| "seed_heap pw cl costOf senders (addr # order) h =
     (case senders addr of
        None \<Rightarrow> seed_heap pw cl costOf senders order h
      | Some st \<Rightarrow>
          bind_err (offer pw cl costOf addr (ss_acct st) (ss_queue st ! 0) h)
            (seed_heap pw cl costOf senders order))"

text \<open>Applying a selected transaction to the local copy of its sender.\<close>

definition consume :: "tx_item \<Rightarrow> sender_state \<Rightarrow> sender_state" where
  "consume item st =
     (let acct = ss_acct st;
          acct = acct\<lparr>acct_Nonce := acct_Nonce acct + 1\<rparr>;
          acct = (if it_cost item \<le> acct_RC acct then acct\<lparr>acct_RC := acct_RC acct - it_cost item\<rparr>
                  else acct\<lparr>acct_RC := 0\<rparr>)
      in st\<lparr>ss_acct := acct, ss_cursor := ss_cursor st + 1\<rparr>)"

text \<open>The selection loop; the number is \<open>max - len(out)\<close>. Every item's sender is a key of the map,
  so the pointer read from it is never nil.\<close>

fun select_loop ::
  "protowire \<Rightarrow> crypto_lib \<Rightarrow> (transaction option \<Rightarrow> error + u64) \<Rightarrow> nat \<Rightarrow> (address \<rightharpoonup> sender_state)
   \<Rightarrow> tx_item list \<Rightarrow> transaction list \<Rightarrow> error + transaction list"
where
  "select_loop pw cl costOf 0 senders h out = Inr out"
| "select_loop pw cl costOf (Suc k) senders h out =
     (if h = [] then Inr out
      else
        let (item, h) = heap_Pop item_less h;
            out = out @ [it_tx item]
        in case senders (it_sender item) of
             None \<Rightarrow> Inl ''nil pointer dereference''
           | Some st \<Rightarrow>
               let st = consume item st;
                   senders = senders(it_sender item \<mapsto> st)
               in if length (ss_queue st) \<le> ss_cursor st
                  then select_loop pw cl costOf k senders h out
                  else bind_err (offer pw cl costOf (it_sender item) (ss_acct st) (ss_queue st ! ss_cursor st) h)
                         (\<lambda>h. select_loop pw cl costOf k senders h out))"

definition SelectForBlock ::
  "protowire \<Rightarrow> crypto_lib \<Rightarrow> (address \<Rightarrow> error + account option) \<Rightarrow> (transaction option \<Rightarrow> error + u64)
   \<Rightarrow> address list \<Rightarrow> address list \<Rightarrow> int \<Rightarrow> mempool \<Rightarrow> error + transaction list"
where
  "SelectForBlock pw cl getA costOf poolOrder senderOrder max_txs m =
     (if max_txs \<le> 0 then Inr []
      else bind_err (load_senders getA m poolOrder Map.empty) (\<lambda>senders.
           bind_err (seed_heap pw cl costOf senders senderOrder []) (\<lambda>h.
           select_loop pw cl costOf (nat max_txs) senders h [])))"

section \<open>Admission\<close>

lemma insert_by_nonce_ok:
  assumes "insert_by_nonce txn q = Inr q'" and "sorted_wrt (\<lambda>x y. tx_Nonce x < tx_Nonce y) q"
  shows "sorted_wrt (\<lambda>x y. tx_Nonce x < tx_Nonce y) q' \<and> mset q' = add_mset txn (mset q)"
  using assms
proof (induction txn q arbitrary: q' rule: insert_by_nonce.induct)
  case (2 txn existing queue)
  show ?case
  proof (cases "tx_Nonce txn < tx_Nonce existing")
    case True
    then show ?thesis
      using 2 less_trans [of "tx_Nonce txn" "tx_Nonce existing"] by (auto split: if_splits)
  next
    case False
    then obtain q where q: "insert_by_nonce txn queue = Inr q" "q' = existing # q"
      "tx_Nonce existing < tx_Nonce txn"
      using "2.prems" by (auto split: if_splits)
    then have IH: "sorted_wrt (\<lambda>x y. tx_Nonce x < tx_Nonce y) q" "mset q = add_mset txn (mset queue)"
      using "2.IH" "2.prems" False by auto
    then have "set q = insert txn (set queue)" by (metis set_mset_mset set_mset_add_mset_insert)
    then show ?thesis using IH q "2.prems"(2) by simp
  qed
qed simp

lemma insert_by_nonce_dup:
  "sorted_wrt (\<lambda>x y. tx_Nonce x < tx_Nonce y) q \<Longrightarrow>
    (\<exists>q'. insert_by_nonce txn q = Inr q') \<longleftrightarrow> tx_Nonce txn \<notin> tx_Nonce ` set q"
  by (induction txn q rule: insert_by_nonce.induct) (fastforce split: if_splits)+

text \<open>What every pooled transaction has passed.\<close>

definition admitted :: "protowire \<Rightarrow> crypto_lib \<Rightarrow> transaction \<Rightarrow> bool" where
  "admitted pw cl tx \<longleftrightarrow> tx_From tx \<noteq> [] \<and> tx_To tx \<noteq> [] \<and>
     (\<exists>env pk msg. DecodePayload pw (tx_Payload tx) = Inr env \<and> length pk = 32
       \<and> AddressFromPubKey cl pk = Inr (tx_From tx)
       \<and> SigningBytes pw (Some tx) = Inr msg \<and> Ed25519Verify cl pk msg (tx_Signature tx))"

definition pool_ok :: "protowire \<Rightarrow> crypto_lib \<Rightarrow> mempool \<Rightarrow> bool" where
  "pool_ok pw cl m \<longleftrightarrow> (\<forall>addr q. mp_pool m addr = Some q \<longrightarrow>
     q \<noteq> [] \<and> sorted_wrt (\<lambda>x y. tx_Nonce x < tx_Nonce y) q \<and>
     (\<forall>tx\<in>set q. tx_From tx = addr \<and> admitted pw cl tx))"

inductive mempool_run :: "protowire \<Rightarrow> crypto_lib \<Rightarrow> mempool \<Rightarrow> bool" for pw cl where
  new: "mempool_run pw cl Mempool_New"
| add: "mempool_run pw cl m \<Longrightarrow> AddTx pw cl getA costOf txn m = Inr m' \<Longrightarrow> mempool_run pw cl m'"

lemma AddTx_ok:
  assumes "AddTx pw cl getA costOf (Some tx) m = Inr m'"
  obtains acct cost queue where
    "getA (tx_From tx) = Inr acct" "admitted pw cl tx" "\<not> tx_Nonce tx < acct_Nonce (or_zero (tx_From tx) acct)"
    "costOf (Some tx) = Inr cost" "cost \<le> acct_RC (or_zero (tx_From tx) acct)"
    "insert_by_nonce tx (queue_of m (tx_From tx)) = Inr queue"
    "m' = m\<lparr>mp_pool := (mp_pool m)(tx_From tx \<mapsto> queue)\<rparr>"
proof -
  from assms show thesis
    by (auto simp: AddTx_def Let_def admitted_def ResolveSenderPubKey_ok VerifySignature_ok not_less
        Ed25519PublicKeySize_def split: if_splits intro!: that)
qed

lemma pool_ok_new: "pool_ok pw cl Mempool_New"
  by (simp add: pool_ok_def Mempool_New_def)

lemma pool_ok_add:
  assumes "pool_ok pw cl m" and "AddTx pw cl getA costOf txn m = Inr m'"
  shows "pool_ok pw cl m'"
proof -
  obtain tx where tx: "txn = Some tx" using assms(2) by (cases txn) (auto simp: AddTx_def)
  obtain queue where q: "admitted pw cl tx" "insert_by_nonce tx (queue_of m (tx_From tx)) = Inr queue"
    "m' = m\<lparr>mp_pool := (mp_pool m)(tx_From tx \<mapsto> queue)\<rparr>"
    using assms(2) unfolding tx by (rule AddTx_ok)
  have old: "sorted_wrt (\<lambda>x y. tx_Nonce x < tx_Nonce y) (queue_of m (tx_From tx))"
    "\<forall>t\<in>set (queue_of m (tx_From tx)). tx_From t = tx_From tx \<and> admitted pw cl t"
    using assms(1) by (cases "mp_pool m (tx_From tx)"; auto simp: pool_ok_def queue_of_def)+
  note new = insert_by_nonce_ok [OF q(2) old(1)]
  then have "set queue = insert tx (set (queue_of m (tx_From tx)))"
    by (metis set_mset_mset set_mset_add_mset_insert)
  then show ?thesis using assms(1) new q old(2) by (auto simp: pool_ok_def)
qed

lemma mempool_run_ok: "mempool_run pw cl m \<Longrightarrow> pool_ok pw cl m"
  by (induction rule: mempool_run.induct) (auto intro: pool_ok_new pool_ok_add)


section \<open>The order of the items\<close>

interpretation items: weak_order item_less
proof
  fix x y z :: tx_item
  show "item_less x y \<Longrightarrow> \<not> item_less y x"
    by (auto simp: item_less_def split: if_splits)
  show "\<not> item_less x y \<Longrightarrow> \<not> item_less y z \<Longrightarrow> \<not> item_less x z"
    by (auto simp: item_less_def not_less split: if_splits intro: order_trans)
qed

lemma hex_digit_inject: "i < 16 \<Longrightarrow> j < 16 \<Longrightarrow> hex_digit i = hex_digit j \<longleftrightarrow> i = j"
proof -
  have "distinct ''0123456789abcdef''" by simp
  then show "i < 16 \<Longrightarrow> j < 16 \<Longrightarrow> hex_digit i = hex_digit j \<longleftrightarrow> i = j"
    unfolding hex_digit_def by (rule nth_eq_iff_index_eq) simp_all
qed

lemma unat_u8_less: "unat (b :: u8) < 256"
  using unsigned_less [of b, where ?'a = nat] by simp

lemma Hash_String_inject: "Hash_String g = Hash_String h \<longleftrightarrow> g = h"
proof (induction g arbitrary: h)
  case Nil
  then show ?case by (cases h) (auto simp: Hash_String_def)
next
  case (Cons b g)
  show ?case
  proof (cases h)
    case Nil
    then show ?thesis by (simp add: Hash_String_def)
  next
    case (Cons c h')
    have "unat b div 16 < 16" "unat c div 16 < 16"
      using unat_u8_less [of b] unat_u8_less [of c] by auto
    moreover have "unat b div 16 = unat c div 16 \<and> unat b mod 16 = unat c mod 16 \<longleftrightarrow> b = c"
      by (metis div_mult_mod_eq unsigned_word_eqI)
    ultimately show ?thesis
      using Cons.IH [of h'] Cons by (auto simp: Hash_String_def hex_digit_inject)
  qed
qed

lemma item_tied: "\<not> item_less x y \<Longrightarrow> \<not> item_less y x \<Longrightarrow> it_cost x = it_cost y \<and> it_hash x = it_hash y"
  by (auto simp: item_less_def Hash_String_inject not_less split: if_splits)

section \<open>What the heap holds\<close>

text \<open>The costs and hashes of transactions for which the calls succeed, and the item of a sender
  whose next transaction can run.\<close>

definition cost_of :: "(transaction option \<Rightarrow> error + u64) \<Rightarrow> transaction \<Rightarrow> u64" where
  "cost_of costOf tx = (case costOf (Some tx) of Inl _ \<Rightarrow> 0 | Inr c \<Rightarrow> c)"

definition hash_of :: "protowire \<Rightarrow> crypto_lib \<Rightarrow> transaction \<Rightarrow> hash" where
  "hash_of pw cl tx = (case HashTransaction pw (Sum256 cl) (Some tx) of Inl _ \<Rightarrow> [] | Inr h \<Rightarrow> h)"

definition item_of ::
  "protowire \<Rightarrow> crypto_lib \<Rightarrow> (transaction option \<Rightarrow> error + u64) \<Rightarrow> address \<Rightarrow> transaction \<Rightarrow> tx_item"
where
  "item_of pw cl costOf addr tx =
     \<lparr>it_tx = tx, it_cost = cost_of costOf tx, it_hash = hash_of pw cl tx, it_sender = addr\<rparr>"

definition due :: "(transaction option \<Rightarrow> error + u64) \<Rightarrow> account \<Rightarrow> transaction \<Rightarrow> bool" where
  "due costOf acct tx \<longleftrightarrow> tx_Nonce tx = acct_Nonce acct \<and> cost_of costOf tx \<le> acct_RC acct"

definition next_due :: "(transaction option \<Rightarrow> error + u64) \<Rightarrow> sender_state \<Rightarrow> bool" where
  "next_due costOf st \<longleftrightarrow> ss_cursor st < length (ss_queue st) \<and>
     due costOf (ss_acct st) (ss_queue st ! ss_cursor st)"

definition heads ::
  "protowire \<Rightarrow> crypto_lib \<Rightarrow> (transaction option \<Rightarrow> error + u64) \<Rightarrow> (address \<rightharpoonup> sender_state) \<Rightarrow> tx_item set"
where
  "heads pw cl costOf senders =
     {item_of pw cl costOf addr (ss_queue st ! ss_cursor st) | addr st.
        senders addr = Some st \<and> next_due costOf st}"

lemma offer_ok:
  "offer pw cl costOf addr acct tx h = Inr h' \<Longrightarrow>
    h' = (if due costOf acct tx then heap_Push item_less (item_of pw cl costOf addr tx) h else h)"
  by (auto simp: offer_def due_def item_of_def cost_of_def hash_of_def split: if_splits)

text \<open>Whether an offer succeeds does not depend on the heap.\<close>

lemma offer_total:
  "offer pw cl costOf addr acct tx h = Inr h' \<Longrightarrow> \<exists>g'. offer pw cl costOf addr acct tx g = Inr g'"
  by (auto simp: offer_def split: if_splits)

lemma heads_sender: "x \<in> heads pw cl costOf senders \<longleftrightarrow>
    (\<exists>st. senders (it_sender x) = Some st \<and> next_due costOf st \<and>
       x = item_of pw cl costOf (it_sender x) (ss_queue st ! ss_cursor st))"
  by (auto simp: heads_def item_of_def)

lemma heads_upd: "heads pw cl costOf (senders(addr \<mapsto> st)) =
    {x \<in> heads pw cl costOf senders. it_sender x \<noteq> addr} \<union>
    (if next_due costOf st then {item_of pw cl costOf addr (ss_queue st ! ss_cursor st)} else {})"
  by (rule set_eqI) (auto simp: heads_sender item_of_def)


definition heap_holds ::
  "protowire \<Rightarrow> crypto_lib \<Rightarrow> (transaction option \<Rightarrow> error + u64) \<Rightarrow> (address \<rightharpoonup> sender_state)
   \<Rightarrow> tx_item list \<Rightarrow> bool"
where
  "heap_holds pw cl costOf senders h \<longleftrightarrow>
     is_heap item_less h \<and> distinct h \<and> set h = heads pw cl costOf senders"

lemma heap_holds_empty: "heap_holds pw cl costOf Map.empty []"
  by (simp add: heap_holds_def is_heap_def heads_def)

lemma heap_Push_set: "set (heap_Push item_less x h) = insert x (set h)"
  by (metis items.pq.items_push set_mset_add_mset_insert set_mset_mset)

lemma heap_Push_distinct: "distinct (heap_Push item_less x h) \<longleftrightarrow> x \<notin> set h \<and> distinct h"
  by (metis distinct.simps(2) items.pq.items_push mset.simps(2) mset_eq_imp_distinct_iff)

lemma heap_holds_push:
  assumes "heap_holds pw cl costOf senders h" and "senders addr = None"
    and "if length (ss_queue st) \<le> ss_cursor st then h' = h
         else offer pw cl costOf addr (ss_acct st) (ss_queue st ! ss_cursor st) h = Inr h'"
  shows "heap_holds pw cl costOf (senders(addr \<mapsto> st)) h'"
proof -
  let ?x = "item_of pw cl costOf addr (ss_queue st ! ss_cursor st)"
  have h': "h' = (if next_due costOf st then heap_Push item_less ?x h else h)"
    using assms(3) by (auto simp: next_due_def dest: offer_ok split: if_splits)
  have others: "it_sender x \<noteq> addr" if "x \<in> set h" for x
    using that assms(1,2) by (auto simp: heap_holds_def heads_sender)
  then have "?x \<notin> set h" by (force simp: item_of_def)
  moreover have "{x \<in> heads pw cl costOf senders. it_sender x \<noteq> addr} = set h"
    using others assms(1) by (auto simp: heap_holds_def)
  ultimately show ?thesis
    using assms(1) by (auto simp: heap_holds_def h' heads_upd heap_Push_set heap_Push_distinct
        intro: items.is_heap_Push)
qed

lemma heads_remove: "heads pw cl costOf (senders(addr := None)) = {x \<in> heads pw cl costOf senders. it_sender x \<noteq> addr}"
  by (rule set_eqI) (auto simp: heads_sender)

lemma heap_holds_pop:
  assumes "heap_holds pw cl costOf senders h" and "h \<noteq> []" and "heap_Pop item_less h = (x, h')"
  obtains st where "senders (it_sender x) = Some st" "next_due costOf st"
    "x = item_of pw cl costOf (it_sender x) (ss_queue st ! ss_cursor st)"
    "heap_holds pw cl costOf (senders(it_sender x := None)) h'"
proof -
  have pop: "is_heap item_less h'" "mset h = add_mset x (mset h')"
    using items.pq.pop_spec [of h x h'] assms by (auto simp: heap_holds_def)
  then have "distinct (x # h')" using assms(1)
    by (metis heap_holds_def mset.simps(2) mset_eq_imp_distinct_iff)
  moreover have seth: "heads pw cl costOf senders = insert x (set h')"
    using pop(2) assms(1) by (metis heap_holds_def set_mset_mset set_mset_add_mset_insert)
  then have x: "x \<in> heads pw cl costOf senders" by simp
  have uniq: "y = x" if "y \<in> heads pw cl costOf senders" "it_sender y = it_sender x" for y
    using that x unfolding heads_sender by (metis option.sel)
  have "{y \<in> heads pw cl costOf senders. it_sender y \<noteq> it_sender x} = set h'"
    using uniq calculation(1) unfolding seth by auto
  then have "heap_holds pw cl costOf (senders(it_sender x := None)) h'"
    using calculation(1) pop(1) by (simp add: heap_holds_def heads_remove)
  with x show thesis using that unfolding heads_sender by blast
qed

text \<open>One round of the loop.\<close>

definition next_heap ::
  "protowire \<Rightarrow> crypto_lib \<Rightarrow> (transaction option \<Rightarrow> error + u64) \<Rightarrow> address \<Rightarrow> sender_state
   \<Rightarrow> tx_item list \<Rightarrow> error + tx_item list"
where
  "next_heap pw cl costOf addr st h =
     (if length (ss_queue st) \<le> ss_cursor st then Inr h
      else offer pw cl costOf addr (ss_acct st) (ss_queue st ! ss_cursor st) h)"

lemma select_loop_Suc:
  assumes "h \<noteq> []" "heap_Pop item_less h = (x, h1)" "senders (it_sender x) = Some st"
  shows "select_loop pw cl costOf (Suc k) senders h out =
    bind_err (next_heap pw cl costOf (it_sender x) (consume x st) h1)
      (\<lambda>h. select_loop pw cl costOf k (senders(it_sender x \<mapsto> consume x st)) h (out @ [it_tx x]))"
  using assms by (simp add: next_heap_def Let_def)

lemma next_heap_holds:
  assumes "heap_holds pw cl costOf (senders(addr := None)) h" "next_heap pw cl costOf addr st h = Inr h'"
  shows "heap_holds pw cl costOf (senders(addr \<mapsto> st)) h'"
  using heap_holds_push [OF assms(1), of addr st h'] assms(2)
  by (auto simp: next_heap_def split: if_splits)

text \<open>A property of the senders and the output that one round keeps holds when the loop ends.\<close>

lemma select_loop_inv:
  assumes "heap_holds pw cl costOf senders h" and "P senders out"
    and "select_loop pw cl costOf k senders h out = Inr res"
    and round: "\<And>senders out addr st. P senders out \<Longrightarrow> senders addr = Some st \<Longrightarrow> next_due costOf st \<Longrightarrow>
      P (senders(addr \<mapsto> consume (item_of pw cl costOf addr (ss_queue st ! ss_cursor st)) st))
        (out @ [ss_queue st ! ss_cursor st])"
  shows "\<exists>senders'. P senders' res \<and> length res \<le> length out + k \<and>
    (length res < length out + k \<longrightarrow> heads pw cl costOf senders' = {})"
  using assms(1-3)
proof (induction k arbitrary: senders h out)
  case (Suc k)
  show ?case
  proof (cases "h = []")
    case True
    then show ?thesis using Suc.prems by (auto simp: heap_holds_def)
  next
    case False
    obtain x h1 where pop: "heap_Pop item_less h = (x, h1)" by fastforce
    obtain st where st: "senders (it_sender x) = Some st" "next_due costOf st"
      "x = item_of pw cl costOf (it_sender x) (ss_queue st ! ss_cursor st)"
      "heap_holds pw cl costOf (senders(it_sender x := None)) h1"
      using heap_holds_pop [OF Suc.prems(1) False pop] by metis
    have itx: "it_tx x = ss_queue st ! ss_cursor st" by (subst st(3)) (simp add: item_of_def)
    obtain h2 where h2: "next_heap pw cl costOf (it_sender x) (consume x st) h1 = Inr h2"
      "select_loop pw cl costOf k (senders(it_sender x \<mapsto> consume x st)) h2 (out @ [it_tx x]) = Inr res"
      using Suc.prems(3) unfolding select_loop_Suc [of h x h1 senders st, OF False pop st(1)] by auto
    have "P (senders(it_sender x \<mapsto> consume x st)) (out @ [it_tx x])"
      using round [OF Suc.prems(2) st(1,2)] itx st(3) by simp
    from Suc.IH [OF next_heap_holds [OF st(4) h2(1)] this h2(2)] show ?thesis by simp
  qed
qed auto


section \<open>The senders and the seeds\<close>

definition loaded :: "(address \<Rightarrow> error + account option) \<Rightarrow> mempool \<Rightarrow> address \<Rightarrow> sender_state option" where
  "loaded getA m addr =
     (case getA addr of
        Inr (Some a) \<Rightarrow>
          if queue_of m addr = [] then None
          else Some \<lparr>ss_acct = a, ss_cursor = 0, ss_queue = queue_of m addr\<rparr>
      | _ \<Rightarrow> None)"

lemma load_senders_ok:
  "load_senders getA m order senders = Inr senders' \<longleftrightarrow>
    (\<forall>addr\<in>set order. \<exists>acct. getA addr = Inr acct) \<and>
    senders' = (\<lambda>addr. if addr \<in> set order \<and> loaded getA m addr \<noteq> None then loaded getA m addr else senders addr)"
proof (induction order arbitrary: senders)
  case (Cons addr order)
  show ?case
  proof (cases "getA addr")
    case (Inr acct)
    let ?s = "case loaded getA m addr of None \<Rightarrow> senders | Some st \<Rightarrow> senders(addr \<mapsto> st)"
    have "load_senders getA m (addr # order) senders = load_senders getA m order ?s"
      using Inr by (cases acct) (auto simp: loaded_def)
    moreover have "(\<lambda>a. if a \<in> set order \<and> loaded getA m a \<noteq> None then loaded getA m a else ?s a)
      = (\<lambda>a. if a \<in> set (addr # order) \<and> loaded getA m a \<noteq> None then loaded getA m a else senders a)"
      by (cases "loaded getA m addr") (auto simp: fun_eq_iff)
    ultimately show ?thesis using Cons.IH [of ?s] Inr by simp
  qed simp
qed auto

lemma loaded_dom: "loaded getA m addr = Some st \<Longrightarrow>
    ss_cursor st = 0 \<and> ss_queue st \<noteq> [] \<and> mp_pool m addr = Some (ss_queue st) \<and> getA addr = Inr (Some (ss_acct st))"
  by (auto simp: loaded_def queue_of_def split: sum.splits option.splits if_splits)

text \<open>\<open>range\<close> over a map visits every key once, in some order.\<close>

definition map_order :: "('k \<rightharpoonup> 'v) \<Rightarrow> 'k list \<Rightarrow> bool" where
  "map_order m order \<longleftrightarrow> distinct order \<and> set order = dom m"

lemma load_senders_loaded:
  assumes "map_order (mp_pool m) order"
  shows "load_senders getA m order Map.empty = Inr senders \<longleftrightarrow>
    (\<forall>addr\<in>dom (mp_pool m). \<exists>acct. getA addr = Inr acct) \<and> senders = loaded getA m"
proof -
  have "(\<lambda>addr. if addr \<in> set order \<and> loaded getA m addr \<noteq> None then loaded getA m addr else None) = loaded getA m"
  proof (rule ext)
    fix addr
    show "(if addr \<in> set order \<and> loaded getA m addr \<noteq> None then loaded getA m addr else None) = loaded getA m addr"
      using assms loaded_dom [of getA m addr] by (cases "loaded getA m addr") (auto simp: map_order_def)
  qed
  then show ?thesis using assms by (simp add: load_senders_ok map_order_def)
qed

lemma offer_any_heap:
  "(\<exists>h'. offer pw cl costOf addr acct tx h = Inr h') \<longleftrightarrow> (\<exists>h'. offer pw cl costOf addr acct tx [] = Inr h')"
  using offer_total by blast

lemma seed_heap_total:
  "(\<exists>h'. seed_heap pw cl costOf senders order h = Inr h') \<longleftrightarrow>
    (\<forall>addr\<in>set order. \<forall>st. senders addr = Some st \<longrightarrow>
       (\<exists>h'. offer pw cl costOf addr (ss_acct st) (ss_queue st ! 0) [] = Inr h'))"
proof (induction pw cl costOf senders order h rule: seed_heap.induct)
  case (2 pw cl costOf senders addr order h)
  show ?case
  proof (cases "senders addr")
    case None
    then show ?thesis using "2.IH"(1) by simp
  next
    case (Some st)
    have "(\<exists>h'. seed_heap pw cl costOf senders (addr # order) h = Inr h') \<longleftrightarrow>
        (\<exists>g. offer pw cl costOf addr (ss_acct st) (ss_queue st ! 0) h = Inr g \<and>
           (\<exists>h'. seed_heap pw cl costOf senders order g = Inr h'))"
      using Some by auto
    then show ?thesis
      using "2.IH"(2) [OF Some] offer_any_heap [of pw cl costOf addr "ss_acct st" "ss_queue st ! 0" h] Some by auto
  qed
qed simp

lemma seed_heap_holds:
  assumes "seed_heap pw cl costOf senders order h = Inr h'" and "distinct order" and "set order \<inter> P = {}"
    and "heap_holds pw cl costOf (senders |` P) h"
    and seeds: "\<And>addr st. senders addr = Some st \<Longrightarrow> ss_cursor st = 0 \<and> ss_queue st \<noteq> []"
  shows "heap_holds pw cl costOf (senders |` (P \<union> set order)) h'"
  using assms(1-4)
proof (induction order arbitrary: h P)
  case (Cons addr order)
  have split: "P \<union> set (addr # order) = insert addr P \<union> set order" by auto
  show ?case
  proof (cases "senders addr")
    case None
    then have "senders |` insert addr P = senders |` P" by (auto simp: restrict_map_def fun_eq_iff)
    then show ?thesis using Cons None unfolding split by (intro Cons.IH) auto
  next
    case (Some st)
    obtain g where g: "offer pw cl costOf addr (ss_acct st) (ss_queue st ! 0) h = Inr g"
      "seed_heap pw cl costOf senders order g = Inr h'" using Cons.prems(1) Some by auto
    have "(senders |` P) addr = None" using Cons.prems(3) by (simp add: restrict_map_def)
    from heap_holds_push [OF Cons.prems(4) this, of st g]
    have "heap_holds pw cl costOf ((senders |` P)(addr \<mapsto> st)) g"
      using g(1) seeds [OF Some] by simp
    moreover have "(senders |` P)(addr \<mapsto> st) = senders |` insert addr P"
      using Some by (auto simp: restrict_map_def fun_eq_iff)
    ultimately show ?thesis using Cons.IH [OF g(2), of "insert addr P"] Cons.prems(2,3) unfolding split by auto
  qed
qed simp

lemma seed_heap_loaded:
  assumes "map_order (loaded getA m) order" and "seed_heap pw cl costOf (loaded getA m) order [] = Inr h"
  shows "heap_holds pw cl costOf (loaded getA m) h"
proof -
  have "heap_holds pw cl costOf (loaded getA m |` ({} \<union> set order)) h"
    by (rule seed_heap_holds [OF assms(2)]) (use assms(1) loaded_dom in \<open>auto simp: map_order_def heap_holds_empty\<close>)
  moreover have "loaded getA m |` set order = loaded getA m"
    using assms(1) by (auto simp: map_order_def restrict_map_def fun_eq_iff)
  ultimately show ?thesis by simp
qed

lemma SelectForBlock_start:
  assumes "map_order (mp_pool m) poolOrder" and "map_order (loaded getA m) senderOrder" and "0 < max_txs"
  shows "SelectForBlock pw cl getA costOf poolOrder senderOrder max_txs m = Inr out \<longleftrightarrow>
    (\<forall>addr\<in>dom (mp_pool m). \<exists>acct. getA addr = Inr acct) \<and>
    (\<exists>h. seed_heap pw cl costOf (loaded getA m) senderOrder [] = Inr h \<and>
       heap_holds pw cl costOf (loaded getA m) h \<and>
       select_loop pw cl costOf (nat max_txs) (loaded getA m) h [] = Inr out)"
proof -
  show ?thesis
    using assms(3) load_senders_loaded [OF assms(1)] seed_heap_loaded [OF assms(2)]
    by (auto simp: SelectForBlock_def)
qed

section \<open>What is selected\<close>

text \<open>The first \<open>k\<close> transactions of a queue can run from the account: their nonces are the account's
  and the following ones, and the credits cover their costs.\<close>

definition runnable :: "(transaction option \<Rightarrow> error + u64) \<Rightarrow> account \<Rightarrow> transaction list \<Rightarrow> nat \<Rightarrow> bool" where
  "runnable costOf acct q k \<longleftrightarrow> k \<le> length q \<and>
     (\<forall>i<k. tx_Nonce (q ! i) = acct_Nonce acct + word_of_nat i) \<and>
     (\<Sum>i<k. unat (cost_of costOf (q ! i))) \<le> unat (acct_RC acct)"

text \<open>A sender after \<open>k\<close> of its transactions.\<close>

definition advanced :: "(transaction option \<Rightarrow> error + u64) \<Rightarrow> sender_state \<Rightarrow> nat \<Rightarrow> sender_state \<Rightarrow> bool" where
  "advanced costOf st0 k st \<longleftrightarrow> ss_queue st = ss_queue st0 \<and> ss_cursor st = k \<and>
     runnable costOf (ss_acct st0) (ss_queue st0) k \<and>
     acct_Nonce (ss_acct st) = acct_Nonce (ss_acct st0) + word_of_nat k \<and>
     unat (acct_RC (ss_acct st)) + (\<Sum>i<k. unat (cost_of costOf (ss_queue st0 ! i)))
       = unat (acct_RC (ss_acct st0))"

lemma advanced_start: "ss_cursor st = 0 \<Longrightarrow> advanced costOf st 0 st"
  by (simp add: advanced_def runnable_def)

lemma next_due_runnable:
  assumes "advanced costOf st0 k st"
  shows "next_due costOf st \<longleftrightarrow> runnable costOf (ss_acct st0) (ss_queue st0) (Suc k)"
  using assms
  by (auto simp: advanced_def runnable_def next_due_def due_def less_Suc_eq word_le_nat_alt)

lemma consume_advanced:
  assumes "advanced costOf st0 k st" and "next_due costOf st"
  shows "advanced costOf st0 (Suc k) (consume (item_of pw cl costOf addr (ss_queue st ! ss_cursor st)) st)"
proof -
  have run: "runnable costOf (ss_acct st0) (ss_queue st0) (Suc k)"
    using next_due_runnable [OF assms(1)] assms(2) by simp
  have le: "cost_of costOf (ss_queue st0 ! k) \<le> acct_RC (ss_acct st)"
    using assms by (simp add: next_due_def due_def advanced_def)
  then have "unat (acct_RC (ss_acct st) - cost_of costOf (ss_queue st0 ! k))
      = unat (acct_RC (ss_acct st)) - unat (cost_of costOf (ss_queue st0 ! k))"
    by (simp add: unat_sub)
  then show ?thesis
    using assms(1) run le
    by (simp add: advanced_def consume_def item_of_def Let_def word_le_nat_alt)
qed

text \<open>The invariant of the loop.\<close>

definition progress ::
  "(transaction option \<Rightarrow> error + u64) \<Rightarrow> (address \<rightharpoonup> sender_state) \<Rightarrow> (address \<rightharpoonup> sender_state)
   \<Rightarrow> transaction list \<Rightarrow> bool"
where
  "progress costOf start senders out \<longleftrightarrow> (\<forall>addr.
     (case start addr of
        None \<Rightarrow> senders addr = None \<and> filter (\<lambda>tx. tx_From tx = addr) out = []
      | Some st0 \<Rightarrow> (\<exists>st k. senders addr = Some st \<and> advanced costOf st0 k st \<and>
          filter (\<lambda>tx. tx_From tx = addr) out = take k (ss_queue st0))))"

lemma progressD:
  assumes "progress costOf start senders out" and "start addr = Some st0"
  obtains st k where "senders addr = Some st" "advanced costOf st0 k st"
    "filter (\<lambda>tx. tx_From tx = addr) out = take k (ss_queue st0)"
  using assms(1)[unfolded progress_def, THEN spec, of addr] assms(2) by auto

lemma progress_dom:
  assumes "progress costOf start senders out" and "senders addr = Some st"
  obtains st0 where "start addr = Some st0"
  using assms(1)[unfolded progress_def, THEN spec, of addr] assms(2) by (cases "start addr") auto

lemma progress_round:
  assumes "progress costOf start senders out" and "senders addr = Some st" and "next_due costOf st"
    and own: "\<And>a st tx. start a = Some st \<Longrightarrow> tx \<in> set (ss_queue st) \<Longrightarrow> tx_From tx = a"
  shows "progress costOf start
    (senders(addr \<mapsto> consume (item_of pw cl costOf addr (ss_queue st ! ss_cursor st)) st))
    (out @ [ss_queue st ! ss_cursor st])"
proof -
  obtain st0 k where st0: "start addr = Some st0" "advanced costOf st0 k st"
    "filter (\<lambda>tx. tx_From tx = addr) out = take k (ss_queue st0)"
    using progress_dom [OF assms(1,2)] progressD [OF assms(1)] assms(2) by (metis option.inject)
  let ?tx = "ss_queue st ! ss_cursor st"
  have k: "k < length (ss_queue st0)" "?tx = ss_queue st0 ! k"
    using st0(2) assms(3) by (auto simp: advanced_def next_due_def)
  then have sent: "tx_From ?tx = addr" using own st0(1) nth_mem by metis
  have "filter (\<lambda>tx. tx_From tx = addr) (out @ [?tx]) = take (Suc k) (ss_queue st0)"
    using sent st0(3) k by (simp add: take_Suc_conv_app_nth)
  then have here: "\<exists>st' j. Some (consume (item_of pw cl costOf addr ?tx) st) = Some st' \<and> advanced costOf st0 j st' \<and>
      filter (\<lambda>tx. tx_From tx = addr) (out @ [?tx]) = take j (ss_queue st0)"
    using consume_advanced [OF st0(2) assms(3)] by blast
  show ?thesis
    unfolding progress_def
  proof
    fix a
    show "case start a of
        None \<Rightarrow> (senders(addr \<mapsto> consume (item_of pw cl costOf addr ?tx) st)) a = None
          \<and> filter (\<lambda>tx. tx_From tx = a) (out @ [?tx]) = []
      | Some st0 \<Rightarrow> \<exists>st' k. (senders(addr \<mapsto> consume (item_of pw cl costOf addr ?tx) st)) a = Some st'
          \<and> advanced costOf st0 k st' \<and> filter (\<lambda>tx. tx_From tx = a) (out @ [?tx]) = take k (ss_queue st0)"
    proof (cases "a = addr")
      case True
      then show ?thesis using here st0(1) by simp
    next
      case False
      then show ?thesis
        using assms(1)[unfolded progress_def, THEN spec, of a] sent by (auto split: option.splits)
    qed
  qed
qed

lemma pool_ok_own:
  "pool_ok pw cl m \<Longrightarrow> loaded getA m a = Some st \<Longrightarrow> tx \<in> set (ss_queue st) \<Longrightarrow> tx_From tx = a"
  using loaded_dom [of getA m a st] by (auto simp: pool_ok_def)

lemma SelectForBlock_progress:
  assumes "pool_ok pw cl m" "map_order (mp_pool m) poolOrder" "map_order (loaded getA m) senderOrder" "0 < max_txs"
    and "SelectForBlock pw cl getA costOf poolOrder senderOrder max_txs m = Inr out"
  obtains senders where "progress costOf (loaded getA m) senders out" "length out \<le> nat max_txs"
    "length out < nat max_txs \<longrightarrow> heads pw cl costOf senders = {}"
proof -
  obtain h where h: "heap_holds pw cl costOf (loaded getA m) h"
    "select_loop pw cl costOf (nat max_txs) (loaded getA m) h [] = Inr out"
    using assms(5) unfolding SelectForBlock_start [OF assms(2-4)] by blast
  have start: "progress costOf (loaded getA m) (loaded getA m) []"
    unfolding progress_def using advanced_start loaded_dom by (force split: option.splits)
  have round: "progress costOf (loaded getA m)
      (senders(addr \<mapsto> consume (item_of pw cl costOf addr (ss_queue st ! ss_cursor st)) st))
      (out @ [ss_queue st ! ss_cursor st])"
    if "progress costOf (loaded getA m) senders out" "senders addr = Some st" "next_due costOf st"
    for senders out addr st
    using progress_round [OF that pool_ok_own [OF assms(1)]] .
  from select_loop_inv [where P = "progress costOf (loaded getA m)", OF h(1) start h(2) round]
  show thesis using that by auto
qed

text \<open>Property C13. A selection has at most \<open>max\<close> transactions; the ones of each sender are the first
  transactions of its queue, in order, with the account's nonce and the ones that follow it and
  with costs that its credits cover together; and when there was room for more, every sender's run
  is as long as it can be.\<close>

theorem selection_is_runnable:
  assumes "mempool_run pw cl m" "map_order (mp_pool m) poolOrder" "map_order (loaded getA m) senderOrder"
    and "SelectForBlock pw cl getA costOf poolOrder senderOrder max_txs m = Inr out"
    and "mp_pool m addr = Some q" and "getA addr = Inr (Some acct)"
  shows "length out \<le> nat max_txs \<and>
    (\<exists>k. filter (\<lambda>tx. tx_From tx = addr) out = take k q \<and> runnable costOf acct q k \<and>
         (length out < nat max_txs \<longrightarrow> \<not> runnable costOf acct q (Suc k)))"
proof (cases "0 < max_txs")
  case True
  have q: "loaded getA m addr = Some \<lparr>ss_acct = acct, ss_cursor = 0, ss_queue = q\<rparr>"
    using mempool_run_ok [OF assms(1)] assms(5,6)
    by (auto simp: loaded_def queue_of_def pool_ok_def)
  obtain senders where P: "progress costOf (loaded getA m) senders out" and len: "length out \<le> nat max_txs"
    and stop: "length out < nat max_txs \<longrightarrow> heads pw cl costOf senders = {}"
    using SelectForBlock_progress [OF mempool_run_ok [OF assms(1)] assms(2,3) True assms(4)] .
  obtain st k where st: "senders addr = Some st" "filter (\<lambda>tx. tx_From tx = addr) out = take k q"
    "advanced costOf \<lparr>ss_acct = acct, ss_cursor = 0, ss_queue = q\<rparr> k st"
    by (rule progressD [OF P q]) (auto intro: that)
  have "\<not> next_due costOf st" if "length out < nat max_txs"
    using stop that st(1) by (auto simp: heads_def)
  then show ?thesis
    using len st next_due_runnable [OF st(3)] by (auto simp: advanced_def)
next
  case False
  then show ?thesis using assms(4) by (auto simp: SelectForBlock_def runnable_def)
qed

section \<open>The selection returns\<close>

definition priced :: "(transaction option \<Rightarrow> error + u64) \<Rightarrow> (address \<rightharpoonup> sender_state) \<Rightarrow> bool" where
  "priced costOf senders \<longleftrightarrow>
     (\<forall>addr st. senders addr = Some st \<longrightarrow> (\<forall>tx\<in>set (ss_queue st). \<exists>c. costOf (Some tx) = Inr c))"

lemma offer_returns: "\<exists>c. costOf (Some tx) = Inr c \<Longrightarrow> \<exists>h'. offer pw cl costOf addr acct tx h = Inr h'"
proof -
  obtain b where "MarshalTransaction pw (Some tx) = Inr b" using MarshalTransaction_Some by blast
  then show "\<exists>c. costOf (Some tx) = Inr c \<Longrightarrow> ?thesis" by (auto simp: offer_def HashTransaction_def)
qed

lemma priced_consume:
  "priced costOf senders \<Longrightarrow> senders addr = Some st \<Longrightarrow> priced costOf (senders(addr \<mapsto> consume x st))"
  by (auto simp: priced_def consume_def Let_def)

lemma select_loop_returns:
  assumes "heap_holds pw cl costOf senders h" and "priced costOf senders"
  shows "\<exists>res. select_loop pw cl costOf k senders h out = Inr res"
  using assms
proof (induction k arbitrary: senders h out)
  case (Suc k)
  show ?case
  proof (cases "h = []")
    case False
    obtain x h1 where pop: "heap_Pop item_less h = (x, h1)" by fastforce
    obtain st where st: "senders (it_sender x) = Some st" "heap_holds pw cl costOf (senders(it_sender x := None)) h1"
      using heap_holds_pop [OF Suc.prems(1) False pop] by metis
    have priced: "priced costOf (senders(it_sender x \<mapsto> consume x st))"
      using priced_consume Suc.prems(2) st(1) .
    then have "\<exists>c. costOf (Some (ss_queue (consume x st) ! i)) = Inr c" if "i < length (ss_queue (consume x st))" for i
      using that nth_mem unfolding priced_def by (metis fun_upd_same)
    then obtain h2 where h2: "next_heap pw cl costOf (it_sender x) (consume x st) h1 = Inr h2"
      using offer_returns unfolding next_heap_def by (metis not_le)
    from Suc.IH [OF next_heap_holds [OF st(2) h2] priced] show ?thesis
      unfolding select_loop_Suc [of h x h1 senders st, OF False pop st(1)] h2 bind_err.simps .
  qed simp
qed simp

text \<open>Property C15. The selection always returns: when the account of every pooled sender can be read and
  every pooled transaction priced, it ends with a list of transactions, without an error and without
  reading a nil pointer.\<close>

theorem selection_returns:
  assumes "mempool_run pw cl m" "map_order (mp_pool m) poolOrder" "map_order (loaded getA m) senderOrder"
    and "\<And>addr q. mp_pool m addr = Some q \<Longrightarrow> \<exists>acct. getA addr = Inr acct"
    and "\<And>addr q tx. mp_pool m addr = Some q \<Longrightarrow> tx \<in> set q \<Longrightarrow> \<exists>c. costOf (Some tx) = Inr c"
  shows "\<exists>out. SelectForBlock pw cl getA costOf poolOrder senderOrder max_txs m = Inr out"
proof (cases "0 < max_txs")
  case True
  have priced: "priced costOf (loaded getA m)"
    using assms(5) loaded_dom [of getA m] unfolding priced_def by metis
  have "\<exists>h'. offer pw cl costOf addr (ss_acct st) (ss_queue st ! 0) [] = Inr h'"
    if "loaded getA m addr = Some st" for addr st
    using offer_returns priced that loaded_dom [OF that] unfolding priced_def by (metis length_greater_0_conv nth_mem)
  then obtain h where h: "seed_heap pw cl costOf (loaded getA m) senderOrder [] = Inr h"
    using seed_heap_total [of pw cl costOf "loaded getA m" senderOrder "[]"] by auto
  have "heap_holds pw cl costOf (loaded getA m) h"
    using seed_heap_loaded [OF assms(3) h] .
  moreover obtain out where "select_loop pw cl costOf (nat max_txs) (loaded getA m) h [] = Inr out"
    using select_loop_returns [OF calculation priced] by blast
  moreover have "\<forall>addr\<in>dom (mp_pool m). \<exists>acct. getA addr = Inr acct" using assms(4) by blast
  ultimately show ?thesis
    using SelectForBlock_start [OF assms(2,3) True] h by blast
next
  case False
  then show ?thesis by (simp add: SelectForBlock_def)
qed

section \<open>The order in which the maps are walked does not matter\<close>

text \<open>No two pending transactions of different senders have the same hash.\<close>

definition hashes_differ :: "protowire \<Rightarrow> crypto_lib \<Rightarrow> (address \<rightharpoonup> sender_state) \<Rightarrow> bool" where
  "hashes_differ pw cl senders \<longleftrightarrow> (\<forall>a b st st'. senders a = Some st \<longrightarrow> senders b = Some st' \<longrightarrow>
     (\<forall>tx\<in>set (ss_queue st). \<forall>tx'\<in>set (ss_queue st'). hash_of pw cl tx = hash_of pw cl tx' \<longrightarrow> a = b))"

lemma heads_untied:
  assumes "hashes_differ pw cl senders" and x: "x \<in> heads pw cl costOf senders" and y: "y \<in> heads pw cl costOf senders"
    and "\<not> item_less x y" "\<not> item_less y x"
  shows "x = y"
proof -
  obtain st where st: "senders (it_sender x) = Some st" "ss_cursor st < length (ss_queue st)"
    "x = item_of pw cl costOf (it_sender x) (ss_queue st ! ss_cursor st)"
    using x by (auto simp: heads_sender next_due_def)
  obtain st' where st': "senders (it_sender y) = Some st'" "ss_cursor st' < length (ss_queue st')"
    "y = item_of pw cl costOf (it_sender y) (ss_queue st' ! ss_cursor st')"
    using y by (auto simp: heads_sender next_due_def)
  have "it_hash x = it_hash y" using item_tied assms(4,5) by blast
  moreover have "it_hash x = hash_of pw cl (ss_queue st ! ss_cursor st)"
    by (subst st(3)) (simp add: item_of_def)
  moreover have "it_hash y = hash_of pw cl (ss_queue st' ! ss_cursor st')"
    by (subst st'(3)) (simp add: item_of_def)
  ultimately have "it_sender x = it_sender y"
    using assms(1) st(1,2) st'(1,2) nth_mem unfolding hashes_differ_def by metis
  then show ?thesis using st st' by simp
qed

lemma hashes_differ_consume:
  assumes "hashes_differ pw cl senders" "senders addr = Some st" "ss_queue st' = ss_queue st"
  shows "hashes_differ pw cl (senders(addr \<mapsto> st'))"
proof -
  have old: "\<exists>u. senders a = Some u \<and> ss_queue u = ss_queue v" if "(senders(addr \<mapsto> st')) a = Some v" for a v
    using that assms(2,3) by (auto split: if_splits)
  show ?thesis
    unfolding hashes_differ_def
  proof (intro allI impI ballI)
    fix a b v v' tx tx'
    assume *: "(senders(addr \<mapsto> st')) a = Some v" "(senders(addr \<mapsto> st')) b = Some v'"
      "tx \<in> set (ss_queue v)" "tx' \<in> set (ss_queue v')" "hash_of pw cl tx = hash_of pw cl tx'"
    obtain u u' where "senders a = Some u" "ss_queue u = ss_queue v" "senders b = Some u'" "ss_queue u' = ss_queue v'"
      using old [OF *(1)] old [OF *(2)] by blast
    then show "a = b" using assms(1) *(3-5) unfolding hashes_differ_def by metis
  qed
qed

lemma next_heap_total:
  "next_heap pw cl costOf addr st h = Inr h' \<Longrightarrow> \<exists>g'. next_heap pw cl costOf addr st g = Inr g'"
  by (auto simp: next_heap_def dest: offer_total split: if_splits)

lemma select_loop_determined:
  assumes "heap_holds pw cl costOf senders h" "heap_holds pw cl costOf senders g" "hashes_differ pw cl senders"
    and "select_loop pw cl costOf k senders h out = Inr res"
  shows "select_loop pw cl costOf k senders g out = Inr res"
  using assms
proof (induction k arbitrary: senders h g out)
  case (Suc k)
  show ?case
  proof (cases "h = []")
    case True
    then have "g = []" using Suc.prems(1,2) by (metis heap_holds_def set_empty)
    then show ?thesis using True Suc.prems by simp
  next
    case False
    then have g: "g \<noteq> []" using Suc.prems(1,2) by (metis heap_holds_def set_empty)
    obtain x h1 where pop: "heap_Pop item_less h = (x, h1)" by fastforce
    obtain y g1 where popg: "heap_Pop item_less g = (y, g1)" by fastforce
    have same: "mset h = mset g"
      using Suc.prems(1,2) by (simp add: heap_holds_def set_eq_iff_mset_eq_distinct [symmetric])
    have inv: "is_heap item_less h" "is_heap item_less g" "set h = heads pw cl costOf senders"
      using Suc.prems(1,2) by (simp_all add: heap_holds_def)
    have "x = y \<and> mset h1 = mset g1"
    proof (rule items.pq.pop_determined [OF inv(1,2) same _ _ pop popg])
      fix a b assume "a \<in># mset h" "b \<in># mset h" "\<not> item_less a b" "\<not> item_less b a"
      then show "a = b" using heads_untied [OF Suc.prems(3)] inv(3) by simp
    qed (use False in simp)
    then have "x = y" by simp
    obtain st where st: "senders (it_sender x) = Some st" "heap_holds pw cl costOf (senders(it_sender x := None)) h1"
      using heap_holds_pop [OF Suc.prems(1) False pop] by metis
    have stg: "heap_holds pw cl costOf (senders(it_sender x := None)) g1"
      using heap_holds_pop [OF Suc.prems(2) g popg] \<open>x = y\<close> by metis
    obtain h2 where h2: "next_heap pw cl costOf (it_sender x) (consume x st) h1 = Inr h2"
      "select_loop pw cl costOf k (senders(it_sender x \<mapsto> consume x st)) h2 (out @ [it_tx x]) = Inr res"
      using Suc.prems(4) unfolding select_loop_Suc [of h x h1 senders st, OF False pop st(1)] by auto
    obtain g2 where g2: "next_heap pw cl costOf (it_sender x) (consume x st) g1 = Inr g2"
      using next_heap_total [OF h2(1)] by blast
    have differ: "hashes_differ pw cl (senders(it_sender x \<mapsto> consume x st))"
      using hashes_differ_consume [OF Suc.prems(3) st(1)] by (simp add: consume_def Let_def)
    have "select_loop pw cl costOf k (senders(it_sender x \<mapsto> consume x st)) g2 (out @ [it_tx x]) = Inr res"
      by (rule Suc.IH [OF next_heap_holds [OF st(2) h2(1)] next_heap_holds [OF stg g2] differ h2(2)])
    then show ?thesis
      using g2 st(1) unfolding select_loop_Suc [of g y g1 senders st, OF g popg, folded \<open>x = y\<close>, OF st(1)]
      by simp
  qed
qed simp

text \<open>Property C14. The selection does not depend on the order in which Go walks its maps: when no two
  pending transactions of different senders have the same hash, two runs over any orders select the
  same transactions in the same order.\<close>

theorem selection_deterministic:
  assumes "mempool_run pw cl m" "map_order (mp_pool m) p1" "map_order (mp_pool m) p2"
    and "map_order (loaded getA m) s1" "map_order (loaded getA m) s2"
    and "\<And>tx tx'. tx_From tx \<noteq> tx_From tx' \<Longrightarrow> tx \<in> set (queue_of m (tx_From tx)) \<Longrightarrow>
      tx' \<in> set (queue_of m (tx_From tx')) \<Longrightarrow> hash_of pw cl tx \<noteq> hash_of pw cl tx'"
    and "SelectForBlock pw cl getA costOf p1 s1 max_txs m = Inr out"
  shows "SelectForBlock pw cl getA costOf p2 s2 max_txs m = Inr out"
proof (cases "0 < max_txs")
  case True
  obtain h where h: "seed_heap pw cl costOf (loaded getA m) s1 [] = Inr h"
    "heap_holds pw cl costOf (loaded getA m) h"
    "select_loop pw cl costOf (nat max_txs) (loaded getA m) h [] = Inr out"
    and total: "\<forall>addr\<in>dom (mp_pool m). \<exists>acct. getA addr = Inr acct"
    using assms(7) unfolding SelectForBlock_start [OF assms(2,4) True] by blast
  have "set s1 = set s2" using assms(4,5) by (simp add: map_order_def)
  then have "\<exists>g. seed_heap pw cl costOf (loaded getA m) s2 [] = Inr g"
    using h(1) seed_heap_total [of pw cl costOf "loaded getA m"] by metis
  then obtain g where g: "seed_heap pw cl costOf (loaded getA m) s2 [] = Inr g" by blast
  have ok: "pool_ok pw cl m" using mempool_run_ok [OF assms(1)] .
  have "hashes_differ pw cl (loaded getA m)"
    unfolding hashes_differ_def
  proof (intro allI impI ballI)
    fix a b st st' tx tx'
    assume *: "loaded getA m a = Some st" "loaded getA m b = Some st'" "tx \<in> set (ss_queue st)" "tx' \<in> set (ss_queue st')"
      "hash_of pw cl tx = hash_of pw cl tx'"
    then show "a = b"
      using assms(6) [of tx tx'] pool_ok_own [OF ok] loaded_dom [of getA m] by (auto simp: queue_of_def)
  qed
  moreover have "heap_holds pw cl costOf (loaded getA m) g"
    using seed_heap_loaded [OF assms(5) g] .
  ultimately show ?thesis
    using select_loop_determined [OF h(2) _ _ h(3)] total g
    unfolding SelectForBlock_start [OF assms(3,5) True] by blast
next
  case False
  then show ?thesis using assms(7) by (simp add: SelectForBlock_def)
qed


section \<open>Who can submit\<close>

text \<open>Property C22. In every pool the program can build, a queue is not empty, strictly ordered by nonce,
  and each transaction in it is from the queue's own address and signed under a key from which
  that address is derived.\<close>

theorem queues_are_sorted_and_signed:
  assumes "mempool_run pw cl m" and "mp_pool m addr = Some q"
  shows "q \<noteq> [] \<and> sorted_wrt (\<lambda>x y. tx_Nonce x < tx_Nonce y) q \<and>
    (\<forall>tx\<in>set q. tx_From tx = addr \<and>
       (\<exists>pk msg. length pk = 32 \<and> AddressFromPubKey cl pk = Inr addr \<and>
          SigningBytes pw (Some tx) = Inr msg \<and> Ed25519Verify cl pk msg (tx_Signature tx)))"
  using mempool_run_ok [OF assms(1)] assms(2) by (fastforce simp: pool_ok_def admitted_def)

text \<open>Property. Admission looks at the credits as they are stored, not as they would regenerate: an
  account stored with no credits, as the genesis writes every account, can submit nothing, because
  every transaction costs something.\<close>

theorem empty_credits_never_admitted:
  assumes "protowire_laws pw" and "CSize (co_Params c) \<noteq> 0"
    and "getA (tx_From tx) = Inr (Some acct)" and "acct_RC acct = 0"
    and "MarshalTransaction pw (Some tx) = Inr b" and "length b < 2 ^ 63"
  shows "\<exists>e. AddTx pw cl getA (Coster_Cost pw c) (Some tx) m = Inl e"
proof (rule ccontr)
  assume "\<not> ?thesis"
  then obtain m' where "AddTx pw cl getA (Coster_Cost pw c) (Some tx) m = Inr m'"
    by (metis sum.exhaust)
  then obtain cost where "Coster_Cost pw c (Some tx) = Inr cost" "cost \<le> acct_RC acct"
    using assms(3) by (auto elim!: AddTx_ok simp: or_zero_def)
  then show False
    using Coster_Cost_positive [OF assms(1,2,5,6)] assms(4) by (metis leD)
qed

section \<open>A pool of one sender\<close>

definition sample_view :: "address \<Rightarrow> error + account option" where
  "sample_view = map_get toy_view"

definition sample_cost :: "transaction option \<Rightarrow> error + u64" where
  "sample_cost txn = Inr 5"

definition sample_pool :: mempool where
  "sample_pool = \<lparr>mp_pool = [toy_alice \<mapsto> [toy_tx 0 ''bob'' toy_pay, toy_tx 1 ''bob'' toy_pay]]\<rparr>"

lemma sample_account: "sample_view toy_alice = Inr (Some toy_account)"
  by (simp add: sample_view_def map_get_def toy_view_def)

lemma sample_admits:
  assumes "insert_by_nonce (toy_tx n ''bob'' toy_pay) (queue_of m toy_alice) = Inr q"
  shows "AddTx wire_format toy_crypto sample_view sample_cost (Some (toy_tx n ''bob'' toy_pay)) m
    = Inr (m\<lparr>mp_pool := (mp_pool m)(toy_alice \<mapsto> q)\<rparr>)"
  using assms toy_resolve [of "[]" n "''bob''" toy_pay]
  by (simp add: AddTx_def sample_account sample_cost_def or_zero_def toy_account_def zero_account_def)

lemma sample_pool_run: "mempool_run wire_format toy_crypto sample_pool"
proof -
  let ?m = "\<lparr>mp_pool = [toy_alice \<mapsto> [toy_tx 1 ''bob'' toy_pay]]\<rparr>"
  have "mempool_run wire_format toy_crypto ?m"
    using mempool_run.add [OF mempool_run.new sample_admits [of 1 Mempool_New]]
    by (simp add: Mempool_New_def queue_of_def)
  from mempool_run.add [OF this sample_admits [of 0 ?m]] show ?thesis
    by (simp add: queue_of_def sample_pool_def)
qed

lemma sample_orders:
  "map_order (mp_pool sample_pool) [toy_alice]" "map_order (loaded sample_view sample_pool) [toy_alice]"
proof -
  show "map_order (mp_pool sample_pool) [toy_alice]" by (simp add: map_order_def sample_pool_def)
  have "loaded sample_view sample_pool addr = None" if "addr \<noteq> toy_alice" for addr
    using that by (simp add: loaded_def queue_of_def sample_pool_def split: sum.splits option.splits)
  moreover have "loaded sample_view sample_pool toy_alice \<noteq> None"
    by (simp add: loaded_def sample_account queue_of_def sample_pool_def)
  ultimately show "map_order (loaded sample_view sample_pool) [toy_alice]"
    unfolding map_order_def dom_def by (metis (mono_tags, lifting) Collect_cong distinct_singleton empty_set list.simps(15) singleton_conv)
qed

lemma queues_are_sorted_and_signed_witness:
  "\<exists>m1 m2 q. AddTx wire_format toy_crypto sample_view sample_cost (Some (toy_tx 1 ''bob'' toy_pay)) Mempool_New = Inr m1
     \<and> AddTx wire_format toy_crypto sample_view sample_cost (Some (toy_tx 0 ''bob'' toy_pay)) m1 = Inr m2
     \<and> mp_pool m2 toy_alice = Some q \<and> map tx_Nonce q = [0, 1]
     \<and> (\<forall>tx\<in>set q. \<exists>pk msg. AddressFromPubKey toy_crypto pk = Inr toy_alice
          \<and> SigningBytes wire_format (Some tx) = Inr msg \<and> Ed25519Verify toy_crypto pk msg (tx_Signature tx))"
proof -
  let ?m = "\<lparr>mp_pool = [toy_alice \<mapsto> [toy_tx 1 ''bob'' toy_pay]]\<rparr>"
  have m1: "AddTx wire_format toy_crypto sample_view sample_cost (Some (toy_tx 1 ''bob'' toy_pay)) Mempool_New = Inr ?m"
    using sample_admits [of 1 Mempool_New] by (simp add: Mempool_New_def queue_of_def)
  have m2: "AddTx wire_format toy_crypto sample_view sample_cost (Some (toy_tx 0 ''bob'' toy_pay)) ?m = Inr sample_pool"
    using sample_admits [of 0 ?m] by (simp add: queue_of_def sample_pool_def)
  have q: "mp_pool sample_pool toy_alice = Some [toy_tx 0 ''bob'' toy_pay, toy_tx 1 ''bob'' toy_pay]"
    by (simp add: sample_pool_def)
  from queues_are_sorted_and_signed [OF sample_pool_run q] m1 m2 q show ?thesis
    by (intro exI [of _ ?m] exI [of _ sample_pool] exI [of _ "[toy_tx 0 ''bob'' toy_pay, toy_tx 1 ''bob'' toy_pay]"])
      (simp del: set_simps, blast)
qed

lemma toy_marshals: "\<exists>b. MarshalTransaction wire_format (Some (toy_tx 0 ''bob'' toy_pay)) = Inr b \<and> length b = 143"
  using toy_pay_size(1) by (cases "MarshalTransaction wire_format (Some (toy_tx 0 ''bob'' toy_pay))") auto

lemma empty_credits_never_admitted_witness:
  "\<exists>e. AddTx wire_format toy_crypto (\<lambda>_. Inr (Some (toy_account\<lparr>acct_RC := 0\<rparr>)))
      (Coster_Cost wire_format \<lparr>co_Params = test_params, co_Contracts = None\<rparr>)
      (Some (toy_tx 0 ''bob'' toy_pay)) Mempool_New = Inl e"
proof -
  obtain b where "MarshalTransaction wire_format (Some (toy_tx 0 ''bob'' toy_pay)) = Inr b" "length b = 143"
    using toy_marshals by blast
  then show ?thesis
    by (intro empty_credits_never_admitted [OF wire.protowire_laws_axioms]) (auto simp: test_params_def toy_account_def zero_account_def)
qed

lemma selection_returns_witness:
  "\<exists>out. SelectForBlock wire_format toy_crypto sample_view sample_cost [toy_alice] [toy_alice] 2 sample_pool = Inr out"
  by (rule selection_returns [OF sample_pool_run sample_orders])
    (simp_all add: sample_view_def map_get_def sample_cost_def)

lemma sample_select:
  "\<exists>out. SelectForBlock wire_format toy_crypto sample_view sample_cost [toy_alice] [toy_alice] 2 sample_pool = Inr out"
proof -
  have "priced sample_cost (loaded sample_view sample_pool)" by (simp add: priced_def sample_cost_def)
  moreover obtain h where h: "seed_heap wire_format toy_crypto sample_cost (loaded sample_view sample_pool) [toy_alice] [] = Inr h"
    using seed_heap_total [of wire_format toy_crypto sample_cost "loaded sample_view sample_pool" "[toy_alice]" "[]"]
      offer_returns [of sample_cost] by (auto simp: sample_cost_def)
  ultimately show ?thesis
    using select_loop_returns [OF seed_heap_loaded [OF sample_orders(2) h], of "nat 2" "[]"]
      SelectForBlock_start [OF sample_orders, of 2] seed_heap_loaded [OF sample_orders(2) h] h
    by (auto simp: sample_view_def map_get_def)
qed

lemma selection_is_runnable_witness:
  "\<exists>out k. SelectForBlock wire_format toy_crypto sample_view sample_cost [toy_alice] [toy_alice] 2 sample_pool = Inr out
     \<and> filter (\<lambda>tx. tx_From tx = toy_alice) out = take k [toy_tx 0 ''bob'' toy_pay, toy_tx 1 ''bob'' toy_pay]"
proof -
  obtain out where out: "SelectForBlock wire_format toy_crypto sample_view sample_cost [toy_alice] [toy_alice] 2
    sample_pool = Inr out" using sample_select by blast
  show ?thesis
    using selection_is_runnable [OF sample_pool_run sample_orders out, of toy_alice] out sample_account
    by (auto simp: sample_pool_def)
qed

lemma selection_deterministic_witness:
  "\<exists>out. SelectForBlock wire_format toy_crypto sample_view sample_cost [toy_alice] [toy_alice] 2 sample_pool = Inr out"
proof -
  obtain out where out: "SelectForBlock wire_format toy_crypto sample_view sample_cost [toy_alice] [toy_alice] 2
    sample_pool = Inr out" using sample_select by blast
  have single: "tx_From tx = toy_alice" if "tx \<in> set (queue_of sample_pool (tx_From tx))" for tx
    using that by (cases "tx_From tx = toy_alice") (auto simp: queue_of_def sample_pool_def)
  have "SelectForBlock wire_format toy_crypto sample_view sample_cost [toy_alice] [toy_alice] 2 sample_pool = Inr out"
    by (rule selection_deterministic [OF sample_pool_run sample_orders(1) sample_orders(1) sample_orders(2)
          sample_orders(2) _ out]) (use single in metis)
  then show ?thesis by blast
qed

end
