(* ===== verification/Consensus.thy ===== *)
theory Consensus
  imports DPoS Mempool
begin

text \<open>
  The consensus engine, \<open>pkg/consensus/hotstuff.go\<close>, \<open>qc.go\<close> and \<open>signing.go\<close>: proposals, precommit
  votes, quorum certificates, view changes and finalization over the validator set of the moment.

  The engine holds pointers to the state, the validators, the mempool and the contract engine; each
  handler returns the engine with what it did to them. The mutex makes a handler one step. The
  network is an interface whose calls only answer with an error or not; the clock and the orders
  of Go's \<open>range\<close> are arguments. The mempool asks the engine's own state for accounts and prices
  with a coster over the same contract engine, as \<open>node.Start\<close> wires them. The state, the
  validator set and the verifier are never nil in an engine that \<open>NewEngine\<close> built from non-nil
  parts, so the guards against that are left out.
\<close>

section \<open>Signing bytes\<close>

definition ProposalSignBytes :: "protowire \<Rightarrow> proposal option \<Rightarrow> error + bytes" where
  "ProposalSignBytes pw prop =
     (case prop of
        None \<Rightarrow> Inr []
      | Some p \<Rightarrow>
          let cp = p\<lparr>prop_ProposerSig := []\<rparr>;
              cp = (case prop_Block cp of
                      None \<Rightarrow> cp
                    | Some b \<Rightarrow> cp\<lparr>prop_Block := Some (b\<lparr>bl_ValidatorSigs := []\<rparr>)\<rparr>)
          in MarshalProposal pw (Some cp))"

definition PrecommitSignBytes :: "protowire \<Rightarrow> precommit_vote option \<Rightarrow> error + bytes" where
  "PrecommitSignBytes pw vote =
     (case vote of
        None \<Rightarrow> Inr []
      | Some v \<Rightarrow> MarshalPrecommitVote pw (Some (v\<lparr>vote_Signature := []\<rparr>)))"

definition ViewChangeSignBytes :: "protowire \<Rightarrow> view_change option \<Rightarrow> error + bytes" where
  "ViewChangeSignBytes pw vch =
     (case vch of
        None \<Rightarrow> Inr []
      | Some v \<Rightarrow> MarshalViewChange pw (Some (v\<lparr>vc_Signature := []\<rparr>)))"

section \<open>Quorum certificates\<close>

text \<open>The loop of \<open>VerifyQC\<close> from validator \<open>i\<close> on. The bitmap has the length the function checks
  first, so \<open>qc.SigBitmap[i/8]\<close> is in range.\<close>

fun verify_signatures ::
  "protowire \<Rightarrow> verifier \<Rightarrow> quorum_certificate \<Rightarrow> nat \<Rightarrow> validator list \<Rightarrow> error + unit"
where
  "verify_signatures pw ver qc i [] = Inr ()"
| "verify_signatures pw ver qc i (v # vs) =
     (let signed = (qc_SigBitmap qc ! (i div 8) AND push_bit (i mod 8) 1 \<noteq> 0)
      in if \<not> signed then verify_signatures pw ver qc (Suc i) vs
         else guard_err (length (qc_Signatures qc) \<le> i \<or> qc_Signatures qc ! i = []) ''missing signature for validator index''
           (let vote = \<lparr>vote_BlockHash = qc_BlockHash qc, vote_Height = qc_Height qc, vote_Round = qc_Round qc,
                  vote_Validator = val_OperatorAddress v, vote_Signature = []\<rparr>
            in bind_err (PrecommitSignBytes pw (Some vote)) (\<lambda>msg.
               guard_err (\<not> Verify ver msg (qc_Signatures qc ! i) (val_ConsensusPubKey v))
                 ''invalid signature for validator index''
                (verify_signatures pw ver qc (Suc i) vs))))"

definition VerifyQC ::
  "protowire \<Rightarrow> quorum_certificate option \<Rightarrow> validator_set option \<Rightarrow> verifier \<Rightarrow> error + unit"
where
  "VerifyQC pw qc vset ver =
     (case (qc, vset) of
        (Some qc, Some vs) \<Rightarrow>
          guard_err (vs_Validators vs = []) ''empty validator set''
         (guard_err (length (qc_SigBitmap qc) \<noteq> (length (vs_Validators vs) + 7) div 8) ''invalid bitmap length''
         (verify_signatures pw ver qc 0 (vs_Validators vs)))
      | _ \<Rightarrow> Inl ''nil qc or validator set'')"

section \<open>The engine\<close>

record network =
  BroadcastProposal :: "proposal \<Rightarrow> error + unit"
  BroadcastPrecommit :: "precommit_vote \<Rightarrow> error + unit"
  BroadcastQC :: "quorum_certificate \<Rightarrow> error + unit"

record consensus_config =
  cfg_EpochLength :: u64
  cfg_MaxValidators :: u32
  cfg_BlockMaxTxs :: int
  cfg_MinStake :: u64
  cfg_SlashDouble :: u64
  cfg_JailDouble :: u64
  cfg_SlashOffline :: u64
  cfg_JailOffline :: u64

record ('kv, 'r, 'c, 'm) engine =
  en_cfg :: consensus_config
  en_state :: "'kv state"
  en_dpos :: dpos
  en_mempool :: mempool
  en_contracts :: "('r, 'c, 'm) contract_engine option"
  en_verifier :: verifier
  en_signer :: signer
  en_network :: "network option"
  en_validatorSet :: validator_set
  en_height :: u64
  en_round :: u64
  en_lastFinalized :: hash
  en_votes :: "hash \<rightharpoonup> (address \<rightharpoonup> precommit_vote)"
  en_validatorAddr :: address

subsection \<open>Persistence\<close>

definition loadConsensusState ::
  "('kv, 'r, 'c, 'm) libs \<Rightarrow> ('kv, 'r, 'c, 'm) engine \<Rightarrow> error + ('kv, 'r, 'c, 'm) engine"
where
  "loadConsensusState L e =
     bind_err (GetConsensusState (lib_pb L) (st_store (en_state e))) (\<lambda>(height, round, lastFinalized).
       let e = (if 0 < height then e\<lparr>en_height := height\<rparr> else e);
           e = (if 0 < round then e\<lparr>en_round := round\<rparr> else e);
           e = (if lastFinalized \<noteq> zero_hash then e\<lparr>en_lastFinalized := lastFinalized\<rparr> else e)
       in Inr e)"

definition persistConsensusState ::
  "('kv, 'r, 'c, 'm) libs \<Rightarrow> ('kv, 'r, 'c, 'm) engine \<Rightarrow> error + ('kv, 'r, 'c, 'm) engine"
where
  "persistConsensusState L e =
     bind_err (SetConsensusState (lib_pb L) (st_store (en_state e)) (en_height e) (en_round e) (en_lastFinalized e))
       (\<lambda>db. Inr (e\<lparr>en_state := (en_state e)\<lparr>st_store := db\<rparr>\<rparr>))"

text \<open>\<open>_ = e.persistConsensusState()\<close>: an error is dropped.\<close>

definition try_persist ::
  "('kv, 'r, 'c, 'm) libs \<Rightarrow> ('kv, 'r, 'c, 'm) engine \<Rightarrow> ('kv, 'r, 'c, 'm) engine"
where
  "try_persist L e = (case persistConsensusState L e of Inl _ \<Rightarrow> e | Inr e \<Rightarrow> e)"

definition NewEngine ::
  "('kv, 'r, 'c, 'm) libs \<Rightarrow> address list \<Rightarrow> consensus_config \<Rightarrow> 'kv state \<Rightarrow> dpos \<Rightarrow> mempool
   \<Rightarrow> ('r, 'c, 'm) contract_engine option \<Rightarrow> address \<Rightarrow> signer \<Rightarrow> verifier \<Rightarrow> network option
   \<Rightarrow> error + ('kv, 'r, 'c, 'm) engine"
where
  "NewEngine L order cfg st d mp contracts operatorAddr sig_key ver net =
     loadConsensusState L
       \<lparr>en_cfg = cfg, en_state = st, en_dpos = d, en_mempool = mp, en_contracts = contracts,
        en_verifier = ver, en_signer = sig_key, en_network = net, en_validatorSet = DPoS_ValidatorSet order d,
        en_height = 0, en_round = 0, en_lastFinalized = zero_hash, en_votes = Map.empty,
        en_validatorAddr = operatorAddr\<rparr>"

subsection \<open>Proposers and keys\<close>

fun proposer_from :: "u64 \<Rightarrow> u64 \<Rightarrow> validator list \<Rightarrow> validator option" where
  "proposer_from seed acc [] = None"
| "proposer_from seed acc (v # vs) =
     (let acc = acc + val_Power v in if seed < acc then Some v else proposer_from seed acc vs)"

definition isExpectedProposerLocked :: "('kv, 'r, 'c, 'm) engine \<Rightarrow> address \<Rightarrow> bool" where
  "isExpectedProposerLocked e addr =
     (if vs_Validators (en_validatorSet e) = [] then False
      else
        let totalPower = vs_TotalPower (en_validatorSet e)
        in if totalPower = 0 then False
           else
             let seed = (en_height e + en_round e) mod totalPower
             in case proposer_from seed 0 (vs_Validators (en_validatorSet e)) of
                  None \<Rightarrow> False
                | Some v \<Rightarrow> val_OperatorAddress v = addr)"

definition isProposerLocked :: "('kv, 'r, 'c, 'm) engine \<Rightarrow> bool" where
  "isProposerLocked e = isExpectedProposerLocked e (en_validatorAddr e)"

definition validatorPubKey :: "('kv, 'r, 'c, 'm) engine \<Rightarrow> address \<Rightarrow> bytes option" where
  "validatorPubKey e addr =
     (case vs_IndexByAddr (en_validatorSet e) addr of
        None \<Rightarrow> None
      | Some idx \<Rightarrow>
          if length (vs_Validators (en_validatorSet e)) \<le> unat idx then None
          else Some (val_ConsensusPubKey (vs_Validators (en_validatorSet e) ! unat idx)))"

definition mustHashBlock :: "('kv, 'r, 'c, 'm) libs \<Rightarrow> block \<Rightarrow> hash" where
  "mustHashBlock L b =
     (case HashBlock (lib_pw L) (Sum256 (lib_cl L)) (Some b) of Inl _ \<Rightarrow> zero_hash | Inr h \<Rightarrow> h)"

subsection \<open>Building a certificate\<close>

text \<open>The loop over the votes: signatures, bitmap and power. An index outside the validators panics.\<close>

fun collect_votes ::
  "validator_set \<Rightarrow> (address \<rightharpoonup> precommit_vote) \<Rightarrow> address list \<Rightarrow> bytes list \<times> bytes \<times> u64
   \<Rightarrow> (bytes list \<times> bytes \<times> u64) go"
where
  "collect_votes vs votes [] acc = Ret (Inr acc)"
| "collect_votes vs votes (addr # order) (signatures, bitmap, signedPower) =
     (case (vs_IndexByAddr vs addr, votes addr) of
        (Some i, Some vote) \<Rightarrow>
          let idx = unat i in
          if length (vs_Validators vs) \<le> idx then Panic ''index out of range''
          else collect_votes vs votes order
            (signatures[idx := vote_Signature vote],
             bitmap[idx div 8 := bitmap ! (idx div 8) OR push_bit (idx mod 8) 1],
             signedPower + val_Power (vs_Validators vs ! idx))
      | _ \<Rightarrow> collect_votes vs votes order (signatures, bitmap, signedPower))"

definition tryBuildQC ::
  "address list \<Rightarrow> ('kv, 'r, 'c, 'm) engine \<Rightarrow> hash \<Rightarrow> (address \<rightharpoonup> precommit_vote)
   \<Rightarrow> quorum_certificate option go"
where
  "tryBuildQC order e blockHash votes =
     (let totalPower = vs_TotalPower (en_validatorSet e);
          n = length (vs_Validators (en_validatorSet e))
      in if totalPower = 0 then Ret (Inr None)
         else
           (case collect_votes (en_validatorSet e) votes order (replicate n [], replicate ((n + 7) div 8) 0, 0) of
              Panic err \<Rightarrow> Panic err
            | Ret (Inl err) \<Rightarrow> Ret (Inl err)
            | Ret (Inr (signatures, bitmap, signedPower)) \<Rightarrow>
                if signedPower * 3 \<le> totalPower * 2 then Ret (Inr None)
                else Ret (Inr (Some \<lparr>qc_BlockHash = blockHash, qc_Height = en_height e + 1, qc_Round = en_round e,
                       qc_SigBitmap = bitmap, qc_AggregatedSig = [], qc_Signatures = signatures\<rparr>))))"


subsection \<open>Handlers\<close>

definition mempool_cost ::
  "('kv, 'r, 'c, 'm) libs \<Rightarrow> ('kv, 'r, 'c, 'm) engine \<Rightarrow> transaction option \<Rightarrow> error + u64"
where
  "mempool_cost L e = Coster_Cost (lib_pw L) \<lparr>co_Params = st_rcParams (en_state e), co_Contracts = en_contracts e\<rparr>"

definition broadcast :: "network option \<Rightarrow> (network \<Rightarrow> 'x \<Rightarrow> error + unit) \<Rightarrow> 'x \<Rightarrow> error + unit" where
  "broadcast net send x = (case net of None \<Rightarrow> Inr () | Some n \<Rightarrow> send n x)"

text \<open>Signing and sending, the common tail of \<open>ProposeBlock\<close> and \<open>HandleProposal\<close>.\<close>

definition sign_proposal ::
  "('kv, 'r, 'c, 'm) libs \<Rightarrow> ('kv, 'r, 'c, 'm) engine \<Rightarrow> proposal \<Rightarrow> error + proposal"
where
  "sign_proposal L e prop =
     bind_err (ProposalSignBytes (lib_pw L) (Some prop)) (\<lambda>propBytes.
     bind_err (Sign (en_signer e) propBytes) (\<lambda>sig.
     let prop = prop\<lparr>prop_ProposerSig := sig\<rparr>
     in bind_err (broadcast (en_network e) BroadcastProposal prop) (\<lambda>_. Inr prop)))"

definition sign_vote ::
  "('kv, 'r, 'c, 'm) libs \<Rightarrow> ('kv, 'r, 'c, 'm) engine \<Rightarrow> precommit_vote \<Rightarrow> error + precommit_vote"
where
  "sign_vote L e vote =
     bind_err (PrecommitSignBytes (lib_pw L) (Some vote)) (\<lambda>voteBytes.
     bind_err (Sign (en_signer e) voteBytes) (\<lambda>sig.
     let vote = vote\<lparr>vote_Signature := sig\<rparr>
     in bind_err (broadcast (en_network e) BroadcastPrecommit vote) (\<lambda>_. Inr vote)))"

definition ProposeBlock ::
  "('kv, 'r, 'c, 'm) libs \<Rightarrow> i64 \<Rightarrow> address list \<Rightarrow> address list \<Rightarrow> ('kv, 'r, 'c, 'm) engine
   \<Rightarrow> ('kv, 'r, 'c, 'm) engine \<times> proposal go"
where
  "ProposeBlock L now poolOrder senderOrder e =
     (if \<not> isProposerLocked e then (e, Ret (Inl ''not proposer''))
      else
        case SelectForBlock (lib_pw L) (lib_cl L) (State_GetAccount L (en_state e)) (mempool_cost L e)
               poolOrder senderOrder (cfg_BlockMaxTxs (en_cfg e)) (en_mempool e) of
          Inl err \<Rightarrow> (e, Ret (Inl err))
        | Inr txs \<Rightarrow>
            let block = \<lparr>bl_Height = en_height e + 1, bl_PrevHash = en_lastFinalized e, bl_StateRoot = zero_hash,
                  bl_Timestamp = now, bl_Proposer = en_validatorAddr e, bl_Transactions = map Some txs,
                  bl_ValidatorSigs = replicate (length (vs_Validators (en_validatorSet e))) []\<rparr>
            in case PreviewBlock L (en_state e) (Some block) (en_contracts e) of
                 (contracts, Panic err) \<Rightarrow> (e\<lparr>en_contracts := contracts\<rparr>, Panic err)
               | (contracts, Ret (Inl err)) \<Rightarrow> (e\<lparr>en_contracts := contracts\<rparr>, Ret (Inl err))
               | (contracts, Ret (Inr root)) \<Rightarrow>
                   let e = e\<lparr>en_contracts := contracts\<rparr>;
                       block = block\<lparr>bl_StateRoot := root\<rparr>;
                       prop = \<lparr>prop_Block = Some block, prop_Round = en_round e, prop_ProposerSig = []\<rparr>
                   in (e, Ret (sign_proposal L e prop)))"

text \<open>The checks of \<open>HandleProposal\<close> before the preview.\<close>

definition check_proposal ::
  "('kv, 'r, 'c, 'm) libs \<Rightarrow> ('kv, 'r, 'c, 'm) engine \<Rightarrow> proposal \<Rightarrow> block \<Rightarrow> error + unit"
where
  "check_proposal L e prop b =
     guard_err (bl_Height b \<noteq> en_height e + 1) ''unexpected height''
    (guard_err (bl_PrevHash b \<noteq> en_lastFinalized e) ''unexpected previous hash''
    (guard_err (\<not> isExpectedProposerLocked e (bl_Proposer b)) ''unexpected proposer''
    (bind_err (ProposalSignBytes (lib_pw L) (Some prop)) (\<lambda>propBytes.
     case validatorPubKey e (bl_Proposer b) of
       None \<Rightarrow> Inl ''unknown proposer''
     | Some pk \<Rightarrow>
         guard_err (\<not> Verify (en_verifier e) propBytes (prop_ProposerSig prop) pk) ''invalid proposer signature''
        (bind_err (GetLastTimestamps (lib_pb L) (st_store (en_state e))) (\<lambda>lastTimestamps.
         guard_err (lastTimestamps \<noteq> [] \<and>
             EffectiveTime (bl_Timestamp b) lastTimestamps (MaxSkewSec (st_rcParams (en_state e))) \<noteq> bl_Timestamp b)
           ''block timestamp outside allowed window'' (Inr ())))))))"

definition HandleProposal ::
  "('kv, 'r, 'c, 'm) libs \<Rightarrow> proposal option \<Rightarrow> ('kv, 'r, 'c, 'm) engine
   \<Rightarrow> ('kv, 'r, 'c, 'm) engine \<times> precommit_vote go"
where
  "HandleProposal L prop e =
     (case prop of
        None \<Rightarrow> (e, Ret (Inl ''invalid proposal''))
      | Some p \<Rightarrow>
          (case prop_Block p of
             None \<Rightarrow> (e, Ret (Inl ''invalid proposal''))
           | Some b \<Rightarrow>
               (case check_proposal L e p b of
                  Inl err \<Rightarrow> (e, Ret (Inl err))
                | Inr _ \<Rightarrow>
                    (case PreviewBlock L (en_state e) (Some b) (en_contracts e) of
                       (contracts, Panic err) \<Rightarrow> (e\<lparr>en_contracts := contracts\<rparr>, Panic err)
                     | (contracts, Ret (Inl err)) \<Rightarrow> (e\<lparr>en_contracts := contracts\<rparr>, Ret (Inl err))
                     | (contracts, Ret (Inr previewRoot)) \<Rightarrow>
                         let e = e\<lparr>en_contracts := contracts\<rparr>
                         in if previewRoot \<noteq> bl_StateRoot b then (e, Ret (Inl ''state root mismatch''))
                            else
                              let vote = \<lparr>vote_BlockHash = mustHashBlock L b, vote_Height = bl_Height b,
                                    vote_Round = prop_Round p, vote_Validator = en_validatorAddr e,
                                    vote_Signature = []\<rparr>
                              in (e, Ret (sign_vote L e vote))))))"

text \<open>\<open>order\<close> is the order in which \<open>range votes\<close> visits the votes for the block, the new one included.\<close>

definition HandlePrecommitVote ::
  "('kv, 'r, 'c, 'm) libs \<Rightarrow> address list \<Rightarrow> precommit_vote option \<Rightarrow> ('kv, 'r, 'c, 'm) engine
   \<Rightarrow> ('kv, 'r, 'c, 'm) engine \<times> quorum_certificate option go"
where
  "HandlePrecommitVote L order vote e =
     (case vote of
        None \<Rightarrow> (e, Ret (Inl ''nil vote''))
      | Some v \<Rightarrow>
          if vote_Height v \<noteq> en_height e + 1 then (e, Ret (Inl ''unexpected vote height''))
          else
            case PrecommitSignBytes (lib_pw L) (Some v) of
              Inl err \<Rightarrow> (e, Ret (Inl err))
            | Inr voteBytes \<Rightarrow>
                (case validatorPubKey e (vote_Validator v) of
                   None \<Rightarrow> (e, Ret (Inl ''unknown validator''))
                 | Some pk \<Rightarrow>
                     if \<not> Verify (en_verifier e) voteBytes (vote_Signature v) pk
                     then (e, Ret (Inl ''invalid vote signature''))
                     else
                       let vmap = (case en_votes e (vote_BlockHash v) of None \<Rightarrow> Map.empty | Some m \<Rightarrow> m);
                           vmap = vmap(vote_Validator v \<mapsto> v);
                           e = e\<lparr>en_votes := (en_votes e)(vote_BlockHash v \<mapsto> vmap)\<rparr>
                       in (e, tryBuildQC order e (vote_BlockHash v) vmap)))"

definition HandleViewChange ::
  "('kv, 'r, 'c, 'm) libs \<Rightarrow> view_change option \<Rightarrow> ('kv, 'r, 'c, 'm) engine
   \<Rightarrow> ('kv, 'r, 'c, 'm) engine \<times> (error + unit)"
where
  "HandleViewChange L vch e =
     (case vch of
        None \<Rightarrow> (e, Inl ''nil view change'')
      | Some vc \<Rightarrow>
          if vc_Height vc \<noteq> en_height e + 1 then (e, Inl ''unexpected view change height'')
          else
            case validatorPubKey e (vc_Validator vc) of
              None \<Rightarrow> (e, Inl ''unknown validator'')
            | Some pk \<Rightarrow>
                (case ViewChangeSignBytes (lib_pw L) (Some vc) of
                   Inl err \<Rightarrow> (e, Inl err)
                 | Inr msg \<Rightarrow>
                     if \<not> Verify (en_verifier e) msg (vc_Signature vc) pk
                     then (e, Inl ''invalid view change signature'')
                     else
                       (if en_round e < vc_Round vc then try_persist L (e\<lparr>en_round := vc_Round vc\<rparr>) else e,
                        Inr ())))"

definition OnTimeout :: "('kv, 'r, 'c, 'm) libs \<Rightarrow> ('kv, 'r, 'c, 'm) engine \<Rightarrow> ('kv, 'r, 'c, 'm) engine" where
  "OnTimeout L e = try_persist L (e\<lparr>en_round := en_round e + 1\<rparr>)"

text \<open>\<open>FinalizeBlock\<close> writes into the caller's block, which is returned, and runs the contract engine
  it is given. Each step that has happened stays when a later one fails.\<close>

definition FinalizeBlock ::
  "('kv, 'r, 'c, 'm) libs \<Rightarrow> address list \<Rightarrow> block option \<Rightarrow> quorum_certificate option
   \<Rightarrow> ('r, 'c, 'm) contract_engine option \<Rightarrow> ('kv, 'r, 'c, 'm) engine
   \<Rightarrow> ('kv, 'r, 'c, 'm) engine \<times> ('r, 'c, 'm) contract_engine option \<times> block option \<times> unit go"
where
  "FinalizeBlock L order blk cert contracts e =
     (case (blk, cert) of
        (Some b, Some qc) \<Rightarrow>
          let b = (if length (qc_Signatures qc) = length (vs_Validators (en_validatorSet e))
                   then b\<lparr>bl_ValidatorSigs := qc_Signatures qc\<rparr> else b)
          in (case ApplyBlock L (en_state e) (Some b) contracts of
                (st, contracts, Panic err) \<Rightarrow> (e\<lparr>en_state := st\<rparr>, contracts, Some b, Panic err)
              | (st, contracts, Ret (Inl err)) \<Rightarrow> (e\<lparr>en_state := st\<rparr>, contracts, Some b, Ret (Inl err))
              | (st, contracts, Ret (Inr root)) \<Rightarrow>
                  let b = b\<lparr>bl_StateRoot := root\<rparr>;
                      e = e\<lparr>en_state := st, en_height := bl_Height b, en_lastFinalized := mustHashBlock L b,
                            en_validatorSet := DPoS_ValidatorSet order (en_dpos e), en_round := 0\<rparr>
                  in (case persistConsensusState L e of
                        Inl err \<Rightarrow> (e, contracts, Some b, Ret (Inl err))
                      | Inr e \<Rightarrow> (e\<lparr>en_votes := (en_votes e)(qc_BlockHash qc := None)\<rparr>, contracts, Some b,
                                  Ret (Inr ()))))
      | _ \<Rightarrow> (e, contracts, blk, Ret (Inl ''invalid finalize arguments'')))"

end
