(* ===== verification/Quorum.thy ===== *)
theory Quorum
  imports Consensus
begin

text \<open>
  What the consensus engine guarantees about proposers and certificates: the proposer of a round and
  its share of the rounds, the exact condition under which votes become a certificate and the
  intersection of two quorums while powers stay small, and what goes wrong with large powers and
  with certificates nobody signed.
\<close>

section \<open>Consistent validator sets\<close>

text \<open>The set a manager returns (\<open>validator_set_facts\<close>): the index is the inverse of the positions.\<close>

definition vset_ok :: "validator_set \<Rightarrow> bool" where
  "vset_ok s \<longleftrightarrow> distinct (map val_OperatorAddress (vs_Validators s)) \<and>
     vs_TotalPower s = sum_list (map val_Power (vs_Validators s)) \<and>
     (\<forall>a n. vs_IndexByAddr s a = Some n \<longleftrightarrow>
        unat n < length (vs_Validators s) \<and> val_OperatorAddress (vs_Validators s ! unat n) = a) \<and>
     length (vs_Validators s) < 2 ^ 32"

lemma validator_set_ok:
  assumes "reachable_dpos d" "range_order d order"
  shows "vset_ok (DPoS_ValidatorSet order d)"
proof -
  have "length (vs_Validators (DPoS_ValidatorSet order d)) = length (visited d order)"
    by (simp add: DPoS_ValidatorSet_def visited_def Let_def)
  then show ?thesis
    using validator_set_facts [OF assms refl] visited_small [OF assms] unfolding vset_ok_def by metis
qed

lemma vset_index:
  assumes "vset_ok s" and "i < length (vs_Validators s)"
  shows "vs_IndexByAddr s (val_OperatorAddress (vs_Validators s ! i)) = Some (word_of_nat i)"
proof -
  have "unat (word_of_nat i :: u32) = i"
    using assms by (simp add: vset_ok_def unat_of_nat take_bit_nat_eq_self)
  then show ?thesis using assms unfolding vset_ok_def by metis
qed

lemma vset_indexD:
  assumes "vset_ok s" and "vs_IndexByAddr s a = Some n"
  shows "unat n < length (vs_Validators s) \<and> val_OperatorAddress (vs_Validators s ! unat n) = a"
  using assms unfolding vset_ok_def by metis

lemma vset_address_inject:
  assumes "vset_ok s" "i < length (vs_Validators s)" "j < length (vs_Validators s)"
  shows "val_OperatorAddress (vs_Validators s ! i) = val_OperatorAddress (vs_Validators s ! j) \<longleftrightarrow> i = j"
  using assms nth_eq_iff_index_eq [of "map val_OperatorAddress (vs_Validators s)" i j]
  by (simp add: vset_ok_def)

text \<open>The power of a list of validators as a number, and the sets whose total fits 64 bits.\<close>

definition power_nat :: "validator list \<Rightarrow> nat" where
  "power_nat vs = sum_list (map (\<lambda>v. unat (val_Power v)) vs)"

lemma power_nat_simps [simp]: "power_nat [] = 0" "power_nat (v # vs) = unat (val_Power v) + power_nat vs"
  by (simp_all add: power_nat_def)

lemma total_power_nat: "power_nat vs < 2 ^ 64 \<Longrightarrow> unat (sum_list (map val_Power vs)) = power_nat vs"
proof (induction vs)
  case (Cons v vs)
  then have "unat (sum_list (map val_Power vs)) = power_nat vs" by simp
  then show ?case using Cons.prems by (simp add: unat_add_small)
qed simp

section \<open>Proposers\<close>

lemma proposer_from_none: "unat acc + power_nat vs < 2 ^ 64 \<Longrightarrow>
    proposer_from seed acc vs = None \<longleftrightarrow> unat acc + power_nat vs \<le> unat seed \<or> vs = []"
proof (induction vs arbitrary: acc)
  case (Cons v vs)
  then have acc: "unat (acc + val_Power v) = unat acc + unat (val_Power v)" by (simp add: unat_add_small)
  then show ?case
    using Cons.IH [of "acc + val_Power v"] Cons.prems
    by (cases "vs = []") (auto simp: Let_def word_less_nat_alt)
qed simp

lemma proposer_from_at:
  assumes "unat acc + power_nat vs < 2 ^ 64" and "unat acc \<le> unat seed" and "k < length vs"
    and "unat acc + power_nat (take k vs) \<le> unat seed" and "unat seed < unat acc + power_nat (take (Suc k) vs)"
  shows "proposer_from seed acc vs = Some (vs ! k)"
  using assms
proof (induction vs arbitrary: acc k)
  case (Cons v vs)
  then have acc: "unat (acc + val_Power v) = unat acc + unat (val_Power v)" by (simp add: unat_add_small)
  show ?case
  proof (cases k)
    case 0
    then show ?thesis using Cons.prems acc by (simp add: Let_def word_less_nat_alt)
  next
    case (Suc j)
    then have "\<not> seed < acc + val_Power v" using Cons.prems acc by (simp add: word_less_nat_alt)
    then show ?thesis
      using Cons.IH [of "acc + val_Power v" j] Cons.prems acc Suc by (simp add: Let_def)
  qed
qed simp

text \<open>Every seed below the total falls into the interval of exactly one validator.\<close>

lemma seed_interval:
  assumes "s < power_nat vs"
  obtains k where "k < length vs" "power_nat (take k vs) \<le> s" "s < power_nat (take (Suc k) vs)"
  using assms
proof (induction vs arbitrary: s thesis)
  case (Cons v vs)
  show ?case
  proof (cases "s < unat (val_Power v)")
    case True
    then show ?thesis using Cons.prems(1) [of 0] by simp
  next
    case False
    then have "s - unat (val_Power v) < power_nat vs" using Cons.prems(2) by simp
    then obtain k where "k < length vs" "power_nat (take k vs) \<le> s - unat (val_Power v)"
      "s - unat (val_Power v) < power_nat (take (Suc k) vs)"
      using Cons.IH [of "s - unat (val_Power v)"] by metis
    then show ?thesis using Cons.prems(1) [of "Suc k"] False by (simp add: le_diff_conv2)
  qed
qed simp

lemma power_nat_take_mono: "i \<le> j \<Longrightarrow> power_nat (take i vs) \<le> power_nat (take j vs)"
proof (induction vs arbitrary: i j)
  case (Cons v vs)
  then show ?case by (cases i; cases j) auto
qed simp

lemma seed_interval_unique:
  assumes "power_nat (take k vs) \<le> s" "s < power_nat (take (Suc k) vs)"
    and "power_nat (take j vs) \<le> s" "s < power_nat (take (Suc j) vs)"
  shows "k = j"
proof (rule ccontr)
  assume "k \<noteq> j"
  then consider "Suc k \<le> j" | "Suc j \<le> k" by linarith
  then show False
    using power_nat_take_mono [of "Suc k" j vs] power_nat_take_mono [of "Suc j" k vs] assms by cases auto
qed

lemma power_nat_take_Suc: "k < length vs \<Longrightarrow> power_nat (take (Suc k) vs) = power_nat (take k vs) + unat (val_Power (vs ! k))"
  by (simp add: take_Suc_conv_app_nth power_nat_def)

text \<open>Property C10. While the total power fits 64 bits, every height and round has exactly one proposer,
  and over one cycle of seeds each validator is the proposer exactly as often as it has power.\<close>

theorem proposers_are_unique_and_fair:
  assumes "reachable_dpos d" "range_order d order" "en_validatorSet e = DPoS_ValidatorSet order d"
    and "power_nat (vs_Validators (en_validatorSet e)) < 2 ^ 64" and "vs_TotalPower (en_validatorSet e) \<noteq> 0"
  shows "(\<exists>!addr. isExpectedProposerLocked e addr) \<and>
    (\<forall>v\<in>set (vs_Validators (en_validatorSet e)).
       card {s. s < unat (vs_TotalPower (en_validatorSet e)) \<and>
         isExpectedProposerLocked (e\<lparr>en_height := 0, en_round := word_of_nat s\<rparr>) (val_OperatorAddress v)}
       = unat (val_Power v))"
proof
  let ?s = "en_validatorSet e" and ?vs = "vs_Validators (en_validatorSet e)"
  have ok: "vset_ok ?s" using validator_set_ok [OF assms(1,2)] assms(3) by simp
  have total: "unat (vs_TotalPower ?s) = power_nat ?vs"
    using total_power_nat [OF assms(4)] ok by (simp add: vset_ok_def)
  then have pos: "0 < power_nat ?vs" using assms(5) by (metis gr0I unsigned_0 word_unat_eq_iff)
  then have ne: "?vs \<noteq> []" by auto
  have "unat ((en_height e + en_round e) mod vs_TotalPower ?s) < power_nat ?vs"
    using total pos by (simp add: unat_mod)
  then obtain v where "proposer_from ((en_height e + en_round e) mod vs_TotalPower ?s) 0 ?vs = Some v"
    using proposer_from_none [of 0 ?vs "(en_height e + en_round e) mod vs_TotalPower ?s"] assms(4) ne by auto
  then show "\<exists>!addr. isExpectedProposerLocked e addr"
    using ne assms(5) by (auto simp: isExpectedProposerLocked_def Let_def)
  show "\<forall>v\<in>set ?vs. card {s. s < unat (vs_TotalPower ?s) \<and>
      isExpectedProposerLocked (e\<lparr>en_height := 0, en_round := word_of_nat s\<rparr>) (val_OperatorAddress v)} = unat (val_Power v)"
  proof
    fix v assume "v \<in> set ?vs"
    then obtain k where k: "k < length ?vs" "?vs ! k = v" by (metis in_set_conv_nth)
    have "isExpectedProposerLocked (e\<lparr>en_height := 0, en_round := word_of_nat s\<rparr>) (val_OperatorAddress v)
        \<longleftrightarrow> power_nat (take k ?vs) \<le> s \<and> s < power_nat (take (Suc k) ?vs)" if s: "s < power_nat ?vs" for s
    proof -
      have small: "unat (word_of_nat s :: u64) = s"
        using s assms(4) by (simp add: unat_of_nat take_bit_nat_eq_self)
      have seed: "(word_of_nat s :: u64) mod vs_TotalPower ?s = word_of_nat s"
        using s total small by (simp add: unat_mod word_unat_eq_iff)
      obtain j where j: "j < length ?vs" "power_nat (take j ?vs) \<le> s" "s < power_nat (take (Suc j) ?vs)"
        using seed_interval [OF s] by blast
      have "proposer_from (word_of_nat s) 0 ?vs = Some (?vs ! j)"
        by (rule proposer_from_at) (use assms(4) small j in simp_all)
      then have "isExpectedProposerLocked (e\<lparr>en_height := 0, en_round := word_of_nat s\<rparr>) (val_OperatorAddress v)
          \<longleftrightarrow> val_OperatorAddress (?vs ! j) = val_OperatorAddress v"
        using ne assms(5) by (simp add: isExpectedProposerLocked_def Let_def seed)
      also have "\<dots> \<longleftrightarrow> j = k" using vset_address_inject [OF ok j(1) k(1)] k(2) by simp
      also have "\<dots> \<longleftrightarrow> power_nat (take k ?vs) \<le> s \<and> s < power_nat (take (Suc k) ?vs)"
        using j seed_interval_unique [OF j(2,3), of k] by auto
      finally show ?thesis .
    qed
    then have "{s. s < unat (vs_TotalPower ?s) \<and>
        isExpectedProposerLocked (e\<lparr>en_height := 0, en_round := word_of_nat s\<rparr>) (val_OperatorAddress v)}
      = {power_nat (take k ?vs) ..< power_nat (take (Suc k) ?vs)}"
      using total power_nat_take_mono [of "Suc k" "length ?vs" ?vs] k(1) by auto
    then show "card {s. s < unat (vs_TotalPower ?s) \<and>
        isExpectedProposerLocked (e\<lparr>en_height := 0, en_round := word_of_nat s\<rparr>) (val_OperatorAddress v)} = unat (val_Power v)"
      using power_nat_take_Suc [OF k(1)] k(2) by simp
  qed
qed


section \<open>Votes and certificates\<close>

text \<open>The positions of the validators who voted, and their power.\<close>

definition voters :: "validator_set \<Rightarrow> (address \<rightharpoonup> precommit_vote) \<Rightarrow> nat set" where
  "voters s votes = {i. i < length (vs_Validators s) \<and> votes (val_OperatorAddress (vs_Validators s ! i)) \<noteq> None}"

definition power_of :: "validator_set \<Rightarrow> nat set \<Rightarrow> nat" where
  "power_of s I = (\<Sum>i\<in>I. unat (val_Power (vs_Validators s ! i)))"

lemma finite_voters [simp]: "finite (voters s votes)"
  by (simp add: voters_def)

lemma power_nat_sum: "power_nat vs = (\<Sum>i<length vs. unat (val_Power (vs ! i)))"
  by (simp add: power_nat_def sum_list_sum_nth atLeast0LessThan)

lemma power_of_le: "I \<subseteq> {..<length (vs_Validators s)} \<Longrightarrow> power_of s I \<le> power_nat (vs_Validators s)"
  unfolding power_of_def power_nat_sum by (rule sum_mono2) auto

lemma bitmap_upd:
  fixes bm :: bytes
  assumes "i div 8 < length bm" "k div 8 < length bm"
  shows "bit (bm[k div 8 := bm ! (k div 8) OR push_bit (k mod 8) 1] ! (i div 8)) (i mod 8)
    \<longleftrightarrow> bit (bm ! (i div 8)) (i mod 8) \<or> i = k"
proof -
  have "i = k \<longleftrightarrow> i div 8 = k div 8 \<and> i mod 8 = k mod 8"
    by (metis div_mult_mod_eq)
  then show ?thesis using assms by (auto simp: nth_list_update bit_simps)
qed

text \<open>The loop over the votes, from any point on.\<close>

lemma collect_votes_ok:
  assumes "vset_ok s" and "distinct order" and "length sigs = length (vs_Validators s)"
    and "length bm = (length (vs_Validators s) + 7) div 8"
  shows "\<exists>sigs' bm' p'. collect_votes s votes order (sigs, bm, p) = Ret (Inr (sigs', bm', p'))
    \<and> length sigs' = length sigs \<and> length bm' = length bm
    \<and> (\<forall>i<length sigs. sigs' ! i = (case votes (val_OperatorAddress (vs_Validators s ! i)) of
         Some v \<Rightarrow> if val_OperatorAddress (vs_Validators s ! i) \<in> set order then vote_Signature v else sigs ! i
       | None \<Rightarrow> sigs ! i))
    \<and> (\<forall>i<length sigs. bit (bm' ! (i div 8)) (i mod 8) \<longleftrightarrow> bit (bm ! (i div 8)) (i mod 8) \<or>
         val_OperatorAddress (vs_Validators s ! i) \<in> set order \<and> votes (val_OperatorAddress (vs_Validators s ! i)) \<noteq> None)
    \<and> p' = p + (\<Sum>i\<in>{i \<in> voters s votes. val_OperatorAddress (vs_Validators s ! i) \<in> set order}. val_Power (vs_Validators s ! i))"
  using assms(2-4)
proof (induction order arbitrary: sigs bm p)
  case (Cons addr order)
  let ?addr = "\<lambda>i. val_OperatorAddress (vs_Validators s ! i)"
  show ?case
  proof (cases "vs_IndexByAddr s addr \<noteq> None \<and> votes addr \<noteq> None")
    case False
    have skip: "collect_votes s votes (addr # order) (sigs, bm, p) = collect_votes s votes order (sigs, bm, p)"
      using False by (auto split: option.splits)
    have none: "votes (?addr i) = None" if "?addr i = addr" "i < length (vs_Validators s)" for i
      using that False vset_index [OF assms(1), of i] by auto
    then have same: "votes (?addr i) \<noteq> None \<and> ?addr i \<in> set (addr # order) \<longleftrightarrow> votes (?addr i) \<noteq> None \<and> ?addr i \<in> set order"
      if "i < length (vs_Validators s)" for i using none [of i] that by (cases "?addr i = addr") simp_all
    have "{i \<in> voters s votes. ?addr i \<in> set (addr # order)} = {i \<in> voters s votes. ?addr i \<in> set order}"
      using same by (auto simp: voters_def)
    then show ?thesis
      using Cons.IH [of sigs bm p] Cons.prems same unfolding skip
      by (auto split: option.splits)
  next
    case True
    then obtain n v where nv: "vs_IndexByAddr s addr = Some n" "votes addr = Some v" by auto
    let ?k = "unat n"
    have k: "?k < length (vs_Validators s)" "?addr ?k = addr" using vset_indexD [OF assms(1) nv(1)] by auto
    let ?sigs = "sigs[?k := vote_Signature v]"
    let ?bm = "bm[?k div 8 := bm ! (?k div 8) OR push_bit (?k mod 8) 1]"
    have step: "collect_votes s votes (addr # order) (sigs, bm, p)
        = collect_votes s votes order (?sigs, ?bm, p + val_Power (vs_Validators s ! ?k))"
      using nv k by (simp add: Let_def)
    have inj: "?addr i = addr \<longleftrightarrow> i = ?k" if "i < length (vs_Validators s)" for i
      using vset_address_inject [OF assms(1) that k(1)] k(2) by simp
    have fresh: "addr \<notin> set order" using Cons.prems(1) by simp
    have bits: "bit (?bm ! (i div 8)) (i mod 8) \<longleftrightarrow> bit (bm ! (i div 8)) (i mod 8) \<or> i = ?k"
      if "i < length (vs_Validators s)" for i
      by (rule bitmap_upd) (use that k(1) Cons.prems(3) in auto)
    have "{i \<in> voters s votes. ?addr i \<in> set (addr # order)} = insert ?k {i \<in> voters s votes. ?addr i \<in> set order}"
      using inj nv k by (auto simp: voters_def)
    moreover have "?k \<notin> {i \<in> voters s votes. ?addr i \<in> set order}" using fresh k by auto
    ultimately have power: "(\<Sum>i\<in>{i \<in> voters s votes. ?addr i \<in> set (addr # order)}. val_Power (vs_Validators s ! i))
        = val_Power (vs_Validators s ! ?k) + (\<Sum>i\<in>{i \<in> voters s votes. ?addr i \<in> set order}. val_Power (vs_Validators s ! i))"
      by simp
    obtain sigs' bm' p' where R: "collect_votes s votes order (?sigs, ?bm, p + val_Power (vs_Validators s ! ?k)) = Ret (Inr (sigs', bm', p'))"
      "length sigs' = length sigs" "length bm' = length bm"
      "\<forall>i<length sigs. sigs' ! i = (case votes (?addr i) of
         Some v \<Rightarrow> if ?addr i \<in> set order then vote_Signature v else ?sigs ! i | None \<Rightarrow> ?sigs ! i)"
      "\<forall>i<length sigs. bit (bm' ! (i div 8)) (i mod 8) \<longleftrightarrow> bit (?bm ! (i div 8)) (i mod 8) \<or>
         ?addr i \<in> set order \<and> votes (?addr i) \<noteq> None"
      "p' = p + val_Power (vs_Validators s ! ?k) + (\<Sum>i\<in>{i \<in> voters s votes. ?addr i \<in> set order}. val_Power (vs_Validators s ! i))"
      using Cons.IH [of ?sigs ?bm "p + val_Power (vs_Validators s ! ?k)"] Cons.prems by auto
    have sig: "sigs' ! i = (case votes (?addr i) of
        Some v \<Rightarrow> if ?addr i \<in> set (addr # order) then vote_Signature v else sigs ! i | None \<Rightarrow> sigs ! i)"
      if i: "i < length sigs" for i
    proof (cases "i = ?k")
      case True
      then show ?thesis using R(4) i k nv fresh by simp
    next
      case False
      then show ?thesis using R(4) i inj [of i] Cons.prems(2) by (auto split: option.splits)
    qed
    have bit: "bit (bm' ! (i div 8)) (i mod 8) \<longleftrightarrow> bit (bm ! (i div 8)) (i mod 8) \<or>
        ?addr i \<in> set (addr # order) \<and> votes (?addr i) \<noteq> None" if i: "i < length sigs" for i
      using R(5) i bits [of i] inj [of i] Cons.prems(2) nv by auto
    show ?thesis
      unfolding step R(1) using R(2,3,6) sig bit power by (auto simp: add.assoc)
  qed
qed (simp split: option.split)


text \<open>A certificate of an engine, as a function of who voted.\<close>

definition signature_of :: "validator_set \<Rightarrow> (address \<rightharpoonup> precommit_vote) \<Rightarrow> nat \<Rightarrow> bytes" where
  "signature_of s votes i =
     (case votes (val_OperatorAddress (vs_Validators s ! i)) of None \<Rightarrow> [] | Some v \<Rightarrow> vote_Signature v)"

lemma tryBuildQC_votes:
  assumes "vset_ok (en_validatorSet e)" and "map_order votes order" and "s = en_validatorSet e"
  obtains sigs bm where
    "tryBuildQC order e h votes =
       (if vs_TotalPower s = 0 \<or> (\<Sum>i\<in>voters s votes. val_Power (vs_Validators s ! i)) * 3 \<le> vs_TotalPower s * 2
        then Ret (Inr None)
        else Ret (Inr (Some \<lparr>qc_BlockHash = h, qc_Height = en_height e + 1, qc_Round = en_round e,
               qc_SigBitmap = bm, qc_AggregatedSig = [], qc_Signatures = sigs\<rparr>)))"
    "length sigs = length (vs_Validators s)" "length bm = (length (vs_Validators s) + 7) div 8"
    "\<forall>i<length (vs_Validators s). sigs ! i = signature_of s votes i"
    "\<forall>i<length (vs_Validators s). bit (bm ! (i div 8)) (i mod 8) \<longleftrightarrow> i \<in> voters s votes"
proof -
  let ?n = "length (vs_Validators s)"
  have all: "val_OperatorAddress (vs_Validators s ! i) \<in> set order" if "i \<in> voters s votes" for i
    using that assms(2) by (auto simp: voters_def map_order_def)
  then have voters: "{i \<in> voters s votes. val_OperatorAddress (vs_Validators s ! i) \<in> set order} = voters s votes"
    by auto
  have zero: "\<not> bit (replicate ((?n + 7) div 8) (0 :: u8) ! (i div 8)) (i mod 8)" if "i < ?n" for i
  proof -
    have "i div 8 < (?n + 7) div 8" using that by linarith
    then show ?thesis by simp
  qed
  obtain sigs bm p where C:
    "collect_votes s votes order (replicate ?n [], replicate ((?n + 7) div 8) 0, 0) = Ret (Inr (sigs, bm, p))"
    "length sigs = ?n" "length bm = (?n + 7) div 8"
    "\<forall>i<?n. sigs ! i = (case votes (val_OperatorAddress (vs_Validators s ! i)) of
         Some v \<Rightarrow> if val_OperatorAddress (vs_Validators s ! i) \<in> set order then vote_Signature v else replicate ?n [] ! i
       | None \<Rightarrow> replicate ?n [] ! i)"
    "\<forall>i<?n. bit (bm ! (i div 8)) (i mod 8) \<longleftrightarrow> bit (replicate ((?n + 7) div 8) (0 :: u8) ! (i div 8)) (i mod 8) \<or>
         val_OperatorAddress (vs_Validators s ! i) \<in> set order \<and> votes (val_OperatorAddress (vs_Validators s ! i)) \<noteq> None"
    "p = (\<Sum>i\<in>voters s votes. val_Power (vs_Validators s ! i))"
    using collect_votes_ok [of s order "replicate ?n []" "replicate ((?n + 7) div 8) 0" votes 0] assms voters
    by (auto simp: map_order_def)
  show thesis
  proof (rule that [of bm sigs])
    show "\<forall>i<?n. sigs ! i = signature_of s votes i"
      using C(4) all by (auto simp: signature_of_def voters_def split: option.splits)
    show "\<forall>i<?n. bit (bm ! (i div 8)) (i mod 8) \<longleftrightarrow> i \<in> voters s votes"
      using C(5) zero all by (auto simp: voters_def)
  qed (use C assms(3) in \<open>simp_all add: tryBuildQC_def Let_def\<close>)
qed


lemma voters_subset: "voters s votes \<subseteq> {..<length (vs_Validators s)}"
  by (auto simp: voters_def)

lemma voting_power:
  assumes "power_nat (vs_Validators s) < 2 ^ 64" "I \<subseteq> {..<length (vs_Validators s)}"
  shows "unat (\<Sum>i\<in>I. val_Power (vs_Validators s ! i)) = power_of s I"
proof -
  have "finite I" using assms(2) finite_subset by blast
  then show ?thesis
    using assms(2)
  proof (induction I)
    case (insert i I)
    have "power_of s (insert i I) < 2 ^ 64"
      using power_of_le [OF insert.prems] assms(1) by linarith
    then show ?case using insert by (simp add: power_of_def unat_add_small)
  qed (simp add: power_of_def)
qed

text \<open>The comparison of the code, when three times the total still fits 64 bits.\<close>

lemma tryBuildQC_small:
  assumes "vset_ok (en_validatorSet e)" and "map_order votes order"
    and "3 * power_nat (vs_Validators (en_validatorSet e)) < 2 ^ 64"
  shows "(\<exists>qc. tryBuildQC order e h votes = Ret (Inr (Some qc))) \<longleftrightarrow>
    2 * power_nat (vs_Validators (en_validatorSet e)) < 3 * power_of (en_validatorSet e) (voters (en_validatorSet e) votes)"
proof -
  let ?s = "en_validatorSet e"
  let ?p = "\<Sum>i\<in>voters ?s votes. val_Power (vs_Validators ?s ! i)"
  have p: "unat ?p = power_of ?s (voters ?s votes)"
    using voting_power [OF _ voters_subset] assms(3) by simp
  have le: "power_of ?s (voters ?s votes) \<le> power_nat (vs_Validators ?s)"
    by (rule power_of_le [OF voters_subset])
  have total: "unat (vs_TotalPower ?s) = power_nat (vs_Validators ?s)"
    using total_power_nat assms(1,3) by (simp add: vset_ok_def)
  have "unat (?p * 3) = 3 * power_of ?s (voters ?s votes)"
    using unat_mult_small [of ?p 3] p le assms(3) by simp
  moreover have "unat (vs_TotalPower ?s * 2) = 2 * power_nat (vs_Validators ?s)"
    using unat_mult_small [of "vs_TotalPower ?s" 2] total assms(3) by simp
  moreover have "vs_TotalPower ?s = 0 \<longleftrightarrow> power_nat (vs_Validators ?s) = 0"
    using total by (simp add: word_unat_eq_iff)
  moreover obtain sigs bm where "tryBuildQC order e h votes =
       (if vs_TotalPower ?s = 0 \<or> ?p * 3 \<le> vs_TotalPower ?s * 2 then Ret (Inr None)
        else Ret (Inr (Some \<lparr>qc_BlockHash = h, qc_Height = en_height e + 1, qc_Round = en_round e,
               qc_SigBitmap = bm, qc_AggregatedSig = [], qc_Signatures = sigs\<rparr>)))"
    using tryBuildQC_votes [OF assms(1,2) refl, of h] by metis
  ultimately show ?thesis using le by (auto simp: word_le_nat_alt)
qed

text \<open>The voters of two certificates, built by two engines over the same validators.\<close>

lemma certificates_overlap:
  assumes "vset_ok s" and "3 * power_nat (vs_Validators s) < 2 ^ 64"
    and "map_order v1 o1" "map_order v2 o2" and "en_validatorSet e1 = s" "en_validatorSet e2 = s"
    and "tryBuildQC o1 e1 h1 v1 = Ret (Inr (Some qc1))" "tryBuildQC o2 e2 h2 v2 = Ret (Inr (Some qc2))"
  shows "power_nat (vs_Validators s) < 3 * power_of s (voters s v1 \<inter> voters s v2)"
proof -
  let ?A = "voters s v1" and ?B = "voters s v2"
  have "2 * power_nat (vs_Validators s) < 3 * power_of s ?A" "2 * power_nat (vs_Validators s) < 3 * power_of s ?B"
    using tryBuildQC_small [of e1 v1 o1 h1] tryBuildQC_small [of e2 v2 o2 h2] assms by auto
  moreover have "power_of s (?A \<union> ?B) + power_of s (?A \<inter> ?B) = power_of s ?A + power_of s ?B"
    unfolding power_of_def by (rule sum.union_inter) simp_all
  moreover have "power_of s (?A \<union> ?B) \<le> power_nat (vs_Validators s)"
    by (rule power_of_le) (use voters_subset in blast)
  ultimately show ?thesis by linarith
qed

text \<open>Property C7. While three times the total power fits 64 bits, votes become a certificate exactly when
  the voters hold more than two thirds of the power; and the voters of any two certificates have
  more than a third of it in common, so that two conflicting ones need that much double voting.\<close>

theorem quorums_intersect:
  assumes "reachable_dpos d" "range_order d r" "en_validatorSet e = DPoS_ValidatorSet r d"
    and "3 * power_nat (vs_Validators (en_validatorSet e)) < 2 ^ 64"
    and "map_order v1 o1" "map_order v2 o2"
    and "tryBuildQC o1 e h1 v1 = Ret (Inr (Some qc1))" "tryBuildQC o2 e h2 v2 = Ret (Inr (Some qc2))"
  shows "2 * power_nat (vs_Validators (en_validatorSet e)) < 3 * power_of (en_validatorSet e) (voters (en_validatorSet e) v1)
    \<and> power_nat (vs_Validators (en_validatorSet e))
      < 3 * power_of (en_validatorSet e) (voters (en_validatorSet e) v1 \<inter> voters (en_validatorSet e) v2)"
  using certificates_overlap [OF _ assms(4-6) refl refl assms(7,8)]
    tryBuildQC_small [OF _ assms(5,4), of h1] validator_set_ok [OF assms(1,2)] assms(3,7) by auto

lemma three_inverse: "3 * 0xAAAAAAAAAAAAAAAB = (1 :: u64)"
  by (simp add: word_eq_iff_unsigned)

text \<open>Property C29. The products of the comparison wrap: when the total power is \<open>2 ^ 63\<close>, twice the total is
  zero and the vote of any single validator with power, however little, becomes a certificate.\<close>

theorem large_powers_break_the_quorum:
  assumes "reachable_dpos d" "range_order d r" "en_validatorSet e = DPoS_ValidatorSet r d"
    and "vs_TotalPower (en_validatorSet e) = 2 ^ 63"
    and "i < length (vs_Validators (en_validatorSet e))" and "v = vs_Validators (en_validatorSet e) ! i"
    and "val_Power v \<noteq> 0"
  shows "\<exists>qc. tryBuildQC [val_OperatorAddress v] e h [val_OperatorAddress v \<mapsto> vote] = Ret (Inr (Some qc))"
proof -
  let ?s = "en_validatorSet e"
  let ?votes = "[val_OperatorAddress v \<mapsto> vote]"
  have ok: "vset_ok ?s" using validator_set_ok [OF assms(1,2)] assms(3) by simp
  have order: "map_order ?votes [val_OperatorAddress v]" by (simp add: map_order_def)
  have "voters ?s ?votes = {i}"
    using assms(5,6) vset_address_inject [OF ok _ assms(5)] by (auto simp: voters_def split: if_splits)
  moreover have "vs_TotalPower ?s * 2 = 0" "vs_TotalPower ?s \<noteq> 0"
    unfolding assms(4) by simp_all
  moreover have "val_Power v * 3 \<noteq> 0"
  proof
    assume zero: "val_Power v * 3 = 0"
    have "val_Power v = val_Power v * (3 * 0xAAAAAAAAAAAAAAAB)" by (simp only: three_inverse mult_1_right)
    also have "\<dots> = 0" by (metis zero mult.assoc mult_zero_left)
    finally show False using assms(7) by simp
  qed
  moreover obtain sigs bm where "tryBuildQC [val_OperatorAddress v] e h ?votes =
       (if vs_TotalPower ?s = 0 \<or> (\<Sum>i\<in>voters ?s ?votes. val_Power (vs_Validators ?s ! i)) * 3 \<le> vs_TotalPower ?s * 2
        then Ret (Inr None)
        else Ret (Inr (Some \<lparr>qc_BlockHash = h, qc_Height = en_height e + 1, qc_Round = en_round e,
               qc_SigBitmap = bm, qc_AggregatedSig = [], qc_Signatures = sigs\<rparr>)))"
    using tryBuildQC_votes [OF ok order refl, of h] by metis
  ultimately show ?thesis using assms(6) by simp
qed


section \<open>Certificates and their verification\<close>

lemma PrecommitSignBytes_total: "\<exists>msg. PrecommitSignBytes pw (Some v) = Inr msg"
  by (simp add: PrecommitSignBytes_def MarshalPrecommitVote_def Let_def)

text \<open>What is signed does not depend on the signature field.\<close>

lemma PrecommitSignBytes_unsigned:
  "PrecommitSignBytes pw (Some (v\<lparr>vote_Signature := x\<rparr>)) = PrecommitSignBytes pw (Some v)"
  by (simp add: PrecommitSignBytes_def)

lemma verify_signatures_ok:
  assumes "\<forall>k<length vs. bit (qc_SigBitmap qc ! ((i + k) div 8)) ((i + k) mod 8) \<longrightarrow>
      i + k < length (qc_Signatures qc) \<and> qc_Signatures qc ! (i + k) \<noteq> [] \<and>
      (\<exists>msg. PrecommitSignBytes pw (Some \<lparr>vote_BlockHash = qc_BlockHash qc, vote_Height = qc_Height qc,
           vote_Round = qc_Round qc, vote_Validator = val_OperatorAddress (vs ! k), vote_Signature = []\<rparr>) = Inr msg
         \<and> Verify ver msg (qc_Signatures qc ! (i + k)) (val_ConsensusPubKey (vs ! k)))"
  shows "verify_signatures pw ver qc i vs = Inr ()"
  using assms
proof (induction vs arbitrary: i)
  case (Cons v vs)
  have rest: "verify_signatures pw ver qc (Suc i) vs = Inr ()"
    by (rule Cons.IH) (use Cons.prems in \<open>force simp: All_less_Suc2\<close>)
  have "bit (qc_SigBitmap qc ! (i div 8)) (i mod 8) \<longrightarrow>
      i < length (qc_Signatures qc) \<and> qc_Signatures qc ! i \<noteq> [] \<and>
      (\<exists>msg. PrecommitSignBytes pw (Some \<lparr>vote_BlockHash = qc_BlockHash qc, vote_Height = qc_Height qc,
           vote_Round = qc_Round qc, vote_Validator = val_OperatorAddress v, vote_Signature = []\<rparr>) = Inr msg
         \<and> Verify ver msg (qc_Signatures qc ! i) (val_ConsensusPubKey v))"
    using Cons.prems by (simp add: All_less_Suc2)
  then show ?case
    using rest by (auto simp: Let_def and_exp_eq_0_iff_not_bit guard_err_def)
qed simp

text \<open>The votes an engine holds for a block were verified when they came in.\<close>

definition vote_ok :: "protowire \<Rightarrow> ('kv, 'r, 'c, 'm) engine \<Rightarrow> hash \<Rightarrow> address \<Rightarrow> precommit_vote \<Rightarrow> bool" where
  "vote_ok pw e h addr v \<longleftrightarrow> vote_BlockHash v = h \<and> vote_Validator v = addr \<and> vote_Height v = en_height e + 1 \<and>
     (\<exists>pk msg. validatorPubKey e addr = Some pk \<and> PrecommitSignBytes pw (Some v) = Inr msg \<and>
        Verify (en_verifier e) msg (vote_Signature v) pk)"

lemma HandlePrecommitVote_ok:
  assumes "HandlePrecommitVote L order (Some v) e = (e', Ret (Inr res))"
  shows "vote_ok (lib_pw L) e (vote_BlockHash v) (vote_Validator v) v \<and>
    (\<exists>vmap. e' = e\<lparr>en_votes := (en_votes e)(vote_BlockHash v \<mapsto> vmap(vote_Validator v \<mapsto> v))\<rparr> \<and>
       vmap = (case en_votes e (vote_BlockHash v) of None \<Rightarrow> Map.empty | Some m \<Rightarrow> m) \<and>
       tryBuildQC order e' (vote_BlockHash v) (vmap(vote_Validator v \<mapsto> v)) = Ret (Inr res))"
  using assms
  by (auto simp: HandlePrecommitVote_def vote_ok_def Let_def split: if_splits sum.splits option.splits)

text \<open>Property C23. A certificate that the engine builds while handling a vote is accepted by \<open>VerifyQC\<close>
  over the same validators, whenever the votes it holds for that block were recorded by the handler
  at this height and for the engine's current round, and the verifier refuses empty signatures (as
  the Dilithium verifier does).\<close>

theorem built_certificates_verify:
  assumes "reachable_dpos d" "range_order d r" "en_validatorSet e = DPoS_ValidatorSet r d"
    and "HandlePrecommitVote L order (Some v) e = (e', Ret (Inr (Some qc)))"
    and "en_votes e' (vote_BlockHash v) = Some votes" "map_order votes order"
    and "\<And>a w. votes a = Some w \<Longrightarrow> vote_ok (lib_pw L) e (vote_BlockHash v) a w \<and> vote_Round w = en_round e"
    and "\<And>msg pk. \<not> Verify (en_verifier e) msg [] pk"
  shows "VerifyQC (lib_pw L) (Some qc) (Some (en_validatorSet e)) (en_verifier e) = Inr ()"
proof -
  let ?s = "en_validatorSet e"
  let ?addr = "\<lambda>i. val_OperatorAddress (vs_Validators ?s ! i)"
  have ok: "vset_ok ?s" using validator_set_ok [OF assms(1,2)] assms(3) by simp
  have e': "en_validatorSet e' = ?s" "en_height e' = en_height e" "en_round e' = en_round e"
    and built: "tryBuildQC order e' (vote_BlockHash v) votes = Ret (Inr (Some qc))"
    using HandlePrecommitVote_ok [OF assms(4)] assms(5) by auto
  have ok': "vset_ok (en_validatorSet e')" using ok e'(1) by simp
  obtain sigs bm where B:
    "tryBuildQC order e' (vote_BlockHash v) votes =
       (if vs_TotalPower ?s = 0 \<or> (\<Sum>i\<in>voters ?s votes. val_Power (vs_Validators ?s ! i)) * 3 \<le> vs_TotalPower ?s * 2
        then Ret (Inr None)
        else Ret (Inr (Some \<lparr>qc_BlockHash = vote_BlockHash v, qc_Height = en_height e' + 1, qc_Round = en_round e',
               qc_SigBitmap = bm, qc_AggregatedSig = [], qc_Signatures = sigs\<rparr>)))"
    "length sigs = length (vs_Validators ?s)" "length bm = (length (vs_Validators ?s) + 7) div 8"
    "\<forall>i<length (vs_Validators ?s). sigs ! i = signature_of ?s votes i"
    "\<forall>i<length (vs_Validators ?s). bit (bm ! (i div 8)) (i mod 8) \<longleftrightarrow> i \<in> voters ?s votes"
    by (rule tryBuildQC_votes [OF ok' assms(6) e'(1)[symmetric], of "vote_BlockHash v"])
  have qc: "qc = \<lparr>qc_BlockHash = vote_BlockHash v, qc_Height = en_height e + 1, qc_Round = en_round e,
      qc_SigBitmap = bm, qc_AggregatedSig = [], qc_Signatures = sigs\<rparr>"
    and total: "vs_TotalPower ?s \<noteq> 0"
    using B(1) unfolding built e'(2,3) by (simp_all split: if_splits)
  have ne: "vs_Validators ?s \<noteq> []" using total ok by (auto simp: vset_ok_def)
  have "verify_signatures (lib_pw L) (en_verifier e) qc 0 (vs_Validators ?s) = Inr ()"
  proof (rule verify_signatures_ok, intro allI impI)
    fix k assume k: "k < length (vs_Validators ?s)" and set: "bit (qc_SigBitmap qc ! ((0 + k) div 8)) ((0 + k) mod 8)"
    then have "k \<in> voters ?s votes" using B(5) by (simp add: qc)
    then obtain w where w: "votes (?addr k) = Some w" by (auto simp: voters_def)
    have sig: "sigs ! k = vote_Signature w" using B(4) k w by (simp add: signature_of_def)
    obtain pk msg where pk: "validatorPubKey e (?addr k) = Some pk" "PrecommitSignBytes (lib_pw L) (Some w) = Inr msg"
      "Verify (en_verifier e) msg (vote_Signature w) pk"
      and w': "vote_BlockHash w = vote_BlockHash v" "vote_Validator w = ?addr k" "vote_Height w = en_height e + 1"
        "vote_Round w = en_round e"
      using assms(7) [OF w] by (auto simp: vote_ok_def)
    have "unat (word_of_nat k :: u32) = k"
      using k ok by (simp add: vset_ok_def unat_of_nat take_bit_nat_eq_self)
    then have "pk = val_ConsensusPubKey (vs_Validators ?s ! k)"
      using pk(1) vset_index [OF ok k] k by (simp add: validatorPubKey_def)
    moreover have "\<lparr>vote_BlockHash = qc_BlockHash qc, vote_Height = qc_Height qc, vote_Round = qc_Round qc,
        vote_Validator = ?addr k, vote_Signature = []\<rparr> = w\<lparr>vote_Signature := []\<rparr>"
      using w' by (cases w) (simp add: qc)
    ultimately show "0 + k < length (qc_Signatures qc) \<and> qc_Signatures qc ! (0 + k) \<noteq> [] \<and>
      (\<exists>msg. PrecommitSignBytes (lib_pw L) (Some \<lparr>vote_BlockHash = qc_BlockHash qc, vote_Height = qc_Height qc,
           vote_Round = qc_Round qc, vote_Validator = ?addr k, vote_Signature = []\<rparr>) = Inr msg
         \<and> Verify (en_verifier e) msg (qc_Signatures qc ! (0 + k)) (val_ConsensusPubKey (vs_Validators ?s ! k)))"
      using pk(2,3) sig k B(2) assms(8) by (auto simp: qc PrecommitSignBytes_unsigned)
  qed
  then show ?thesis using B(3) ne by (simp add: VerifyQC_def qc)
qed

text \<open>Property. \<open>VerifyQC\<close> has no quorum check: over any validators and with any verifier, a certificate
  with an empty bitmap and not one signature is accepted, for every block hash, height and round.\<close>

theorem unsigned_certificates_verify:
  assumes "vs_Validators s \<noteq> []"
  shows "VerifyQC pw (Some \<lparr>qc_BlockHash = h, qc_Height = height, qc_Round = rnd,
      qc_SigBitmap = replicate ((length (vs_Validators s) + 7) div 8) 0, qc_AggregatedSig = [],
      qc_Signatures = []\<rparr>) (Some s) ver = Inr ()"
proof -
  let ?qc = "\<lparr>qc_BlockHash = h, qc_Height = height, qc_Round = rnd,
      qc_SigBitmap = replicate ((length (vs_Validators s) + 7) div 8) 0, qc_AggregatedSig = [], qc_Signatures = []\<rparr>"
  have zero: "\<not> bit (qc_SigBitmap ?qc ! (k div 8)) (k mod 8)" if "k < length (vs_Validators s)" for k
  proof -
    have "k div 8 < (length (vs_Validators s) + 7) div 8" using that by linarith
    then show ?thesis by simp
  qed
  have "verify_signatures pw ver ?qc 0 (vs_Validators s) = Inr ()"
    by (rule verify_signatures_ok) (use zero in simp)
  then show ?thesis using assms by (simp add: VerifyQC_def)
qed

lemma unsigned_certificates_verify_witness:
  "VerifyQC wire_format (Some \<lparr>qc_BlockHash = zero_hash, qc_Height = 7, qc_Round = 0,
      qc_SigBitmap = [0], qc_AggregatedSig = [], qc_Signatures = []\<rparr>)
     (Some (DPoS_ValidatorSet [''a'', ''b''] sample_dpos)) (NewDilithiumVerifier dilithium_nocgo) = Inr ()"
proof -
  let ?s = "DPoS_ValidatorSet [''a'', ''b''] sample_dpos"
  have "length (vs_Validators ?s) = 2"
    by (simp add: DPoS_ValidatorSet_def Let_def map_filter_simps sample_lookup sample_simps)
  moreover from this have "vs_Validators ?s \<noteq> []" by auto
  ultimately show ?thesis
    using unsigned_certificates_verify [of ?s wire_format zero_hash 7 0 "NewDilithiumVerifier dilithium_nocgo"]
    by simp
qed


section \<open>An engine with two validators\<close>

definition sample_engine :: "((bytes, bytes) RBT.rbt, unit, nat, nat) engine" where
  "sample_engine =
     \<lparr>en_cfg = \<lparr>cfg_EpochLength = 10, cfg_MaxValidators = 4, cfg_BlockMaxTxs = 1000, cfg_MinStake = 10,
        cfg_SlashDouble = 500, cfg_JailDouble = 10, cfg_SlashOffline = 10, cfg_JailOffline = 2\<rparr>,
      en_state = toy_state, en_dpos = sample_dpos, en_mempool = Mempool_New, en_contracts = None,
      en_verifier = \<lparr>Verify = (\<lambda>msg sig pk. sig \<noteq> [])\<rparr>,
      en_signer = \<lparr>Sign = (\<lambda>msg. Inr [1]), PublicKey = [1]\<rparr>, en_network = None,
      en_validatorSet = DPoS_ValidatorSet [''a'', ''b''] sample_dpos, en_height = 0, en_round = 0,
      en_lastFinalized = zero_hash, en_votes = Map.empty, en_validatorAddr = ''a''\<rparr>"

definition sample_a :: validator where
  "sample_a = \<lparr>val_OperatorAddress = ''a'', val_ConsensusPubKey = [1], val_Power = 140, val_Stake = 100,
     val_Delegations = [''c'' \<mapsto> 40], val_Commission = 5, val_Index = 1, val_JailedUntilEpoch = 0\<rparr>"

definition sample_b :: validator where
  "sample_b = \<lparr>val_OperatorAddress = ''b'', val_ConsensusPubKey = [2], val_Power = 300, val_Stake = 300,
     val_Delegations = Map.empty, val_Commission = 5, val_Index = 0, val_JailedUntilEpoch = 0\<rparr>"

lemma sample_lookup_b:
  "fmlookup (dp_validators sample_dpos) ''b'' = Some sample_b"
  by (simp add: sample_simps sample_b_def)

lemma sample_vset:
  "DPoS_ValidatorSet [''a'', ''b''] sample_dpos =
     \<lparr>vs_Validators = [sample_b, sample_a], vs_TotalPower = 440, vs_IndexByAddr = [''b'' \<mapsto> 0, ''a'' \<mapsto> 1]\<rparr>"
proof -
  let ?a = "sample_a\<lparr>val_Index := 0\<rparr>"
  have a: "fmlookup (dp_validators sample_dpos) ''a'' = Some ?a"
    by (simp add: sample_lookup sample_a_def)
  have "rank sample_b < rank ?a"
    by (simp add: rank_less validator_less_def sample_a_def sample_b_def)
  then have "sort_key rank [?a, sample_b] = [sample_b, ?a]" by (simp add: not_le)
  moreover have "?a\<lparr>val_Index := 1\<rparr> = sample_a" by (simp add: sample_a_def)
  ultimately show ?thesis
    by (simp add: DPoS_ValidatorSet_def Let_def map_filter_simps a sample_lookup_b)
      (simp add: sample_a_def sample_b_def)
qed

lemma sample_engine_simps [simp]:
  "en_validatorSet sample_engine = DPoS_ValidatorSet [''a'', ''b''] sample_dpos"
  "en_height sample_engine = 0" "en_round sample_engine = 0" "en_votes sample_engine = Map.empty"
  "en_verifier sample_engine = \<lparr>Verify = (\<lambda>msg sig pk. sig \<noteq> [])\<rparr>"
  by (simp_all add: sample_engine_def)

lemma sample_fields [simp]:
  "val_Power sample_a = 140" "val_Power sample_b = 300"
  "val_OperatorAddress sample_a = ''a''" "val_OperatorAddress sample_b = ''b''"
  "val_ConsensusPubKey sample_a = [1]" "val_ConsensusPubKey sample_b = [2]"
  by (simp_all add: sample_a_def sample_b_def)

lemma proposers_are_unique_and_fair_witness:
  "(\<exists>!addr. isExpectedProposerLocked sample_engine addr) \<and>
   card {s. s < 440 \<and> isExpectedProposerLocked (sample_engine\<lparr>en_height := 0, en_round := word_of_nat s\<rparr>) ''b''} = 300"
  using proposers_are_unique_and_fair [OF unslashed_reachable [OF sample_unslashed] sample_range(1), of sample_engine]
  by (simp add: sample_vset)

definition sample_vote :: precommit_vote where
  "sample_vote = \<lparr>vote_BlockHash = zero_hash, vote_Height = 1, vote_Round = 0, vote_Validator = ''b'', vote_Signature = [7]\<rparr>"

lemma sample_vote_fields [simp]:
  "vote_BlockHash sample_vote = zero_hash" "vote_Height sample_vote = 1" "vote_Round sample_vote = 0"
  "vote_Validator sample_vote = ''b''" "vote_Signature sample_vote = [7]"
  by (simp_all add: sample_vote_def)

lemma sample_collect: "collect_votes (en_validatorSet sample_engine) [''b'' \<mapsto> sample_vote] [''b'']
    ([[], []], [0], 0) = Ret (Inr ([[7], []], [1], 300))"
  by (simp add: sample_vset)

lemma sample_qc:
  assumes "en_validatorSet e = en_validatorSet sample_engine" "en_height e = 0" "en_round e = 0"
  shows "tryBuildQC [''b''] e h [''b'' \<mapsto> sample_vote] =
    Ret (Inr (Some \<lparr>qc_BlockHash = h, qc_Height = 1, qc_Round = 0, qc_SigBitmap = [1], qc_AggregatedSig = [],
      qc_Signatures = [[7], []]\<rparr>))"
proof -
  show ?thesis
    using sample_collect assms by (simp add: tryBuildQC_def Let_def sample_vset del: collect_votes.simps)
qed

lemma quorums_intersect_witness:
  "440 < 3 * power_of (en_validatorSet sample_engine)
     (voters (en_validatorSet sample_engine) [''b'' \<mapsto> sample_vote])"
  using quorums_intersect [OF unslashed_reachable [OF sample_unslashed] sample_range(1), of sample_engine
      "[''b'' \<mapsto> sample_vote]" "[''b'']" "[''b'' \<mapsto> sample_vote]" "[''b'']" zero_hash _ zero_hash]
    sample_qc [of sample_engine zero_hash]
  by (simp add: sample_vset map_order_def)

definition big_dpos :: dpos where
  "big_dpos = projr (bind_err (RegisterValidator ''a'' [1] 1 5 (NewDPoS 0 4))
     (RegisterValidator ''b'' [2] 0x7FFFFFFFFFFFFFFF 5))"

lemma big_reachable: "reachable_dpos big_dpos"
proof -
  obtain d1 where "RegisterValidator ''a'' [1] 1 5 (NewDPoS 0 4) = Inr d1"
    "RegisterValidator ''b'' [2] 0x7FFFFFFFFFFFFFFF 5 d1 = Inr big_dpos"
    by (auto simp: big_dpos_def sample_simps)
  then show ?thesis by (meson dpos_step.intros reachable_dpos.intros)
qed

lemma big_range: "range_order big_dpos [''a'', ''b'']"
  by (auto simp: range_order_def big_dpos_def sample_simps)

lemma big_vset:
  "\<exists>v w. vs_Validators (DPoS_ValidatorSet [''a'', ''b''] big_dpos) = [v, w] \<and> val_OperatorAddress w = ''a'' \<and> val_Power w = 1
     \<and> vs_TotalPower (DPoS_ValidatorSet [''a'', ''b''] big_dpos) = 2 ^ 63"
proof -
  obtain x y where xy: "fmlookup (dp_validators big_dpos) ''a'' = Some x" "fmlookup (dp_validators big_dpos) ''b'' = Some y"
    "val_OperatorAddress x = ''a''" "val_Power x = 1" "val_Power y = 0x7FFFFFFFFFFFFFFF"
    by (simp add: big_dpos_def sample_simps)
  have "rank y < rank x"
    using xy by (simp add: rank_less validator_less_def word_less_nat_alt)
  then have "sort_key rank [x, y] = [y, x]" by (simp add: not_le)
  then show ?thesis
    by (simp add: DPoS_ValidatorSet_def Let_def map_filter_simps xy)
qed

lemma large_powers_break_the_quorum_witness:
  "\<exists>qc. tryBuildQC [''a''] (sample_engine\<lparr>en_validatorSet := DPoS_ValidatorSet [''a'', ''b''] big_dpos\<rparr>) zero_hash
     [''a'' \<mapsto> sample_vote] = Ret (Inr (Some qc))"
proof -
  obtain v w where vw: "vs_Validators (DPoS_ValidatorSet [''a'', ''b''] big_dpos) = [v, w]" "val_OperatorAddress w = ''a''"
    "val_Power w = 1" "vs_TotalPower (DPoS_ValidatorSet [''a'', ''b''] big_dpos) = 2 ^ 63"
    using big_vset by blast
  let ?e = "sample_engine\<lparr>en_validatorSet := DPoS_ValidatorSet [''a'', ''b''] big_dpos\<rparr>"
  have set: "en_validatorSet ?e = DPoS_ValidatorSet [''a'', ''b''] big_dpos" by simp
  have "\<exists>qc. tryBuildQC [val_OperatorAddress w] ?e zero_hash [val_OperatorAddress w \<mapsto> sample_vote] = Ret (Inr (Some qc))"
    by (rule large_powers_break_the_quorum [OF big_reachable big_range set, of 1], unfold set vw) simp_all
  then show ?thesis unfolding vw(2) .
qed

lemma built_certificates_verify_witness:
  "\<exists>e qc. HandlePrecommitVote toy_libs [''b''] (Some sample_vote) sample_engine = (e, Ret (Inr (Some qc)))
     \<and> VerifyQC wire_format (Some qc) (Some (en_validatorSet sample_engine)) (en_verifier sample_engine) = Inr ()"
proof -
  let ?votes = "[''b'' \<mapsto> sample_vote]"
  let ?e = "sample_engine\<lparr>en_votes := [zero_hash \<mapsto> ?votes]\<rparr>"
  obtain msg where msg: "PrecommitSignBytes wire_format (Some sample_vote) = Inr msg"
    using PrecommitSignBytes_total by blast
  have pk: "validatorPubKey sample_engine ''b'' = Some [2]"
    by (simp add: validatorPubKey_def sample_vset)
  let ?qc = "\<lparr>qc_BlockHash = zero_hash, qc_Height = 1, qc_Round = 0, qc_SigBitmap = [1],
      qc_AggregatedSig = [], qc_Signatures = [[7], []]\<rparr>"
  have built: "tryBuildQC [''b''] ?e zero_hash ?votes = Ret (Inr (Some ?qc))"
    by (rule sample_qc) simp_all
  have qc: "HandlePrecommitVote toy_libs [''b''] (Some sample_vote) sample_engine = (?e, Ret (Inr (Some ?qc)))"
    unfolding HandlePrecommitVote_def option.case Let_def toy_libs_simps sample_vote_fields msg pk
      sample_engine_simps built by (simp add: built)
  have ok: "vote_ok wire_format sample_engine zero_hash ''b'' sample_vote"
    using pk msg by (simp add: vote_ok_def)
  have "VerifyQC (lib_pw toy_libs) (Some ?qc) (Some (en_validatorSet sample_engine)) (en_verifier sample_engine) = Inr ()"
    by (rule built_certificates_verify [OF unslashed_reachable [OF sample_unslashed] sample_range(1) _ qc, of ?votes])
      (use ok in \<open>auto simp: map_order_def split: if_splits\<close>)
  then show ?thesis using qc unfolding toy_libs_simps by blast
qed

end
