(* ===== verification/Finality.thy ===== *)
theory Finality
  imports Quorum Preview
begin

text \<open>
  The life of a block in the consensus engine: what a vote for it means, that a voted block is
  finalized and that the engine resumes from what it persisted, and which checks the handlers leave
  out.
\<close>

section \<open>Voting\<close>

lemma HandleProposal_ok:
  assumes "HandleProposal L (Some p) e = (e', Ret (Inr vote))"
  obtains b contracts where "prop_Block p = Some b" "check_proposal L e p b = Inr ()"
    "PreviewBlock L (en_state e) (Some b) (en_contracts e) = (contracts, Ret (Inr (bl_StateRoot b)))"
    "e' = e\<lparr>en_contracts := contracts\<rparr>"
    "sign_vote L e' \<lparr>vote_BlockHash = mustHashBlock L b, vote_Height = bl_Height b, vote_Round = prop_Round p,
       vote_Validator = en_validatorAddr e, vote_Signature = []\<rparr> = Inr vote"
  using assms
  by (auto simp: HandleProposal_def Let_def split: option.splits sum.splits prod.splits go.splits if_splits
      intro!: that)

lemma sign_vote_ok:
  assumes "sign_vote L e v = Inr vote"
  shows "vote_BlockHash vote = vote_BlockHash v \<and> vote_Height vote = vote_Height v \<and> vote_Round vote = vote_Round v
    \<and> vote_Validator vote = vote_Validator v"
  using assms by (auto simp: sign_vote_def Let_def)

lemma check_proposal_ok:
  "check_proposal L e p b = Inr u \<longleftrightarrow>
    bl_Height b = en_height e + 1 \<and> bl_PrevHash b = en_lastFinalized e \<and>
    isExpectedProposerLocked e (bl_Proposer b) \<and>
    (\<exists>msg pk window. ProposalSignBytes (lib_pw L) (Some p) = Inr msg \<and>
       validatorPubKey e (bl_Proposer b) = Some pk \<and> Verify (en_verifier e) msg (prop_ProposerSig p) pk \<and>
       GetLastTimestamps (lib_pb L) (st_store (en_state e)) = Inr window \<and>
       (window = [] \<or> EffectiveTime (bl_Timestamp b) window (MaxSkewSec (st_rcParams (en_state e))) = bl_Timestamp b))"
  by (auto simp: check_proposal_def split: option.splits)

text \<open>Property C12. A vote is only given to a block that extends the last finalized one at the next height,
  comes signed from the proposer of the round, lies inside the timestamp window, and whose state
  root is the one its transactions lead to; the vote names that block's hash and height, and the
  proposal's round as it stands.\<close>

theorem votes_are_checked:
  assumes "HandleProposal L (Some p) e = (e', Ret (Inr vote))"
  shows "\<exists>b. prop_Block p = Some b \<and> bl_Height b = en_height e + 1 \<and> bl_PrevHash b = en_lastFinalized e
    \<and> isExpectedProposerLocked e (bl_Proposer b)
    \<and> (\<exists>msg pk. ProposalSignBytes (lib_pw L) (Some p) = Inr msg \<and> validatorPubKey e (bl_Proposer b) = Some pk
         \<and> Verify (en_verifier e) msg (prop_ProposerSig p) pk)
    \<and> (\<exists>window. GetLastTimestamps (lib_pb L) (st_store (en_state e)) = Inr window \<and> (window = [] \<or>
         EffectiveTime (bl_Timestamp b) window (MaxSkewSec (st_rcParams (en_state e))) = bl_Timestamp b))
    \<and> snd (PreviewBlock L (en_state e) (Some b) (en_contracts e)) = Ret (Inr (bl_StateRoot b))
    \<and> vote_BlockHash vote = mustHashBlock L b \<and> vote_Height vote = en_height e + 1
    \<and> vote_Round vote = prop_Round p \<and> vote_Validator vote = en_validatorAddr e"
proof -
  obtain b contracts where b: "prop_Block p = Some b" "check_proposal L e p b = Inr ()"
    "PreviewBlock L (en_state e) (Some b) (en_contracts e) = (contracts, Ret (Inr (bl_StateRoot b)))"
    "sign_vote L e' \<lparr>vote_BlockHash = mustHashBlock L b, vote_Height = bl_Height b, vote_Round = prop_Round p,
       vote_Validator = en_validatorAddr e, vote_Signature = []\<rparr> = Inr vote"
    using assms by (rule HandleProposal_ok)
  show ?thesis
    using b(1-3) sign_vote_ok [OF b(4)] unfolding check_proposal_ok by auto
qed

lemma HandleProposal_state: "HandleProposal L p e = (e', out) \<Longrightarrow> e' = e"
  by (auto simp: HandleProposal_def Let_def dest!: PreviewBlock_engine
      split: option.splits sum.splits go.splits prod.splits if_splits)

text \<open>Property. Voting leaves no trace in the engine: having voted, it votes for any other proposal that
  it would have voted for before, at the same height and round, and the two votes can be for
  different blocks.\<close>

theorem votes_are_not_remembered:
  assumes "HandleProposal L p e = (e', Ret (Inr vote))"
  shows "HandleProposal L p' e' = HandleProposal L p' e"
  using HandleProposal_state [OF assms] by simp


section \<open>A voted block can be finalized\<close>

lemma persist_total:
  "io_ok (lib_pb L) \<Longrightarrow> \<exists>db. persistConsensusState L e = Inr (e\<lparr>en_state := (en_state e)\<lparr>st_store := db\<rparr>\<rparr>)"
proof -
  assume io: "io_ok (lib_pb L)"
  then have "\<exists>db. SetConsensusState (lib_pb L) (st_store (en_state e)) (en_height e) (en_round e) (en_lastFinalized e) = Inr db"
    unfolding io_ok_def SetConsensusState_def Let_def by (metis bind_err.simps(2))
  then show ?thesis by (auto simp: persistConsensusState_def)
qed

text \<open>Property C6. A block that the engine has voted for and that carries no contract payload can be
  finalized in the same state with any certificate, while the store does not fail: the
  application cannot find another root than the vote did, the engine moves to the block's height
  and round zero, and the last finalized hash is the hash that was voted for.\<close>

theorem voted_blocks_finalize:
  assumes "chain_env L" and "io_ok (lib_pb L)" and "0 \<le> WindowN (st_rcParams (en_state e))"
    and "HandleProposal L (Some p) e = (e1, Ret (Inr vote))" and "prop_Block p = Some b"
    and "\<forall>txn\<in>set (bl_Transactions b). contract_free (lib_pw L) txn"
  shows "\<exists>e2 b'. FinalizeBlock L order (Some b) (Some qc) (en_contracts e1) e1
      = (e2, en_contracts e1, Some b', Ret (Inr ()))
    \<and> en_height e2 = en_height e + 1 \<and> en_round e2 = 0 \<and> en_lastFinalized e2 = vote_BlockHash vote
    \<and> en_votes e2 = (en_votes e)(qc_BlockHash qc := None)"
proof -
  let ?b = "if length (qc_Signatures qc) = length (vs_Validators (en_validatorSet e1))
    then b\<lparr>bl_ValidatorSigs := qc_Signatures qc\<rparr> else b"
  have e1: "e1 = e" using HandleProposal_state [OF assms(4)] .
  obtain contracts where pre: "check_proposal L e p b = Inr ()"
    "PreviewBlock L (en_state e) (Some b) (en_contracts e) = (contracts, Ret (Inr (bl_StateRoot b)))"
    and vote: "vote_BlockHash vote = mustHashBlock L b"
    using HandleProposal_ok [OF assms(4)] sign_vote_ok assms(5) by (metis option.inject precommit_vote.select_convs(1))
  have "bl_StateRoot ?b = bl_StateRoot b" "bl_Transactions ?b = bl_Transactions b" "bl_Height ?b = en_height e + 1"
    using pre(1) by (simp_all add: check_proposal_ok)
  note same = this
  have "PreviewBlock L (en_state e) (Some ?b) (en_contracts e) = (contracts, Ret (Inr (bl_StateRoot ?b)))"
    using pre(2) by (simp add: PreviewBlock_sigs)
  then obtain st where app: "ApplyBlock L (en_state e) (Some ?b) (en_contracts e) = (st, en_contracts e, Ret (Inr (bl_StateRoot b)))"
    using chain_env.ApplyBlock_total [OF assms(1,2,3), of ?b] assms(6) same by metis
  let ?b' = "?b\<lparr>bl_StateRoot := bl_StateRoot b\<rparr>"
  have hash: "mustHashBlock L ?b' = mustHashBlock L b"
    by (simp add: mustHashBlock_def HashBlock_def MarshalBlockForHash_def)
  let ?e = "e\<lparr>en_state := st, en_height := bl_Height ?b', en_lastFinalized := mustHashBlock L ?b',
    en_validatorSet := DPoS_ValidatorSet order (en_dpos e), en_round := 0\<rparr>"
  obtain db where db: "persistConsensusState L ?e = Inr (?e\<lparr>en_state := (en_state ?e)\<lparr>st_store := db\<rparr>\<rparr>)"
    using persist_total [OF assms(2)] by blast
  have "FinalizeBlock L order (Some b) (Some qc) (en_contracts e1) e1
    = ((?e\<lparr>en_state := (en_state ?e)\<lparr>st_store := db\<rparr>\<rparr>)\<lparr>en_votes := (en_votes e)(qc_BlockHash qc := None)\<rparr>,
       en_contracts e, Some ?b', Ret (Inr ()))"
    using app db unfolding e1 FinalizeBlock_def by (simp only: option.case prod.case go.case sum.case Let_def) simp
  then show ?thesis
    using same(3) hash vote e1 by (intro exI conjI) (assumption | simp)+
qed


section \<open>An honest proposal is voted for\<close>

lemma sign_proposal_ok:
  assumes "sign_proposal L e p = Inr prop"
  shows "\<exists>msg sig. ProposalSignBytes (lib_pw L) (Some prop) = Inr msg \<and> Sign (en_signer e) msg = Inr sig
    \<and> prop = p\<lparr>prop_ProposerSig := sig\<rparr>"
proof -
  have "ProposalSignBytes (lib_pw L) (Some (p\<lparr>prop_ProposerSig := sig\<rparr>)) = ProposalSignBytes (lib_pw L) (Some p)" for sig
    by (simp add: ProposalSignBytes_def)
  then show ?thesis using assms by (auto simp: sign_proposal_def Let_def)
qed

lemma ProposeBlock_ok:
  assumes "ProposeBlock L now poolOrder senderOrder e = (e', Ret (Inr prop))"
  obtains b root contracts where "isProposerLocked e" "prop_Block prop = Some (b\<lparr>bl_StateRoot := root\<rparr>)"
    "PreviewBlock L (en_state e) (Some b) (en_contracts e) = (contracts, Ret (Inr root))"
    "sign_proposal L (e\<lparr>en_contracts := contracts\<rparr>)
       \<lparr>prop_Block = Some (b\<lparr>bl_StateRoot := root\<rparr>), prop_Round = en_round e, prop_ProposerSig = []\<rparr> = Inr prop"
    "bl_Height b = en_height e + 1" "bl_PrevHash b = en_lastFinalized e" "bl_Timestamp b = now"
    "bl_Proposer b = en_validatorAddr e" "prop_Round prop = en_round e"
proof -
  obtain txs where locked: "isProposerLocked e" and sel: "SelectForBlock (lib_pw L) (lib_cl L) (State_GetAccount L (en_state e))
      (mempool_cost L e) poolOrder senderOrder (cfg_BlockMaxTxs (en_cfg e)) (en_mempool e) = Inr txs"
    using assms by (auto simp: ProposeBlock_def split: if_splits sum.splits)
  define b where "b = \<lparr>bl_Height = en_height e + 1, bl_PrevHash = en_lastFinalized e, bl_StateRoot = zero_hash,
    bl_Timestamp = now, bl_Proposer = en_validatorAddr e, bl_Transactions = map Some txs,
    bl_ValidatorSigs = replicate (length (vs_Validators (en_validatorSet e))) []\<rparr>"
  obtain contracts out where pre: "PreviewBlock L (en_state e) (Some b) (en_contracts e) = (contracts, out)"
    by fastforce
  then obtain root where out: "out = Ret (Inr root)"
    using assms locked sel by (auto simp: ProposeBlock_def b_def [symmetric] Let_def split: go.splits sum.splits)
  have "e\<lparr>en_contracts := contracts\<rparr> = e' \<and> sign_proposal L (e\<lparr>en_contracts := contracts\<rparr>)
      \<lparr>prop_Block = Some (b\<lparr>bl_StateRoot := root\<rparr>), prop_Round = en_round e, prop_ProposerSig = []\<rparr> = Inr prop"
  proof -
    have "(e\<lparr>en_contracts := contracts\<rparr>, Ret (sign_proposal L (e\<lparr>en_contracts := contracts\<rparr>)
      \<lparr>prop_Block = Some (b\<lparr>bl_StateRoot := root\<rparr>), prop_Round = en_round e, prop_ProposerSig = []\<rparr>))
      = (e', Ret (Inr prop))"
      unfolding assms [symmetric] using locked sel pre out by (simp add: ProposeBlock_def b_def [symmetric] Let_def)
    then show ?thesis by blast
  qed
  then have sign: "sign_proposal L (e\<lparr>en_contracts := contracts\<rparr>)
      \<lparr>prop_Block = Some (b\<lparr>bl_StateRoot := root\<rparr>), prop_Round = en_round e, prop_ProposerSig = []\<rparr> = Inr prop"
    by (rule conjunct2)
  then have fields: "prop_Block prop = Some (b\<lparr>bl_StateRoot := root\<rparr>)" "prop_Round prop = en_round e"
    using sign_proposal_ok by fastforce+
  show thesis
    by (rule that [OF locked fields(1) _ sign]) (use pre out fields in \<open>simp_all add: b_def\<close>)
qed

text \<open>The key of the expected proposer is known.\<close>

lemma proposer_from_in: "proposer_from seed acc vs = Some v \<Longrightarrow> v \<in> set vs"
  by (induction seed acc vs rule: proposer_from.induct) (auto simp: Let_def split: if_splits)

lemma proposer_key:
  assumes "vset_ok (en_validatorSet e)" and "isExpectedProposerLocked e addr"
  shows "\<exists>pk. validatorPubKey e addr = Some pk"
proof -
  obtain v where "v \<in> set (vs_Validators (en_validatorSet e))" "val_OperatorAddress v = addr"
    using assms(2)
    by (auto simp: isExpectedProposerLocked_def Let_def dest: proposer_from_in split: if_splits option.splits)
  then obtain i where i: "i < length (vs_Validators (en_validatorSet e))" "val_OperatorAddress (vs_Validators (en_validatorSet e) ! i) = addr"
    by (metis in_set_conv_nth)
  then have "vs_IndexByAddr (en_validatorSet e) addr = Some (word_of_nat i)"
    using vset_index [OF assms(1) i(1)] by simp
  moreover have "unat (word_of_nat i :: u32) = i"
    using i(1) assms(1) by (simp add: vset_ok_def unat_of_nat take_bit_nat_eq_self)
  ultimately show ?thesis using i(1) by (simp add: validatorPubKey_def)
qed

text \<open>Property C11. What an engine proposes, an engine in the same position votes for: with the same state,
  contracts, validators, height, round and last block, under four conditions. The proposer's
  signatures verify under its registered key; the clock it read lies in the timestamp window, which
  \<open>ProposeBlock\<close> does not see to: it writes the time as it is and no \<open>EffectiveTime\<close>; the voter can
  sign; and its network, if it has one, takes the vote. The root needs no agreement: both compute it,
  from the transactions alone.\<close>

theorem honest_proposals_are_voted:
  assumes "reachable_dpos d" "range_order d r" "en_validatorSet e = DPoS_ValidatorSet r d"
    and "ProposeBlock L now poolOrder senderOrder e = (e', Ret (Inr prop))"
    and same: "en_state f = en_state e" "en_contracts f = en_contracts e" "en_validatorSet f = en_validatorSet e"
      "en_height f = en_height e" "en_round f = en_round e" "en_lastFinalized f = en_lastFinalized e"
    and keys: "\<And>msg sig pk. Sign (en_signer e) msg = Inr sig \<Longrightarrow> validatorPubKey e (en_validatorAddr e) = Some pk \<Longrightarrow>
      Verify (en_verifier f) msg sig pk"
    and "GetLastTimestamps (lib_pb L) (st_store (en_state e)) = Inr window"
    and "window = [] \<or> EffectiveTime now window (MaxSkewSec (st_rcParams (en_state e))) = now"
    and signs: "\<And>msg. \<exists>sig. Sign (en_signer f) msg = Inr sig"
    and sends: "\<And>vote. broadcast (en_network f) BroadcastPrecommit vote = Inr ()"
  shows "\<exists>vote. HandleProposal L (Some prop) f = (f, Ret (Inr vote)) \<and> vote_Round vote = en_round e"
proof -
  obtain b root contracts where P: "isProposerLocked e" "prop_Block prop = Some (b\<lparr>bl_StateRoot := root\<rparr>)"
    "PreviewBlock L (en_state e) (Some b) (en_contracts e) = (contracts, Ret (Inr root))"
    "sign_proposal L (e\<lparr>en_contracts := contracts\<rparr>)
       \<lparr>prop_Block = Some (b\<lparr>bl_StateRoot := root\<rparr>), prop_Round = en_round e, prop_ProposerSig = []\<rparr> = Inr prop"
    "bl_Height b = en_height e + 1" "bl_PrevHash b = en_lastFinalized e" "bl_Timestamp b = now"
    "bl_Proposer b = en_validatorAddr e" "prop_Round prop = en_round e"
    using assms(4) by (rule ProposeBlock_ok)
  let ?b = "b\<lparr>bl_StateRoot := root\<rparr>"
  have expected: "isExpectedProposerLocked f (en_validatorAddr e)"
  proof -
    have "isExpectedProposerLocked f a = isExpectedProposerLocked e a" for a
      using same by (simp add: isExpectedProposerLocked_def)
    then show ?thesis using P(1) by (simp add: isProposerLocked_def)
  qed
  have ok: "vset_ok (en_validatorSet f)" using validator_set_ok [OF assms(1,2)] assms(3) same(3) by simp
  obtain pk where pk: "validatorPubKey f (en_validatorAddr e) = Some pk"
    using proposer_key [OF ok expected] by blast
  then have pk': "validatorPubKey e (en_validatorAddr e) = Some pk" unfolding validatorPubKey_def same(3) .
  obtain msg sig where sig: "ProposalSignBytes (lib_pw L) (Some prop) = Inr msg" "Sign (en_signer e) msg = Inr sig"
    "prop_ProposerSig prop = sig"
    using sign_proposal_ok [OF P(4)] by auto
  have "check_proposal L f prop ?b = Inr ()"
    unfolding check_proposal_ok
    using P(5-8) same expected pk sig keys [OF sig(2) pk'] assms(12,13) by simp
  moreover have "PreviewBlock L (en_state f) (Some ?b) (en_contracts f) = (en_contracts f, Ret (Inr root))"
    using P(3) PreviewBlock_engine [OF P(3)] same by (simp add: PreviewBlock_root)
  moreover have "\<exists>vote. sign_vote L f v = Inr vote \<and> vote_Round vote = vote_Round v" for v
  proof -
    obtain m where "PrecommitSignBytes (lib_pw L) (Some v) = Inr m" using PrecommitSignBytes_total by blast
    then show ?thesis using signs [of m] sends by (auto simp: sign_vote_def Let_def)
  qed
  moreover have "f\<lparr>en_contracts := en_contracts f\<rparr> = f" by simp
  ultimately show ?thesis
    using P(2,9) by (simp add: HandleProposal_def Let_def) (metis precommit_vote.select_convs(3))
qed

section \<open>What the handlers do not check\<close>

text \<open>Property. \<open>FinalizeBlock\<close> looks at the certificate only to copy signatures and to forget votes: any
  block that applies is finalized, whatever the certificate says or whether anybody signed it, and
  the engine jumps to the height written in the block, even when that is not the next one.\<close>

theorem finalization_ignores_the_certificate:
  assumes "io_ok (lib_pb L)" and "ApplyBlock L (en_state e) (Some b) contracts = (st, contracts', Ret (Inr root))"
    and "length (qc_Signatures qc) \<noteq> length (vs_Validators (en_validatorSet e))"
  shows "\<exists>e2. FinalizeBlock L order (Some b) (Some qc) contracts e
      = (e2, contracts', Some (b\<lparr>bl_StateRoot := root\<rparr>), Ret (Inr ()))
    \<and> en_height e2 = bl_Height b \<and> en_lastFinalized e2 = mustHashBlock L (b\<lparr>bl_StateRoot := root\<rparr>)"
proof -
  let ?e = "e\<lparr>en_state := st, en_height := bl_Height b, en_lastFinalized := mustHashBlock L (b\<lparr>bl_StateRoot := root\<rparr>),
    en_validatorSet := DPoS_ValidatorSet order (en_dpos e), en_round := 0\<rparr>"
  obtain db where "persistConsensusState L ?e = Inr (?e\<lparr>en_state := (en_state ?e)\<lparr>st_store := db\<rparr>\<rparr>)"
    using persist_total [OF assms(1)] by blast
  then show ?thesis using assms(2,3) by (simp add: FinalizeBlock_def Let_def)
qed

lemma try_persist_fields: "en_round (try_persist L e) = en_round e" "en_height (try_persist L e) = en_height e"
  by (auto simp: try_persist_def persistConsensusState_def split: sum.split)

text \<open>Property. One validator is enough to move the round: a view change that any validator of the set
  signs for the next height sets the engine's round to the round it names, as far ahead as it likes.\<close>

theorem one_view_change_moves_the_round:
  assumes "vc_Height vc = en_height e + 1" and "validatorPubKey e (vc_Validator vc) = Some pk"
    and "ViewChangeSignBytes (lib_pw L) (Some vc) = Inr msg" and "Verify (en_verifier e) msg (vc_Signature vc) pk"
    and "en_round e < vc_Round vc"
  shows "\<exists>e'. HandleViewChange L (Some vc) e = (e', Inr ()) \<and> en_round e' = vc_Round vc"
  using assms
  by (simp add: HandleViewChange_def try_persist_fields)

section \<open>Restarting\<close>

text \<open>Property C28. A restart resumes: an engine built over the store that the last one persisted has its
  height, round and last finalized hash, and no votes.\<close>

theorem restart_resumes:
  assumes "chain_env L" and "persistConsensusState L e = Inr e1" and "length (en_lastFinalized e) = 32"
  shows "\<exists>e2. NewEngine L order cfg (en_state e1) d mp contracts addr sk ver net = Inr e2
    \<and> en_height e2 = en_height e \<and> en_round e2 = en_round e \<and> en_lastFinalized e2 = en_lastFinalized e
    \<and> en_votes e2 = Map.empty \<and> en_state e2 = en_state e1"
proof -
  obtain db where db: "SetConsensusState (lib_pb L) (st_store (en_state e)) (en_height e) (en_round e) (en_lastFinalized e) = Inr db"
    "e1 = e\<lparr>en_state := (en_state e)\<lparr>st_store := db\<rparr>\<rparr>"
    using assms(2) by (auto simp: persistConsensusState_def)
  have "GetConsensusState (lib_pb L) db = Inr (en_height e, en_round e, en_lastFinalized e)"
    using store_env.consensus_state_roundtrip [OF assms(1)[unfolded chain_env_def] db(1) assms(3)] .
  then show ?thesis
    by (auto simp: NewEngine_def loadConsensusState_def db(2) Let_def word_gt_0)
qed


section \<open>An engine that votes and finalizes\<close>

definition solo_dpos :: dpos where
  "solo_dpos = projr (RegisterValidator toy_alice [1] 100 5 (NewDPoS 10 4))"

definition solo_engine :: "((bytes, bytes) RBT.rbt, unit, nat, nat) engine" where
  "solo_engine = sample_engine\<lparr>en_dpos := solo_dpos, en_validatorSet := DPoS_ValidatorSet [toy_alice] solo_dpos\<rparr>"

lemma solo_vset:
  "\<exists>v. DPoS_ValidatorSet [toy_alice] solo_dpos =
     \<lparr>vs_Validators = [v], vs_TotalPower = 100, vs_IndexByAddr = [toy_alice \<mapsto> 0]\<rparr>
   \<and> val_OperatorAddress v = toy_alice \<and> val_ConsensusPubKey v = [1] \<and> val_Power v = 100"
  by (simp add: solo_dpos_def DPoS_ValidatorSet_def Let_def map_filter_simps RegisterValidator_def NewDPoS_def
      guard_err_def set_validator_def four_le_one fcard_small)

lemma solo_simps [simp]:
  "en_validatorSet solo_engine = DPoS_ValidatorSet [toy_alice] solo_dpos" "en_height solo_engine = 0"
  "en_round solo_engine = 0" "en_state solo_engine = toy_state" "en_contracts solo_engine = None"
  "en_verifier solo_engine = \<lparr>Verify = (\<lambda>msg sig pk. sig \<noteq> [])\<rparr>" "en_lastFinalized solo_engine = zero_hash"
  "en_signer solo_engine = \<lparr>Sign = (\<lambda>msg. Inr [1]), PublicKey = [1]\<rparr>" "en_network solo_engine = None"
  by (simp_all add: solo_engine_def sample_engine_def)

lemma solo_proposer: "isExpectedProposerLocked solo_engine toy_alice" "validatorPubKey solo_engine toy_alice = Some [1]"
  using solo_vset by (auto simp: isExpectedProposerLocked_def validatorPubKey_def Let_def)

definition solo_block :: "hash \<Rightarrow> block" where
  "solo_block root = toy_block root [Some (toy_tx 0 ''bob'' toy_pay)]"

definition solo_proposal :: "hash \<Rightarrow> u64 \<Rightarrow> proposal" where
  "solo_proposal root r = \<lparr>prop_Block = Some (solo_block root), prop_Round = r, prop_ProposerSig = [1]\<rparr>"

lemma solo_check: "check_proposal toy_libs solo_engine (solo_proposal root r) (solo_block root) = Inr ()"
proof -
  obtain m where m: "MarshalBlock wire_format (Some (solo_block root)) = Inr m"
    unfolding solo_block_def by (rule toy_block_hashes [of "[Some (toy_tx 0 ''bob'' toy_pay)]"]) auto
  have "(solo_block root)\<lparr>bl_ValidatorSigs := []\<rparr> = solo_block root"
    by (simp add: solo_block_def toy_block_def)
  then obtain msg where msg: "ProposalSignBytes wire_format (Some (solo_proposal root r)) = Inr msg"
    using m by (simp add: ProposalSignBytes_def solo_proposal_def MarshalProposal_def Let_def)
  have b: "bl_Height (solo_block root) = 1" "bl_PrevHash (solo_block root) = zero_hash" "bl_Proposer (solo_block root) = toy_alice"
    by (simp_all add: solo_block_def toy_block_def)
  have "GetLastTimestamps memory_store toy_db = Inr []"
    by (simp add: GetLastTimestamps_def memory_store_def toy_db_def key_defs del: bytes_of_append)
  then show ?thesis
    unfolding check_proposal_ok using msg b solo_proposer by (simp add: solo_proposal_def)
qed

lemma solo_votes:
  obtains root st' where
    "\<And>r. \<exists>vote. HandleProposal toy_libs (Some (solo_proposal root r)) solo_engine = (solo_engine, Ret (Inr vote))"
    "ApplyBlock toy_libs toy_state (Some (solo_block root)) None = (st', None, Ret (Inr root))"
proof -
  obtain root st' where root: "ApplyBlock toy_libs toy_state (Some (solo_block root)) None = (st', None, Ret (Inr root))"
    "PreviewBlock toy_libs toy_state (Some (solo_block root)) None = (None, Ret (Inr root))"
    unfolding solo_block_def using toy_block_applies [of None] by metis
  have same: "solo_engine\<lparr>en_contracts := None\<rparr> = solo_engine"
    by (simp add: solo_engine_def sample_engine_def)
  have "\<exists>vote. HandleProposal toy_libs (Some (solo_proposal root r)) solo_engine = (solo_engine, Ret (Inr vote))" for r
  proof -
    let ?vote = "\<lparr>vote_BlockHash = mustHashBlock toy_libs (solo_block root), vote_Height = bl_Height (solo_block root),
      vote_Round = r, vote_Validator = en_validatorAddr solo_engine, vote_Signature = []\<rparr>"
    obtain v where v: "sign_vote toy_libs solo_engine ?vote = Inr v"
      using PrecommitSignBytes_total [of wire_format ?vote] by (auto simp: sign_vote_def broadcast_def)
    have "prop_Block (solo_proposal root r) = Some (solo_block root)" "prop_Round (solo_proposal root r) = r"
      "bl_StateRoot (solo_block root) = root" by (simp_all add: solo_proposal_def solo_block_def)
    then show ?thesis using v root(2) by (simp add: HandleProposal_def solo_check same Let_def)
  qed
  then show thesis using root(1) that by blast
qed

lemma votes_are_checked_witness:
  "\<exists>root vote. HandleProposal toy_libs (Some (solo_proposal root 0)) solo_engine = (solo_engine, Ret (Inr vote))
     \<and> vote_Height vote = 1"
proof -
  obtain root vote where v: "HandleProposal toy_libs (Some (solo_proposal root 0)) solo_engine = (solo_engine, Ret (Inr vote))"
    using solo_votes by metis
  show ?thesis using votes_are_checked [OF v] v by auto
qed

text \<open>Two votes of one engine at the same height, for rounds zero and seven.\<close>

lemma votes_are_not_remembered_witness:
  "\<exists>root vote vote'. HandleProposal toy_libs (Some (solo_proposal root 0)) solo_engine = (solo_engine, Ret (Inr vote))
     \<and> HandleProposal toy_libs (Some (solo_proposal root 7)) solo_engine = (solo_engine, Ret (Inr vote'))"
proof -
  obtain root vote vote' where v: "HandleProposal toy_libs (Some (solo_proposal root 0)) solo_engine = (solo_engine, Ret (Inr vote))"
    "HandleProposal toy_libs (Some (solo_proposal root 7)) solo_engine = (solo_engine, Ret (Inr vote'))"
    using solo_votes by metis
  show ?thesis using votes_are_not_remembered [OF v(1), of "Some (solo_proposal root 7)"] v by auto
qed

lemma voted_blocks_finalize_witness:
  "\<exists>root e2 b'. FinalizeBlock toy_libs [toy_alice] (Some (solo_block root))
      (Some \<lparr>qc_BlockHash = zero_hash, qc_Height = 1, qc_Round = 0, qc_SigBitmap = [0], qc_AggregatedSig = [],
         qc_Signatures = []\<rparr>) None solo_engine = (e2, None, Some b', Ret (Inr ())) \<and> en_height e2 = 1"
proof -
  obtain root vote where v: "HandleProposal toy_libs (Some (solo_proposal root 0)) solo_engine = (solo_engine, Ret (Inr vote))"
    using solo_votes by metis
  have "prop_Block (solo_proposal root 0) = Some (solo_block root)" by (simp add: solo_proposal_def)
  from voted_blocks_finalize [OF toy.chain_env_axioms _ _ v this, of "[toy_alice]"
      "\<lparr>qc_BlockHash = zero_hash, qc_Height = 1, qc_Round = 0, qc_SigBitmap = [0], qc_AggregatedSig = [],
         qc_Signatures = []\<rparr>"]
  show ?thesis
    using toy_pay_contract_free memory_io_ok by (auto simp: test_params_def solo_block_def toy_block_def)
qed

lemma finalization_ignores_the_certificate_witness:
  "\<exists>root e2. FinalizeBlock toy_libs [toy_alice] (Some (solo_block root))
      (Some \<lparr>qc_BlockHash = zero_hash, qc_Height = 77, qc_Round = 0, qc_SigBitmap = [], qc_AggregatedSig = [],
         qc_Signatures = []\<rparr>) None (solo_engine\<lparr>en_height := 41\<rparr>)
      = (e2, None, Some (solo_block root), Ret (Inr ())) \<and> en_height e2 = 1"
proof -
  obtain root st' where "ApplyBlock toy_libs toy_state (Some (solo_block root)) None = (st', None, Ret (Inr root))"
    using solo_votes by metis
  moreover have "en_state (solo_engine\<lparr>en_height := 41\<rparr>) = toy_state" by simp
  ultimately have a: "ApplyBlock toy_libs (en_state (solo_engine\<lparr>en_height := 41\<rparr>)) (Some (solo_block root)) None
    = (st', None, Ret (Inr root))" by simp
  have "(solo_block root)\<lparr>bl_StateRoot := root\<rparr> = solo_block root" "bl_Height (solo_block root) = 1"
    by (simp_all add: solo_block_def toy_block_def)
  then have "\<exists>e2. FinalizeBlock toy_libs [toy_alice] (Some (solo_block root))
      (Some \<lparr>qc_BlockHash = zero_hash, qc_Height = 77, qc_Round = 0, qc_SigBitmap = [], qc_AggregatedSig = [],
         qc_Signatures = []\<rparr>) None (solo_engine\<lparr>en_height := 41\<rparr>)
      = (e2, None, Some (solo_block root), Ret (Inr ())) \<and> en_height e2 = 1"
    using finalization_ignores_the_certificate [OF _ a, of "\<lparr>qc_BlockHash = zero_hash, qc_Height = 77, qc_Round = 0,
        qc_SigBitmap = [], qc_AggregatedSig = [], qc_Signatures = []\<rparr>" "[toy_alice]"] memory_io_ok solo_vset
    by auto
  then show ?thesis by blast
qed

lemma one_view_change_moves_the_round_witness:
  "\<exists>e'. HandleViewChange toy_libs (Some \<lparr>vc_Height = 1, vc_Round = 1000000, vc_Validator = toy_alice, vc_Signature = [1]\<rparr>)
     solo_engine = (e', Inr ()) \<and> en_round e' = 1000000"
  using one_view_change_moves_the_round [of
      "\<lparr>vc_Height = 1, vc_Round = 1000000, vc_Validator = toy_alice, vc_Signature = [1]\<rparr>" solo_engine "[1]" toy_libs]
    solo_proposer(2)
  by (simp add: ViewChangeSignBytes_def MarshalViewChange_def Let_def)

lemma restart_resumes_witness:
  "\<exists>e1 e2. persistConsensusState toy_libs (solo_engine\<lparr>en_height := 9, en_round := 3\<rparr>) = Inr e1
     \<and> NewEngine toy_libs [toy_alice] (en_cfg solo_engine) (en_state e1) solo_dpos Mempool_New None toy_alice
         (en_signer solo_engine) (en_verifier solo_engine) None = Inr e2
     \<and> en_height e2 = 9 \<and> en_round e2 = 3"
proof -
  let ?e = "solo_engine\<lparr>en_height := 9, en_round := 3\<rparr>"
  obtain db where p: "persistConsensusState toy_libs ?e = Inr (?e\<lparr>en_state := (en_state ?e)\<lparr>st_store := db\<rparr>\<rparr>)"
    using persist_total [of toy_libs ?e] memory_io_ok by auto
  have "length (en_lastFinalized ?e) = 32" by (simp add: zero_hash_def)
  from restart_resumes [OF toy.chain_env_axioms p this, of "[toy_alice]" "en_cfg solo_engine" solo_dpos Mempool_New None
      toy_alice "en_signer solo_engine" "en_verifier solo_engine" None] p
  show ?thesis by auto
qed


lemma solo_reachable: "reachable_dpos solo_dpos" and solo_range: "range_order solo_dpos [toy_alice]"
proof -
  have "RegisterValidator toy_alice [1] 100 5 (NewDPoS 10 4) = Inr solo_dpos"
    by (simp add: solo_dpos_def sample_simps)
  then show "reachable_dpos solo_dpos" by (meson dpos_step.intros reachable_dpos.intros)
  show "range_order solo_dpos [toy_alice]" by (simp add: range_order_def solo_dpos_def sample_simps)
qed

definition lead_engine :: "((bytes, bytes) RBT.rbt, unit, nat, nat) engine" where
  "lead_engine = solo_engine\<lparr>en_validatorAddr := toy_alice\<rparr>"

lemma lead_proposes: "\<exists>e' prop. ProposeBlock toy_libs 10 [] [] lead_engine = (e', Ret (Inr prop))"
proof -
  have stop: "select_loop pw cl costOf k senders [] out = Inr out" for pw cl costOf k senders out
    by (cases k) simp_all
  have locked: "isProposerLocked lead_engine"
  proof -
    have "isExpectedProposerLocked lead_engine a = isExpectedProposerLocked solo_engine a" for a
      by (simp add: isExpectedProposerLocked_def lead_engine_def)
    then show ?thesis using solo_proposer(1) by (simp add: isProposerLocked_def) (simp add: lead_engine_def)
  qed
  have sel: "SelectForBlock wire_format toy_crypto getA costOf [] [] n (en_mempool lead_engine) = Inr []" for getA costOf n
    by (simp add: SelectForBlock_def stop)
  obtain root where root: "ComputeStateRootFromReader wire_format pad_hash memory_store toy_db = Inr root"
    using memory_env.state_root_total [OF toy_db_decodable] memory_scan by blast
  have "GetLastTimestamps memory_store toy_db = Inr []"
    by (simp add: GetLastTimestamps_def memory_store_def toy_db_def key_defs del: bytes_of_append)
  then have pre: "PreviewBlock toy_libs toy_state (Some b) None = (None, Ret (Inr root))" if "bl_Transactions b = []" for b
    using that root by (simp add: PreviewBlock_def Let_def toy_crypto_def)
  have sign: "\<exists>prop. sign_proposal toy_libs (lead_engine\<lparr>en_contracts := None\<rparr>) \<lparr>prop_Block = Some b, prop_Round = r, prop_ProposerSig = []\<rparr> = Inr prop"
    if "bl_Transactions b = []" for b r
    using that by (simp add: sign_proposal_def ProposalSignBytes_def MarshalProposal_def MarshalBlock_def Let_def
        broadcast_def lead_engine_def)
  have "en_state lead_engine = toy_state" "en_contracts lead_engine = None"
    by (simp_all add: lead_engine_def solo_engine_def sample_engine_def)
  then show ?thesis using locked sel pre sign by (simp add: ProposeBlock_def Let_def)
qed

lemma honest_proposals_are_voted_witness:
  "\<exists>e' p vote. ProposeBlock toy_libs 10 [] [] lead_engine = (e', Ret (Inr p))
     \<and> HandleProposal toy_libs (Some p) lead_engine = (lead_engine, Ret (Inr vote)) \<and> vote_Round vote = 0"
proof -
  obtain e' p where run: "ProposeBlock toy_libs 10 [] [] lead_engine = (e', Ret (Inr p))"
    using lead_proposes by blast
  have f: "en_validatorSet lead_engine = DPoS_ValidatorSet [toy_alice] solo_dpos" "en_round lead_engine = 0"
    by (simp_all add: lead_engine_def)
  have "GetLastTimestamps memory_store toy_db = Inr []"
    by (simp add: GetLastTimestamps_def memory_store_def toy_db_def key_defs del: bytes_of_append)
  then have w: "GetLastTimestamps (lib_pb toy_libs) (st_store (en_state lead_engine)) = Inr []"
    by (simp add: lead_engine_def)
  have "\<exists>vote. HandleProposal toy_libs (Some p) lead_engine = (lead_engine, Ret (Inr vote))
      \<and> vote_Round vote = en_round lead_engine"
    by (rule honest_proposals_are_voted [OF solo_reachable solo_range f(1) run refl refl refl refl refl refl _ w])
      (auto simp: lead_engine_def broadcast_def)
  then show ?thesis using f(2) run by auto
qed

end
