(* ===== verification/Replica.thy ===== *)
theory Replica
  imports Quorum Finality
begin

text \<open>
  Runs of the consensus engine: the states an engine of \<open>NewEngine\<close> can come to through its handlers,
  in any order and with any input, while the objects it shares with the node change under it. Every
  vote it holds was signed by the validator it is filed under, also when the validator set was
  replaced since; so certificates of two engines, built at different times from different votes, can
  be compared.
\<close>

section \<open>Runs\<close>

text \<open>\<open>ver\<close> is the verifier the engine was built with. The mempool, the contract engine and the manager
  of the validators are shared with the node, which may use them at any time: the rules \<open>submit\<close>,
  \<open>shared\<close> (whatever becomes of the contract engine) and \<open>stake\<close> (registration, delegation, its
  withdrawal and slashing). \<open>FinalizeBlock\<close> is called with any contract engine.\<close>

inductive replica_run ::
  "('kv, 'r, 'c, 'm) libs \<Rightarrow> verifier \<Rightarrow> ('kv, 'r, 'c, 'm) engine \<Rightarrow> bool"
  for L ver
where
  start: "reachable_dpos d \<Longrightarrow> range_order d order \<Longrightarrow>
    NewEngine L order cfg st d mp contracts addr sig_key ver net = Inr e \<Longrightarrow> replica_run L ver e"
| submit: "replica_run L ver e \<Longrightarrow>
    AddTx (lib_pw L) (lib_cl L) (State_GetAccount L (en_state e)) (mempool_cost L e) txn (en_mempool e) = Inr mp \<Longrightarrow>
    replica_run L ver (e\<lparr>en_mempool := mp\<rparr>)"
| shared: "replica_run L ver e \<Longrightarrow> replica_run L ver (e\<lparr>en_contracts := contracts\<rparr>)"
| stake: "replica_run L ver e \<Longrightarrow> dpos_step (en_dpos e) d \<or> dpos_slash (en_dpos e) d \<Longrightarrow>
    replica_run L ver (e\<lparr>en_dpos := d\<rparr>)"
| propose: "replica_run L ver e \<Longrightarrow> ProposeBlock L now poolOrder senderOrder e = (e', proposed) \<Longrightarrow>
    replica_run L ver e'"
| proposal: "replica_run L ver e \<Longrightarrow> HandleProposal L prop e = (e', voted) \<Longrightarrow> replica_run L ver e'"
| vote: "replica_run L ver e \<Longrightarrow> HandlePrecommitVote L order v e = (e', certified) \<Longrightarrow> replica_run L ver e'"
| view: "replica_run L ver e \<Longrightarrow> HandleViewChange L vch e = (e', viewed) \<Longrightarrow> replica_run L ver e'"
| timeout: "replica_run L ver e \<Longrightarrow> replica_run L ver (OnTimeout L e)"
| finalize: "replica_run L ver e \<Longrightarrow> range_order (en_dpos e) order \<Longrightarrow>
    FinalizeBlock L order blk cert contracts e = (e', contracts', blk', finalized) \<Longrightarrow> replica_run L ver e'"

section \<open>What the handlers leave alone\<close>

text \<open>The part of the engine that certificates depend on.\<close>

definition book :: "('kv, 'r, 'c, 'm) engine
    \<Rightarrow> dpos \<times> verifier \<times> validator_set \<times> (hash \<rightharpoonup> (address \<rightharpoonup> precommit_vote))" where
  "book e = (en_dpos e, en_verifier e, en_validatorSet e, en_votes e)"

lemma book_upd [simp]:
  "book (e\<lparr>en_mempool := mp\<rparr>) = book e" "book (e\<lparr>en_contracts := c\<rparr>) = book e"
  "book (e\<lparr>en_state := st\<rparr>) = book e" "book (e\<lparr>en_round := r\<rparr>) = book e"
  "book (e\<lparr>en_height := h\<rparr>) = book e" "book (e\<lparr>en_lastFinalized := f\<rparr>) = book e"
  by (simp_all add: book_def)

lemma loadConsensusState_book: "loadConsensusState L e = Inr e' \<Longrightarrow> book e' = book e"
  by (auto simp: loadConsensusState_def Let_def)

lemma persistConsensusState_book: "persistConsensusState L e = Inr e' \<Longrightarrow> book e' = book e"
  by (auto simp: persistConsensusState_def)

lemma try_persist_book: "book (try_persist L e) = book e"
  by (auto simp: try_persist_def dest: persistConsensusState_book split: sum.split)

lemma ProposeBlock_book: "ProposeBlock L now po so e = (e', out) \<Longrightarrow> book e' = book e"
  by (auto simp: ProposeBlock_def Let_def split: if_splits sum.splits prod.splits go.splits)

lemma HandleProposal_book: "HandleProposal L prop e = (e', out) \<Longrightarrow> book e' = book e"
  by (auto simp: HandleProposal_def Let_def split: if_splits sum.splits prod.splits go.splits option.splits)

lemma HandleViewChange_book: "HandleViewChange L vch e = (e', out) \<Longrightarrow> book e' = book e"
  by (auto simp: HandleViewChange_def try_persist_book split: if_splits sum.splits option.splits)

lemma OnTimeout_book: "book (OnTimeout L e) = book e"
  by (simp add: OnTimeout_def try_persist_book)

lemma FinalizeBlock_book:
  assumes "FinalizeBlock L order blk cert contracts e = (e', contracts', blk', out)"
  shows "en_dpos e' = en_dpos e \<and> en_verifier e' = en_verifier e
    \<and> (en_validatorSet e' = en_validatorSet e \<or> en_validatorSet e' = DPoS_ValidatorSet order (en_dpos e))
    \<and> (en_votes e' = en_votes e \<or> (\<exists>h. en_votes e' = (en_votes e)(h := None)))"
proof -
  have persist: "en_dpos x = en_dpos y \<and> en_verifier x = en_verifier y \<and> en_validatorSet x = en_validatorSet y
      \<and> en_votes x = en_votes y" if "persistConsensusState L y = Inr x" for x y :: "('a, 'b, 'c, 'd) engine"
    using persistConsensusState_book [OF that] by (simp add: book_def)
  from assms show ?thesis
    by (auto simp: FinalizeBlock_def Let_def dest!: persist split: option.splits prod.splits go.splits sum.splits if_splits)
qed

section \<open>The vote book\<close>

text \<open>A vote for the block with hash \<open>h\<close>, signed by a validator of the set.\<close>

definition authentic ::
  "protowire \<Rightarrow> verifier \<Rightarrow> validator_set \<Rightarrow> hash \<Rightarrow> address \<Rightarrow> precommit_vote \<Rightarrow> bool"
where
  "authentic pw ver s h a w \<longleftrightarrow> vote_BlockHash w = h \<and> vote_Validator w = a \<and>
     (\<exists>v \<in> set (vs_Validators s). val_OperatorAddress v = a \<and>
        (\<exists>msg. PrecommitSignBytes pw (Some w) = Inr msg \<and> Verify ver msg (vote_Signature w) (val_ConsensusPubKey v)))"

definition authentic_votes ::
  "protowire \<Rightarrow> verifier \<Rightarrow> validator_set \<Rightarrow> (hash \<rightharpoonup> (address \<rightharpoonup> precommit_vote)) \<Rightarrow> bool"
where
  "authentic_votes pw ver s votes \<longleftrightarrow>
     (\<forall>h m a w. votes h = Some m \<longrightarrow> m a = Some w \<longrightarrow> authentic pw ver s h a w)"

lemma authentic_votes_drop: "authentic_votes pw ver s votes \<Longrightarrow> authentic_votes pw ver s (votes(h := None))"
  by (auto simp: authentic_votes_def)

lemma authentic_votes_add:
  assumes "authentic_votes pw ver s votes" and "authentic pw ver s h a w"
  shows "authentic_votes pw ver s
    (votes(h \<mapsto> (case votes h of None \<Rightarrow> Map.empty | Some m \<Rightarrow> m)(a \<mapsto> w)))"
  using assms by (auto simp: authentic_votes_def split: option.splits)

lemma HandlePrecommitVote_book:
  assumes "HandlePrecommitVote L order vt e = (e', out)" and "vset_ok (en_validatorSet e)"
  shows "book e' = book e \<or> (\<exists>v. authentic (lib_pw L) (en_verifier e) (en_validatorSet e) (vote_BlockHash v) (vote_Validator v) v
    \<and> e' = e\<lparr>en_votes := (en_votes e)(vote_BlockHash v \<mapsto>
        (case en_votes e (vote_BlockHash v) of None \<Rightarrow> Map.empty | Some m \<Rightarrow> m)(vote_Validator v \<mapsto> v))\<rparr>)"
proof (cases "e' = e")
  case False
  then obtain v pk msg where v: "vt = Some v" "PrecommitSignBytes (lib_pw L) (Some v) = Inr msg"
      "validatorPubKey e (vote_Validator v) = Some pk" "Verify (en_verifier e) msg (vote_Signature v) pk"
    and e': "e' = e\<lparr>en_votes := (en_votes e)(vote_BlockHash v \<mapsto>
        (case en_votes e (vote_BlockHash v) of None \<Rightarrow> Map.empty | Some m \<Rightarrow> m)(vote_Validator v \<mapsto> v))\<rparr>"
    using assms(1) by (auto simp: HandlePrecommitVote_def Let_def split: option.splits if_splits sum.splits)
  from v(3) obtain n where n: "vs_IndexByAddr (en_validatorSet e) (vote_Validator v) = Some n"
      "pk = val_ConsensusPubKey (vs_Validators (en_validatorSet e) ! unat n)"
    by (auto simp: validatorPubKey_def split: option.splits if_splits)
  with vset_indexD [OF assms(2) n(1)] v have
    "authentic (lib_pw L) (en_verifier e) (en_validatorSet e) (vote_BlockHash v) (vote_Validator v) v"
    unfolding authentic_def by (auto intro!: bexI [of _ "vs_Validators (en_validatorSet e) ! unat n"])
  with e' show ?thesis by blast
qed simp

text \<open>Who is in the set of a manager, and that nobody leaves it or changes key while it evolves.\<close>

lemma validator_set_members:
  assumes "reachable_dpos d" and "range_order d order"
  shows "(\<exists>v \<in> set (vs_Validators (DPoS_ValidatorSet order d)). val_OperatorAddress v = a \<and> val_ConsensusPubKey v = k)
    \<longleftrightarrow> (\<exists>w. GetValidator a d = Some w \<and> val_ConsensusPubKey w = k)"
proof -
  let ?strip = "\<lambda>v :: validator. v\<lparr>val_Index := 0\<rparr>"
  note facts = validator_set_facts(2) [OF assms refl]
  have key: "val_OperatorAddress w = x" if "fmlookup (dp_validators d) x = Some w" for x w
    using reachable_keyed [OF assms(1)] that unfolding keyed_def by blast
  show ?thesis
  proof
    assume "\<exists>v \<in> set (vs_Validators (DPoS_ValidatorSet order d)). val_OperatorAddress v = a \<and> val_ConsensusPubKey v = k"
    then obtain v where v: "v \<in> set (vs_Validators (DPoS_ValidatorSet order d))" "val_OperatorAddress v = a"
      "val_ConsensusPubKey v = k" by blast
    from v(1) have "?strip v \<in> ?strip ` fset (fmran (dp_validators d))" using facts by blast
    then obtain w where w: "w \<in> fset (fmran (dp_validators d))" "?strip v = ?strip w" by blast
    have same: "val_OperatorAddress w = a" "val_ConsensusPubKey w = k"
      using arg_cong [OF w(2), of val_OperatorAddress] arg_cong [OF w(2), of val_ConsensusPubKey] v(2,3) by simp_all
    from w(1) obtain x where x: "fmlookup (dp_validators d) x = Some w" by (auto simp: fmlookup_ran_iff)
    with key same show "\<exists>w. GetValidator a d = Some w \<and> val_ConsensusPubKey w = k"
      unfolding GetValidator_def by metis
  next
    assume "\<exists>w. GetValidator a d = Some w \<and> val_ConsensusPubKey w = k"
    then obtain w where w: "fmlookup (dp_validators d) a = Some w" "val_ConsensusPubKey w = k"
      unfolding GetValidator_def by blast
    then have "w \<in> fset (fmran (dp_validators d))" by (auto simp: fmlookup_ran_iff)
    then have "?strip w \<in> ?strip ` set (vs_Validators (DPoS_ValidatorSet order d))" using facts by blast
    then obtain v where v: "v \<in> set (vs_Validators (DPoS_ValidatorSet order d))" "?strip w = ?strip v" by blast
    have "val_OperatorAddress v = a" "val_ConsensusPubKey v = k"
      using arg_cong [OF v(2), of val_OperatorAddress] arg_cong [OF v(2), of val_ConsensusPubKey] key [OF w(1)] w(2)
      by simp_all
    with v(1) show "\<exists>v \<in> set (vs_Validators (DPoS_ValidatorSet order d)). val_OperatorAddress v = a \<and> val_ConsensusPubKey v = k"
      by blast
  qed
qed

lemma authentic_evolves:
  assumes "reachable_dpos d" "range_order d order" "reachable_dpos d'" "range_order d' order'" "dpos_evolves d d'"
    and "authentic pw ver (DPoS_ValidatorSet order d) h a w"
  shows "authentic pw ver (DPoS_ValidatorSet order' d') h a w"
proof -
  from assms(6) obtain v msg where w: "vote_BlockHash w = h" "vote_Validator w = a"
      "PrecommitSignBytes pw (Some w) = Inr msg" "Verify ver msg (vote_Signature w) (val_ConsensusPubKey v)"
    and v: "v \<in> set (vs_Validators (DPoS_ValidatorSet order d))" "val_OperatorAddress v = a"
    unfolding authentic_def by blast
  then obtain u where "GetValidator a d = Some u" "val_ConsensusPubKey u = val_ConsensusPubKey v"
    using validator_set_members [OF assms(1,2), of a "val_ConsensusPubKey v"] by blast
  then obtain u' where "GetValidator a d' = Some u'" "val_ConsensusPubKey u' = val_ConsensusPubKey v"
    using dpos_evolves_keys [OF assms(5)] unfolding GetValidator_def by metis
  then obtain v' where "v' \<in> set (vs_Validators (DPoS_ValidatorSet order' d'))" "val_OperatorAddress v' = a"
      "val_ConsensusPubKey v' = val_ConsensusPubKey v"
    using validator_set_members [OF assms(3,4), of a "val_ConsensusPubKey v"] by blast
  with w show ?thesis unfolding authentic_def by metis
qed

text \<open>The invariant of a run: the engine keeps its verifier, works with the validator set its manager
  had at some time, and files authentic votes only.\<close>

definition set_of_manager :: "validator_set \<Rightarrow> dpos \<Rightarrow> bool" where
  "set_of_manager s d \<longleftrightarrow> (\<exists>d0 order. reachable_dpos d0 \<and> range_order d0 order \<and> dpos_evolves d0 d
     \<and> s = DPoS_ValidatorSet order d0)"

definition replica_inv ::
  "('kv, 'r, 'c, 'm) libs \<Rightarrow> verifier \<Rightarrow> ('kv, 'r, 'c, 'm) engine \<Rightarrow> bool"
where
  "replica_inv L ver e \<longleftrightarrow> reachable_dpos (en_dpos e) \<and> en_verifier e = ver
     \<and> set_of_manager (en_validatorSet e) (en_dpos e)
     \<and> authentic_votes (lib_pw L) ver (en_validatorSet e) (en_votes e)"

lemma set_of_manager_refl:
  "reachable_dpos d \<Longrightarrow> range_order d order \<Longrightarrow> set_of_manager (DPoS_ValidatorSet order d) d"
  unfolding set_of_manager_def by blast

lemma set_of_manager_step:
  assumes "set_of_manager s d" and "dpos_step d d' \<or> dpos_slash d d'"
  shows "set_of_manager s d'"
proof -
  from assms(1) obtain d0 order where d0: "reachable_dpos d0" "range_order d0 order" "dpos_evolves d0 d"
      "s = DPoS_ValidatorSet order d0"
    unfolding set_of_manager_def by blast
  from d0(3) have "dpos_evolves d0 d'" by (rule rtranclp.rtrancl_into_rtrancl) (rule assms(2))
  with d0 show ?thesis unfolding set_of_manager_def by blast
qed

lemma replica_inv_book: "book e' = book e \<Longrightarrow> replica_inv L ver e \<Longrightarrow> replica_inv L ver e'"
  by (simp add: replica_inv_def book_def)

lemma NewEngine_inv:
  assumes "reachable_dpos d" and "range_order d order"
    and "NewEngine L order cfg st d mp contracts addr sig_key ver net = Inr e"
  shows "replica_inv L ver e"
proof -
  have "book e = (d, ver, DPoS_ValidatorSet order d, Map.empty)"
    using loadConsensusState_book [OF assms(3) [unfolded NewEngine_def]] by (simp add: book_def)
  then show ?thesis
    using assms(1,2) set_of_manager_refl
    by (simp add: replica_inv_def book_def authentic_votes_def)
qed

lemma replica_vset_ok:
  assumes "replica_inv L ver e"
  shows "vset_ok (en_validatorSet e)"
proof -
  from assms obtain d order where "reachable_dpos d" "range_order d order" "en_validatorSet e = DPoS_ValidatorSet order d"
    unfolding replica_inv_def set_of_manager_def by blast
  then show ?thesis by (simp add: validator_set_ok)
qed

lemma replica_run_inv: "replica_run L ver e \<Longrightarrow> replica_inv L ver e"
proof (induction rule: replica_run.induct)
  case start
  then show ?case by (rule NewEngine_inv)
next
  case (submit e txn mp)
  show ?case by (rule replica_inv_book [OF _ submit.IH]) simp
next
  case (shared e contracts)
  show ?case by (rule replica_inv_book [OF _ shared.IH]) simp
next
  case (stake e d)
  have "reachable_dpos d"
    using stake by (elim disjE) (auto simp: replica_inv_def intro: reachable_dpos.intros(2,3))
  moreover have "set_of_manager (en_validatorSet e) d"
    using stake.IH by (intro set_of_manager_step [OF _ stake.hyps(2)]) (simp add: replica_inv_def)
  ultimately show ?case using stake.IH by (simp add: replica_inv_def)
next
  case propose
  then show ?case by (metis replica_inv_book ProposeBlock_book)
next
  case proposal
  then show ?case by (metis replica_inv_book HandleProposal_book)
next
  case (vote e order v e' certified)
  from HandlePrecommitVote_book [OF vote.hyps(2) replica_vset_ok [OF vote.IH]]
  show ?case
  proof (elim disjE exE conjE)
    assume "book e' = book e"
    then show ?thesis by (rule replica_inv_book [OF _ vote.IH])
  next
    fix w
    assume auth: "authentic (lib_pw L) (en_verifier e) (en_validatorSet e) (vote_BlockHash w) (vote_Validator w) w"
      and e': "e' = e\<lparr>en_votes := (en_votes e)(vote_BlockHash w \<mapsto>
        (case en_votes e (vote_BlockHash w) of None \<Rightarrow> Map.empty | Some m \<Rightarrow> m)(vote_Validator w \<mapsto> w))\<rparr>"
    show ?thesis
      using vote.IH authentic_votes_add [OF _ auth] unfolding replica_inv_def e' by simp
  qed
next
  case view
  then show ?case by (metis replica_inv_book HandleViewChange_book)
next
  case (timeout e)
  show ?case by (rule replica_inv_book [OF OnTimeout_book timeout.IH])
next
  case (finalize e order blk cert contracts e' contracts' blk' finalized)
  let ?new = "DPoS_ValidatorSet order (en_dpos e)"
  note book = FinalizeBlock_book [OF finalize.hyps(3)]
  from finalize.IH have d: "reachable_dpos (en_dpos e)" and votes: "authentic_votes (lib_pw L) ver (en_validatorSet e) (en_votes e)"
    and old: "set_of_manager (en_validatorSet e) (en_dpos e)"
    unfolding replica_inv_def by blast+
  from old obtain d0 order0 where d0: "reachable_dpos d0" "range_order d0 order0" "dpos_evolves d0 (en_dpos e)"
      "en_validatorSet e = DPoS_ValidatorSet order0 d0"
    unfolding set_of_manager_def by blast
  have "authentic (lib_pw L) ver ?new h a w" if "authentic (lib_pw L) ver (en_validatorSet e) h a w" for h a w
    using authentic_evolves [OF d0(1,2) d finalize.hyps(2) d0(3)] that [unfolded d0(4)] .
  then have "authentic_votes (lib_pw L) ver ?new (en_votes e)"
    using votes unfolding authentic_votes_def by blast
  with votes have "authentic_votes (lib_pw L) ver (en_validatorSet e') (en_votes e)" using book by metis
  then have "authentic_votes (lib_pw L) ver (en_validatorSet e') (en_votes e')"
    using book authentic_votes_drop by metis
  moreover have "set_of_manager (en_validatorSet e') (en_dpos e)"
    using book old set_of_manager_refl [OF d finalize.hyps(2)] by metis
  ultimately show ?case using book finalize.IH unfolding replica_inv_def by metis
qed

section \<open>Properties\<close>


text \<open>What a certificate of a run rests on.\<close>

lemma certificate_votes:
  assumes run: "replica_run L ver e"
    and built: "HandlePrecommitVote L order (Some v) e = (e', Ret (Inr (Some qc)))"
    and order: "map_order (the (en_votes e' (vote_BlockHash v))) order"
  obtains votes where "tryBuildQC order e' (vote_BlockHash v) votes = Ret (Inr (Some qc))"
    "map_order votes order" "en_validatorSet e' = en_validatorSet e" "qc_BlockHash qc = vote_BlockHash v"
    "\<forall>a w. votes a = Some w \<longrightarrow> authentic (lib_pw L) ver (en_validatorSet e) (vote_BlockHash v) a w"
proof -
  from HandlePrecommitVote_ok [OF built] obtain vmap where
    e': "e' = e\<lparr>en_votes := (en_votes e)(vote_BlockHash v \<mapsto> vmap(vote_Validator v \<mapsto> v))\<rparr>"
    and qc: "tryBuildQC order e' (vote_BlockHash v) (vmap(vote_Validator v \<mapsto> v)) = Ret (Inr (Some qc))" by blast
  let ?votes = "vmap(vote_Validator v \<mapsto> v)"
  have "replica_run L ver e'" by (rule replica_run.vote [OF run built])
  from replica_run_inv [OF this] have "authentic_votes (lib_pw L) ver (en_validatorSet e') (en_votes e')"
    by (simp add: replica_inv_def)
  then have auth: "\<forall>a w. ?votes a = Some w \<longrightarrow> authentic (lib_pw L) ver (en_validatorSet e) (vote_BlockHash v) a w"
    unfolding authentic_votes_def e' by simp
  have ord: "map_order ?votes order" using order by (simp add: e')
  have "qc_BlockHash qc = vote_BlockHash v"
    using qc by (auto simp: tryBuildQC_def Let_def split: if_splits go.splits sum.splits)
  from that [OF qc ord _ this auth] show thesis by (simp add: e')
qed

text \<open>Property C8. Accountable safety, while three times the total power fits 64 bits: take any two engines
  with the same verifier, each in any state it can come to, that work with the same validator set
  when each builds a certificate. Validators with more than a third of the power of that set signed
  votes for the blocks of both. So if the blocks differ, more than a third of the power has provably
  signed votes for two blocks. (For larger powers a single vote can be a certificate.)\<close>

theorem conflicting_certificates_need_double_votes:
  assumes run1: "replica_run L ver e1" and run2: "replica_run L ver e2"
    and set1: "en_validatorSet e1 = s" and set2: "en_validatorSet e2 = s"
    and small: "3 * power_nat (vs_Validators s) < 2 ^ 64"
    and qc1: "HandlePrecommitVote L o1 (Some v1) e1 = (e1', Ret (Inr (Some qc1)))"
      "map_order (the (en_votes e1' (vote_BlockHash v1))) o1"
    and qc2: "HandlePrecommitVote L o2 (Some v2) e2 = (e2', Ret (Inr (Some qc2)))"
      "map_order (the (en_votes e2' (vote_BlockHash v2))) o2"
  shows "\<exists>I \<subseteq> {..<length (vs_Validators s)}.
    power_nat (vs_Validators s) < 3 * power_of s I
    \<and> (\<forall>i \<in> I. \<exists>w1 w2. authentic (lib_pw L) ver s (qc_BlockHash qc1) (val_OperatorAddress (vs_Validators s ! i)) w1
         \<and> authentic (lib_pw L) ver s (qc_BlockHash qc2) (val_OperatorAddress (vs_Validators s ! i)) w2)"
proof -
  have ok: "vset_ok s" using replica_vset_ok [OF replica_run_inv [OF run1]] by (simp add: set1)
  obtain m1 where m1: "tryBuildQC o1 e1' (vote_BlockHash v1) m1 = Ret (Inr (Some qc1))"
    "map_order m1 o1" "en_validatorSet e1' = s" "qc_BlockHash qc1 = vote_BlockHash v1"
    "\<forall>a w. m1 a = Some w \<longrightarrow> authentic (lib_pw L) ver s (qc_BlockHash qc1) a w"
    using certificate_votes [OF run1 qc1] set1 by metis
  obtain m2 where m2: "tryBuildQC o2 e2' (vote_BlockHash v2) m2 = Ret (Inr (Some qc2))"
    "map_order m2 o2" "en_validatorSet e2' = s" "qc_BlockHash qc2 = vote_BlockHash v2"
    "\<forall>a w. m2 a = Some w \<longrightarrow> authentic (lib_pw L) ver s (qc_BlockHash qc2) a w"
    using certificate_votes [OF run2 qc2] set2 by metis
  let ?I = "voters s m1 \<inter> voters s m2"
  have "power_nat (vs_Validators s) < 3 * power_of s ?I"
    using certificates_overlap [OF ok small m1(2) m2(2) m1(3) m2(3) m1(1) m2(1)] .
  moreover have "?I \<subseteq> {..<length (vs_Validators s)}" using voters_subset by blast
  moreover have "\<forall>i \<in> ?I. \<exists>w1 w2. authentic (lib_pw L) ver s (qc_BlockHash qc1) (val_OperatorAddress (vs_Validators s ! i)) w1
      \<and> authentic (lib_pw L) ver s (qc_BlockHash qc2) (val_OperatorAddress (vs_Validators s ! i)) w2"
    using m1(5) m2(5) by (fastforce simp: voters_def)
  ultimately show ?thesis by blast
qed

section \<open>Two runs\<close>

lemma sample_consensus_state: "GetConsensusState memory_store toy_db = Inr (0, 0, zero_hash)"
  by (simp add: GetConsensusState_def toy_db_def memory_store_def wrap_get_def Let_def)
    (simp add: key_defs)

lemma sample_run: "replica_run toy_libs (en_verifier sample_engine) sample_engine"
proof -
  have "NewEngine toy_libs [''a'', ''b''] (en_cfg sample_engine) (en_state sample_engine) sample_dpos
      (en_mempool sample_engine) None ''a'' (en_signer sample_engine) (en_verifier sample_engine) None
      = Inr sample_engine"
    by (simp add: NewEngine_def loadConsensusState_def sample_engine_def sample_consensus_state)
  with unslashed_reachable [OF sample_unslashed] sample_range(1) show ?thesis by (rule replica_run.start)
qed

lemma sample_certified:
  defines "v \<equiv> \<lambda>h. sample_vote\<lparr>vote_BlockHash := h\<rparr>"
  shows "\<exists>e' qc. HandlePrecommitVote toy_libs [''b''] (Some (v h)) sample_engine = (e', Ret (Inr (Some qc)))
    \<and> qc_BlockHash qc = h \<and> en_votes e' h = Some [''b'' \<mapsto> v h] \<and> en_dpos e' = sample_dpos"
proof -
  let ?e = "sample_engine\<lparr>en_votes := [h \<mapsto> [''b'' \<mapsto> v h]]\<rparr>"
  obtain msg where msg: "PrecommitSignBytes wire_format (Some (v h)) = Inr msg"
    using PrecommitSignBytes_total by blast
  have pk: "validatorPubKey sample_engine ''b'' = Some [2]"
    by (simp add: validatorPubKey_def sample_vset)
  have fields: "vote_BlockHash (v h) = h" "vote_Height (v h) = 1" "vote_Validator (v h) = ''b''"
      "vote_Signature (v h) = [7]"
    by (simp_all add: v_def)
  have "\<exists>qc. tryBuildQC [''b''] ?e h [''b'' \<mapsto> v h] = Ret (Inr (Some qc)) \<and> qc_BlockHash qc = h"
    by (simp add: tryBuildQC_def Let_def sample_vset fields)
  then obtain qc where qc: "tryBuildQC [''b''] ?e h [''b'' \<mapsto> v h] = Ret (Inr (Some qc))" "qc_BlockHash qc = h"
    by blast
  have "HandlePrecommitVote toy_libs [''b''] (Some (v h)) sample_engine = (?e, Ret (Inr (Some qc)))"
    unfolding HandlePrecommitVote_def option.case Let_def toy_libs_simps fields msg pk
      sample_engine_simps qc by (simp add: qc)
  with qc(2) show ?thesis by (intro exI [of _ ?e] exI [of _ qc]) (simp add: sample_engine_def)
qed


lemma conflicting_certificates_need_double_votes_witness:
  "\<exists>e1 qc1 e2 qc2 I.
     HandlePrecommitVote toy_libs [''b''] (Some (sample_vote\<lparr>vote_BlockHash := [1]\<rparr>)) sample_engine = (e1, Ret (Inr (Some qc1)))
   \<and> HandlePrecommitVote toy_libs [''b''] (Some (sample_vote\<lparr>vote_BlockHash := [2]\<rparr>)) sample_engine = (e2, Ret (Inr (Some qc2)))
   \<and> qc_BlockHash qc1 = [1] \<and> qc_BlockHash qc2 = [2]
   \<and> I \<subseteq> {..<2} \<and> I \<noteq> {} \<and> 440 < 3 * power_of (en_validatorSet sample_engine) I
   \<and> (\<forall>i \<in> I. \<exists>w1 w2. authentic wire_format (en_verifier sample_engine) (en_validatorSet sample_engine) [1]
            (val_OperatorAddress (vs_Validators (en_validatorSet sample_engine) ! i)) w1
        \<and> authentic wire_format (en_verifier sample_engine) (en_validatorSet sample_engine) [2]
            (val_OperatorAddress (vs_Validators (en_validatorSet sample_engine) ! i)) w2)"
proof -
  obtain e1 qc1 where e1: "HandlePrecommitVote toy_libs [''b''] (Some (sample_vote\<lparr>vote_BlockHash := [1]\<rparr>)) sample_engine
      = (e1, Ret (Inr (Some qc1)))" "qc_BlockHash qc1 = [1]"
      "en_votes e1 [1] = Some [''b'' \<mapsto> sample_vote\<lparr>vote_BlockHash := [1]\<rparr>]"
    using sample_certified [of "[1]"] by blast
  obtain e2 qc2 where e2: "HandlePrecommitVote toy_libs [''b''] (Some (sample_vote\<lparr>vote_BlockHash := [2]\<rparr>)) sample_engine
      = (e2, Ret (Inr (Some qc2)))" "qc_BlockHash qc2 = [2]"
      "en_votes e2 [2] = Some [''b'' \<mapsto> sample_vote\<lparr>vote_BlockHash := [2]\<rparr>]"
    using sample_certified [of "[2]"] by blast
  let ?s = "en_validatorSet sample_engine"
  have size: "length (vs_Validators ?s) = 2" "power_nat (vs_Validators ?s) = 440" by (simp_all add: sample_vset)
  have o1: "map_order (the (en_votes e1 (vote_BlockHash (sample_vote\<lparr>vote_BlockHash := [1]\<rparr>)))) [''b'']"
    and o2: "map_order (the (en_votes e2 (vote_BlockHash (sample_vote\<lparr>vote_BlockHash := [2]\<rparr>)))) [''b'']"
    using e1(3) e2(3) by (simp_all add: map_order_def)
  have small: "3 * power_nat (vs_Validators ?s) < 2 ^ 64" unfolding size by simp
  obtain I where I: "I \<subseteq> {..<2}" "440 < 3 * power_of ?s I"
    "\<forall>i \<in> I. \<exists>w1 w2. authentic wire_format (en_verifier sample_engine) ?s [1] (val_OperatorAddress (vs_Validators ?s ! i)) w1
      \<and> authentic wire_format (en_verifier sample_engine) ?s [2] (val_OperatorAddress (vs_Validators ?s ! i)) w2"
    using conflicting_certificates_need_double_votes [OF sample_run sample_run refl refl small e1(1) o1 e2(1) o2,
        unfolded e1(2) e2(2) size toy_libs_simps] by blast
  have "I \<noteq> {}" using I(2) by (auto simp: power_of_def)
  with I e1(1,2) e2(1,2) show ?thesis by blast
qed

end
