(* ===== verification/Governance.thy ===== *)
theory Governance
  imports Types
begin

text \<open>
  Governance, \<open>pkg/governance/governance.go\<close>: the registry of proposals and votes. The manager is
  the record of its fields without the mutex, which makes every method one step; the proposals are
  stored as copies (\<open>&p\<close> of a parameter passed by value, and \<open>GetProposal\<close> returns a copy), so the
  map holds values.

  The abstract specification is the history of what was asked of the manager, most recent first:
  the proposals that were submitted, and of each address the option of its last vote on a proposal
  that existed. The lemmas show that the manager answers as the history says.
\<close>

section \<open>Definitions\<close>

record governance_params =
  gov_VotingPeriodEpochs :: u64
  gov_QuorumPercent :: u64
  gov_ThresholdPercent :: u64
  gov_TimelockEpochs :: u64

record manager =
  gm_params :: governance_params
  gm_proposals :: "u64 \<rightharpoonup> governance_proposal"
  gm_votes :: "u64 \<rightharpoonup> (address \<rightharpoonup> vote_option)"
  gm_nextID :: u64

definition Governance_New :: "governance_params \<Rightarrow> manager" where
  "Governance_New params =
     \<lparr>gm_params = params, gm_proposals = Map.empty, gm_votes = Map.empty, gm_nextID = 1\<rparr>"

definition SubmitProposal :: "governance_proposal \<Rightarrow> manager \<Rightarrow> (error + u64) \<times> manager" where
  "SubmitProposal p g =
     (let p = p\<lparr>gp_ID := gm_nextID g\<rparr>;
          g = g\<lparr>gm_nextID := gm_nextID g + 1\<rparr>;
          g = g\<lparr>gm_proposals := (gm_proposals g)(gp_ID p \<mapsto> p)\<rparr>
      in (Inr (gp_ID p), g))"

definition Governance_Vote :: "governance_vote \<Rightarrow> manager \<Rightarrow> (error + unit) \<times> manager" where
  "Governance_Vote v g =
     (case gm_proposals g (gv_ProposalID v) of
        None \<Rightarrow> (Inl ''proposal not found'', g)
      | Some _ \<Rightarrow>
          let votes = (case gm_votes g (gv_ProposalID v) of None \<Rightarrow> Map.empty | Some vs \<Rightarrow> vs);
              votes = votes(gv_Voter v \<mapsto> gv_Option v)
          in (Inr (), g\<lparr>gm_votes := (gm_votes g)(gv_ProposalID v \<mapsto> votes)\<rparr>))"

definition GetProposal :: "u64 \<Rightarrow> manager \<Rightarrow> error + governance_proposal" where
  "GetProposal i g =
     (case gm_proposals g i of None \<Rightarrow> Inl ''proposal not found'' | Some p \<Rightarrow> Inr p)"

section \<open>Histories\<close>

datatype gov_event = Submit governance_proposal | Cast governance_vote

fun gov_step :: "gov_event \<Rightarrow> manager \<Rightarrow> manager" where
  "gov_step (Submit p) g = snd (SubmitProposal p g)"
| "gov_step (Cast v) g = snd (Governance_Vote v g)"

text \<open>A history lists the events with the most recent one first.\<close>

fun gov_run :: "governance_params \<Rightarrow> gov_event list \<Rightarrow> manager" where
  "gov_run ps [] = Governance_New ps"
| "gov_run ps (e # h) = gov_step e (gov_run ps h)"

fun submitted :: "gov_event list \<Rightarrow> governance_proposal list" where
  "submitted [] = []"
| "submitted (Submit p # h) = submitted h @ [p]"
| "submitted (Cast v # h) = submitted h"

definition open_at :: "gov_event list \<Rightarrow> u64 \<Rightarrow> bool" where
  "open_at h i \<longleftrightarrow> 1 \<le> unat i \<and> unat i \<le> length (submitted h)"

fun last_vote :: "gov_event list \<Rightarrow> u64 \<Rightarrow> address \<Rightarrow> vote_option option" where
  "last_vote [] i a = None"
| "last_vote (Submit p # h) i a = last_vote h i a"
| "last_vote (Cast v # h) i a =
     (if gv_ProposalID v = i \<and> gv_Voter v = a \<and> open_at h i then Some (gv_Option v) else last_vote h i a)"

definition recorded_vote :: "manager \<Rightarrow> u64 \<Rightarrow> address \<Rightarrow> vote_option option" where
  "recorded_vote g i a = (case gm_votes g i of None \<Rightarrow> None | Some vs \<Rightarrow> vs a)"

section \<open>The manager refines its history\<close>

definition numbered :: "gov_event list \<Rightarrow> u64 \<rightharpoonup> governance_proposal" where
  "numbered h i = (if open_at h i then Some ((submitted h ! (unat i - 1))\<lparr>gp_ID := i\<rparr>) else None)"

lemma gm_params_run [simp]: "gm_params (gov_run ps h) = ps"
proof (induction h)
  case (Cons e h)
  then show ?case
    by (cases e) (auto simp: SubmitProposal_def Governance_Vote_def Let_def split: option.split)
qed (simp add: Governance_New_def)

lemma submit_numbered:
  assumes "length (submitted h) + 2 \<le> 2 ^ 64"
  shows "numbered (Submit p # h)
       = (numbered h)(word_of_nat (Suc (length (submitted h)))
           \<mapsto> p\<lparr>gp_ID := word_of_nat (Suc (length (submitted h)))\<rparr>)"
proof
  fix i :: u64
  let ?n = "length (submitted h)"
  have u: "unat (word_of_nat (Suc ?n) :: u64) = Suc ?n"
    using assms by (simp add: unat_of_nat take_bit_nat_eq_self del: of_nat_Suc)
  have eq: "i = word_of_nat (Suc ?n) \<longleftrightarrow> unat i = Suc ?n"
    using u by (metis word_unat_eq_iff)
  note of_nat_Suc [simp del]
  show "numbered (Submit p # h) i
      = ((numbered h)(word_of_nat (Suc ?n) \<mapsto> p\<lparr>gp_ID := word_of_nat (Suc ?n)\<rparr>)) i"
    by (cases "i = word_of_nat (Suc ?n)")
      (use u eq in \<open>auto simp: numbered_def open_at_def nth_append\<close>)
qed

lemma run_proposals:
  assumes "length (submitted h) + 1 < 2 ^ 64"
  shows "gm_proposals (gov_run ps h) = numbered h
       \<and> gm_nextID (gov_run ps h) = word_of_nat (Suc (length (submitted h)))"
  using assms
proof (induction h)
  case Nil
  show ?case by (auto simp: Governance_New_def numbered_def open_at_def)
next
  case (Cons e h)
  show ?case
  proof (cases e)
    case (Submit p)
    with Cons have ih: "gm_proposals (gov_run ps h) = numbered h"
        "gm_nextID (gov_run ps h) = word_of_nat (Suc (length (submitted h)))" by simp_all
    have "length (submitted h) + 2 \<le> 2 ^ 64" using Cons.prems Submit by simp
    from submit_numbered [OF this, of p] ih Submit show ?thesis
      by (simp add: SubmitProposal_def)
  next
    case (Cast v)
    with Cons have "gm_proposals (gov_run ps h) = numbered h"
        "gm_nextID (gov_run ps h) = word_of_nat (Suc (length (submitted h)))" by simp_all
    with Cast show ?thesis
      by (auto simp: Governance_Vote_def Let_def numbered_def open_at_def fun_eq_iff
          split: option.split)
  qed
qed

lemma run_votes:
  assumes "length (submitted h) + 1 < 2 ^ 64"
  shows "recorded_vote (gov_run ps h) i a = last_vote h i a"
  using assms
proof (induction h)
  case Nil
  show ?case by (simp add: recorded_vote_def Governance_New_def)
next
  case (Cons e h)
  show ?case
  proof (cases e)
    case (Submit p)
    with Cons show ?thesis by (simp add: SubmitProposal_def recorded_vote_def)
  next
    case (Cast v)
    with Cons have ih: "recorded_vote (gov_run ps h) i a = last_vote h i a" by simp
    from Cons.prems Cast have "gm_proposals (gov_run ps h) = numbered h"
      using run_proposals [of h ps] by simp
    with ih Cast show ?thesis
      by (auto simp: Governance_Vote_def recorded_vote_def Let_def numbered_def split: option.splits)
  qed
qed

lemma GetProposal_run:
  assumes "length (submitted h) + 1 < 2 ^ 64"
  shows "GetProposal i (gov_run ps h)
       = (if open_at h i then Inr ((submitted h ! (unat i - 1))\<lparr>gp_ID := i\<rparr>)
          else Inl ''proposal not found'')"
  using run_proposals [OF assms] by (simp add: GetProposal_def numbered_def)

section \<open>Properties\<close>

text \<open>Property C25. The manager refines its history: after any sequence of submissions and votes,
  proposal number \<open>i\<close> is the \<open>i\<close>-th one submitted, unchanged but for its number, every other number
  is not found, a submission answers with the next number, and the vote on record of an address is
  the last one it cast on the proposal after it had been submitted.\<close>

theorem governance_refines_history:
  assumes "length (submitted h) + 1 < 2 ^ 64"
  shows "GetProposal i (gov_run ps h)
         = (if 1 \<le> unat i \<and> unat i \<le> length (submitted h)
            then Inr ((submitted h ! (unat i - 1))\<lparr>gp_ID := i\<rparr>)
            else Inl ''proposal not found'')
    \<and> recorded_vote (gov_run ps h) i a = last_vote h i a
    \<and> fst (SubmitProposal p (gov_run ps h)) = Inr (word_of_nat (Suc (length (submitted h))))"
  using GetProposal_run [OF assms, of i ps] run_votes [OF assms, of ps i a]
    run_proposals [OF assms, of ps]
  by (simp add: SubmitProposal_def Let_def open_at_def)

definition sample_proposal :: governance_proposal where
  "sample_proposal = \<lparr>gp_ID = 99, gp_Title = ''alpha'', gp_Description = [], gp_ParamKey = ''alpha'',
     gp_ParamValue = ''2'', gp_Submitter = ''ocn1''\<rparr>"

definition sample_ballot :: "address \<Rightarrow> vote_option \<Rightarrow> governance_vote" where
  "sample_ballot a opt = \<lparr>gv_ProposalID = 1, gv_Voter = a, gv_Option = opt\<rparr>"

definition sample_history :: "gov_event list" where
  "sample_history = [Cast (sample_ballot ''a'' VoteOptionNo), Cast (sample_ballot ''a'' VoteOptionYes),
     Submit sample_proposal, Cast (sample_ballot ''b'' VoteOptionYes)]"

definition sample_params :: governance_params where
  "sample_params = \<lparr>gov_VotingPeriodEpochs = 2, gov_QuorumPercent = 33, gov_ThresholdPercent = 50,
     gov_TimelockEpochs = 1\<rparr>"

lemma governance_refines_history_witness:
  "GetProposal 1 (gov_run sample_params sample_history) = Inr (sample_proposal\<lparr>gp_ID := 1\<rparr>)
   \<and> recorded_vote (gov_run sample_params sample_history) 1 ''a'' = Some VoteOptionNo
   \<and> recorded_vote (gov_run sample_params sample_history) 1 ''b'' = None"
  using governance_refines_history [of sample_history 1 sample_params "''a''" sample_proposal]
    governance_refines_history [of sample_history 1 sample_params "''b''" sample_proposal]
  by (simp add: sample_history_def sample_ballot_def open_at_def)

end
