(* ===== verification/Native.thy ===== *)
theory Native
  imports Crypto
begin

text \<open>
  The native post-quantum primitives of \<open>pkg/crypto\<close>: the Kyber-768 key encapsulation
  (\<open>kyber.go\<close>, \<open>kyber_cgo.go\<close>, \<open>kyber_nocgo.go\<close>), the cgo wrappers of Dilithium
  (\<open>dilithium_cgo.go\<close>) and key generation.

  The C code is a git submodule: its functions are the records \<open>kyber_c\<close> and \<open>dilithium_c\<close>, with
  the return code and the buffers they fill. Randomness is an argument, \<open>coins\<close>. A wrapper passes
  the address of the first byte of a slice, and the C function reads as many bytes as its
  parameter set says; where the slice is shorter that is a read outside of it, the value
  \<open>OutOfBounds\<close>.
\<close>

section \<open>Calls into C\<close>

datatype 'a c_call = Safe 'a | OutOfBounds

definition c_reads :: "(bytes \<times> nat) list \<Rightarrow> 'a \<Rightarrow> 'a c_call" where
  "c_reads bufs x = (if \<forall>(b, n) \<in> set bufs. n \<le> length b then Safe x else OutOfBounds)"

lemma c_reads_Nil [simp]: "c_reads [] x = Safe x"
  by (simp add: c_reads_def)

lemma c_reads_Cons [simp]:
  "c_reads ((b, n) # bufs) x = (if n \<le> length b then c_reads bufs x else OutOfBounds)"
  by (simp add: c_reads_def)

section \<open>Kyber\<close>

definition kyber_pk_len :: nat where "kyber_pk_len = 1184"
definition kyber_sk_len :: nat where "kyber_sk_len = 2400"
definition kyber_ct_len :: nat where "kyber_ct_len = 1088"
definition kyber_ss_len :: nat where "kyber_ss_len = 32"

lemmas kyber_lens = kyber_pk_len_def kyber_sk_len_def kyber_ct_len_def kyber_ss_len_def

text \<open>\<open>pqcrystals_kyber768_ref_keypair\<close>, \<open>_enc\<close> and \<open>_dec\<close>: the return code and what they write.\<close>

record kyber_c =
  kem_keypair :: "bytes \<Rightarrow> int \<times> bytes \<times> bytes"
  kem_enc :: "bytes \<Rightarrow> bytes \<Rightarrow> int \<times> bytes \<times> bytes"
  kem_dec :: "bytes \<Rightarrow> bytes \<Rightarrow> int \<times> bytes"

text \<open>The functions of the build, with cgo or without.\<close>

record kyber =
  GenerateKyber768KeypairC :: "bytes \<Rightarrow> error + (bytes \<times> bytes)"
  EncapsulateKyber768C :: "bytes \<Rightarrow> bytes \<Rightarrow> (error + (bytes \<times> bytes)) c_call"
  DecapsulateKyber768C :: "bytes \<Rightarrow> bytes \<Rightarrow> (error + bytes) c_call"

definition cgo_keypair :: "kyber_c \<Rightarrow> bytes \<Rightarrow> error + (bytes \<times> bytes)" where
  "cgo_keypair kc coins =
     (let (ret, pk, sk) = kem_keypair kc coins
      in guard_err (ret \<noteq> 0) ''kyber keypair generation failed'' (Inr (pk, sk)))"

definition cgo_encapsulate :: "kyber_c \<Rightarrow> bytes \<Rightarrow> bytes \<Rightarrow> (error + (bytes \<times> bytes)) c_call" where
  "cgo_encapsulate kc coins pk =
     (if pk = [] then Safe (Inl ''public key empty'')
      else c_reads [(pk, kyber_pk_len)]
        (let (ret, ct, ss) = kem_enc kc coins (take kyber_pk_len pk)
         in guard_err (ret \<noteq> 0) ''kyber encapsulation failed'' (Inr (ct, ss))))"

definition cgo_decapsulate :: "kyber_c \<Rightarrow> bytes \<Rightarrow> bytes \<Rightarrow> (error + bytes) c_call" where
  "cgo_decapsulate kc sk ct =
     (if sk = [] \<or> ct = [] then Safe (Inl ''sk or ct empty'')
      else c_reads [(ct, kyber_ct_len), (sk, kyber_sk_len)]
        (let (ret, ss) = kem_dec kc (take kyber_ct_len ct) (take kyber_sk_len sk)
         in guard_err (ret \<noteq> 0) ''kyber decapsulation failed'' (Inr ss)))"

definition kyber_cgo :: "kyber_c \<Rightarrow> kyber" where
  "kyber_cgo kc =
     \<lparr>GenerateKyber768KeypairC = cgo_keypair kc,
      EncapsulateKyber768C = cgo_encapsulate kc,
      DecapsulateKyber768C = cgo_decapsulate kc\<rparr>"

definition errKyberCGODisabled :: error where
  "errKyberCGODisabled = ''kyber: CGO not enabled; build with CGO to use native Kyber implementation''"

definition kyber_nocgo :: kyber where
  "kyber_nocgo =
     \<lparr>GenerateKyber768KeypairC = (\<lambda>coins. Inl errKyberCGODisabled),
      EncapsulateKyber768C = (\<lambda>coins pk. Safe (Inl errKyberCGODisabled)),
      DecapsulateKyber768C = (\<lambda>sk ct. Safe (Inl errKyberCGODisabled))\<rparr>"

record key_pair_kyber =
  kyber_PublicKey :: bytes
  kyber_PrivateKey :: bytes

definition GenerateKeyPairKyber768 :: "kyber \<Rightarrow> bytes \<Rightarrow> error + key_pair_kyber" where
  "GenerateKeyPairKyber768 ky coins =
     bind_err (wrap_err ''GenerateKeyPairKyber768: '' (GenerateKyber768KeypairC ky coins)) (\<lambda>(pk, sk).
       Inr \<lparr>kyber_PublicKey = pk, kyber_PrivateKey = sk\<rparr>)"

definition EncapsulateKyber768 :: "kyber \<Rightarrow> bytes \<Rightarrow> bytes \<Rightarrow> (error + (bytes \<times> bytes)) c_call" where
  "EncapsulateKyber768 ky coins pk = EncapsulateKyber768C ky coins pk"

definition DecapsulateKyber768 :: "kyber \<Rightarrow> bytes \<Rightarrow> bytes \<Rightarrow> (error + bytes) c_call" where
  "DecapsulateKyber768 ky sk ct = DecapsulateKyber768C ky sk ct"

text \<open>What is relied on of the C code: buffers of the documented sizes, and that decapsulation
  recovers the encapsulated secret.\<close>

definition kem_sizes :: "kyber_c \<Rightarrow> bool" where
  "kem_sizes kc \<longleftrightarrow>
     (\<forall>coins ret pk sk. kem_keypair kc coins = (ret, pk, sk) \<longrightarrow>
        length pk = kyber_pk_len \<and> length sk = kyber_sk_len) \<and>
     (\<forall>coins pk ret ct ss. kem_enc kc coins pk = (ret, ct, ss) \<longrightarrow> length ct = kyber_ct_len)"

definition kem_correct :: "kyber_c \<Rightarrow> bool" where
  "kem_correct kc \<longleftrightarrow>
     (\<forall>coins coins' pk sk ct ss. kem_keypair kc coins = (0, pk, sk) \<longrightarrow>
        kem_enc kc coins' pk = (0, ct, ss) \<longrightarrow> kem_dec kc ct sk = (0, ss))"

text \<open>Encapsulating for a generated key and decapsulating with it stays inside the buffers and
  gives both sides the same secret.\<close>

lemma cgo_kem_agrees:
  assumes "kem_sizes kc" and "kem_correct kc"
    and "GenerateKeyPairKyber768 (kyber_cgo kc) coins = Inr kp"
    and "kem_enc kc coins' (kyber_PublicKey kp) = (0, ct, ss)"
  shows "EncapsulateKyber768 (kyber_cgo kc) coins' (kyber_PublicKey kp) = Safe (Inr (ct, ss))
    \<and> DecapsulateKyber768 (kyber_cgo kc) (kyber_PrivateKey kp) ct = Safe (Inr ss)"
proof -
  from assms(3) obtain pk sk where kp: "kem_keypair kc coins = (0, pk, sk)"
      "kp = \<lparr>kyber_PublicKey = pk, kyber_PrivateKey = sk\<rparr>"
    by (auto simp: GenerateKeyPairKyber768_def kyber_cgo_def cgo_keypair_def split: prod.splits)
  with assms(4) have enc: "kem_enc kc coins' pk = (0, ct, ss)" by simp
  from assms(1) kp(1) have pk: "length pk = kyber_pk_len" and sk: "length sk = kyber_sk_len"
    unfolding kem_sizes_def by blast+
  from assms(1) enc have ct: "length ct = kyber_ct_len" unfolding kem_sizes_def by blast
  from assms(2) kp(1) enc have dec: "kem_dec kc ct sk = (0, ss)" unfolding kem_correct_def by blast
  have "pk \<noteq> []" "sk \<noteq> []" "ct \<noteq> []" using pk sk ct by (auto simp: kyber_lens)
  with kp(2) pk sk ct enc dec show ?thesis
    by (simp add: EncapsulateKyber768_def DecapsulateKyber768_def kyber_cgo_def cgo_encapsulate_def
        cgo_decapsulate_def)
qed

lemma cgo_encapsulate_bounds:
  "EncapsulateKyber768 (kyber_cgo kc) coins pk = OutOfBounds \<longleftrightarrow> pk \<noteq> [] \<and> length pk < kyber_pk_len"
  by (auto simp: EncapsulateKyber768_def kyber_cgo_def cgo_encapsulate_def)

section \<open>Dilithium\<close>

definition dilithium_pk_len :: nat where "dilithium_pk_len = 1312"
definition dilithium_sk_len :: nat where "dilithium_sk_len = 2560"
definition dilithium_sig_max :: nat where "dilithium_sig_max = 2420"

text \<open>\<open>pqcrystals_dilithium2_ref_keypair\<close>, \<open>_signature\<close> (return code, the signature buffer, the
  length) and \<open>_verify\<close>. The message is passed with its length; the key by its first byte, so what
  the functions do with a key of another length than theirs is up to the parameter.\<close>

record dilithium_c =
  dil_keypair :: "bytes \<Rightarrow> int \<times> bytes \<times> bytes"
  dil_signature :: "bytes \<Rightarrow> bytes \<Rightarrow> int \<times> bytes \<times> nat"
  dil_verify :: "bytes \<Rightarrow> bytes \<Rightarrow> bytes \<Rightarrow> int"

record key_pair =
  kp_PublicKey :: bytes
  kp_PrivateKey :: bytes

definition GenerateKeyPairC :: "dilithium_c \<Rightarrow> bytes \<Rightarrow> error + key_pair" where
  "GenerateKeyPairC dc coins =
     (let (ret, pk, sk) = dil_keypair dc coins
      in guard_err (ret \<noteq> 0) ''dilithium keypair generation failed''
           (Inr \<lparr>kp_PublicKey = pk, kp_PrivateKey = sk\<rparr>))"

definition GenerateKeyPair :: "dilithium_c \<Rightarrow> bytes \<Rightarrow> error + key_pair" where
  "GenerateKeyPair dc coins = GenerateKeyPairC dc coins"

text \<open>The result is \<open>sig[:siglen]\<close> of a buffer of 2420 bytes; a length beyond the buffer, where the
  slice expression panics, is the last error.\<close>

definition cgo_SignC :: "dilithium_c \<Rightarrow> bytes \<Rightarrow> bytes \<Rightarrow> error + bytes" where
  "cgo_SignC dc privateKey message =
     guard_err (privateKey = []) ''private key is empty''
    (let (ret, sig, siglen) = dil_signature dc message privateKey
     in guard_err (ret \<noteq> 0) ''dilithium sign failed''
         (guard_err (dilithium_sig_max < siglen) ''slice bounds out of range'' (Inr (take siglen sig))))"

definition cgo_VerifyC :: "dilithium_c \<Rightarrow> bytes \<Rightarrow> bytes \<Rightarrow> bytes \<Rightarrow> bool" where
  "cgo_VerifyC dc publicKey message signature =
     (if publicKey = [] \<or> signature = [] then False
      else dil_verify dc signature message publicKey = 0)"

definition dilithium_cgo :: "dilithium_c \<Rightarrow> dilithium" where
  "dilithium_cgo dc = \<lparr>SignC = cgo_SignC dc, VerifyC = cgo_VerifyC dc\<rparr>"

text \<open>What is relied on: a signature made with a generated key is not empty and verifies.\<close>

definition dil_correct :: "dilithium_c \<Rightarrow> bool" where
  "dil_correct dc \<longleftrightarrow>
     (\<forall>coins pk sk msg sig n. dil_keypair dc coins = (0, pk, sk) \<longrightarrow>
        length pk = dilithium_pk_len \<and> length sk = dilithium_sk_len \<and>
        (dil_signature dc msg sk = (0, sig, n) \<longrightarrow>
           length (take n sig) = dilithium_sig_max \<and> dil_verify dc (take n sig) msg pk = 0))"

text \<open>With cgo, what a signer over a generated key signs, the verifier accepts under its public
  key.\<close>

lemma cgo_signatures_verify:
  assumes "dil_correct dc" and "GenerateKeyPair dc coins = Inr kp"
    and "Sign (NewDilithiumSigner (dilithium_cgo dc) (kp_PublicKey kp) (kp_PrivateKey kp)) msg = Inr sig"
  shows "Verify (NewDilithiumVerifier (dilithium_cgo dc)) msg sig
    (PublicKey (NewDilithiumSigner (dilithium_cgo dc) (kp_PublicKey kp) (kp_PrivateKey kp)))"
proof -
  from assms(2) obtain pk sk where kp: "dil_keypair dc coins = (0, pk, sk)"
      "kp = \<lparr>kp_PublicKey = pk, kp_PrivateKey = sk\<rparr>"
    by (auto simp: GenerateKeyPair_def GenerateKeyPairC_def split: prod.splits)
  from assms(3) kp(2) obtain out n where sig: "dil_signature dc msg sk = (0, out, n)" "sig = take n out"
    by (auto simp: NewDilithiumSigner_def DilithiumSigner_Sign_def dilithium_cgo_def cgo_SignC_def
        split: prod.splits)
  from assms(1) kp(1) have "length pk = dilithium_pk_len"
    unfolding dil_correct_def by blast
  moreover from assms(1) kp(1) sig have "length sig = dilithium_sig_max" "dil_verify dc sig msg pk = 0"
    unfolding dil_correct_def by blast+
  ultimately show ?thesis using kp(2)
    by (auto simp: NewDilithiumVerifier_def NewDilithiumSigner_def DilithiumVerifier_Verify_def
        dilithium_cgo_def cgo_VerifyC_def dilithium_pk_len_def dilithium_sig_max_def)
qed

section \<open>Ed25519 keys\<close>

text \<open>\<open>ed25519.GenerateKey\<close> is a parameter \<open>gen\<close>.\<close>

record ed25519_key_pair =
  ed_PublicKey :: bytes
  ed_PrivateKey :: bytes

definition GenerateEd25519 :: "(bytes \<Rightarrow> error + (bytes \<times> bytes)) \<Rightarrow> bytes \<Rightarrow> error + ed25519_key_pair" where
  "GenerateEd25519 gen coins =
     bind_err (wrap_err ''ed25519 generate: '' (gen coins)) (\<lambda>(pub, priv).
       Inr \<lparr>ed_PublicKey = pub, ed_PrivateKey = priv\<rparr>)"

end
