(* ===== verification/P2P.thy ===== *)
theory P2P
  imports Native
begin

text \<open>
  Peer sessions, \<open>pkg/p2p/p2p.go\<close>: the framing of messages on a stream, the Kyber handshake that a
  new connection starts, and encryption under the session key it leaves.

  The libp2p host, its streams and the pubsub are the libraries' own; a stream is the bytes the
  other side writes to it. A handler that writes, waits for the answer and goes on is split at the
  wait. ChaCha20-Poly1305 and HKDF are the record \<open>session_lib\<close>; randomness is an argument.
\<close>

section \<open>Frames\<close>

text \<open>\<open>io.ReadFull\<close> of \<open>n\<close> bytes from a stream that delivers \<open>b\<close> and then ends.\<close>

definition ReadFull :: "nat \<Rightarrow> bytes \<Rightarrow> error + (bytes \<times> bytes)" where
  "ReadFull n b =
     (if n \<le> length b then Inr (take n b, drop n b)
      else if b = [] then Inl ''EOF'' else Inl ''unexpected EOF'')"

text \<open>\<open>w.Write\<close> is a parameter: it appends to what was written before, or fails.\<close>

definition writeBytes :: "('w \<Rightarrow> bytes \<Rightarrow> error + 'w) \<Rightarrow> 'w \<Rightarrow> bytes \<Rightarrow> error + 'w" where
  "writeBytes write w b =
     guard_err (2 ^ 20 < length b) ''message too large''
    (let lenBuf = [word_of_nat (drop_bit 8 (length b)), word_of_nat (length b)]
     in bind_err (write w lenBuf) (\<lambda>w. write w b))"

definition frame_size :: "u8 \<Rightarrow> u8 \<Rightarrow> int" where
  "frame_size hi lo = push_bit 8 (uint hi) OR uint lo"

definition readBytes :: "bytes \<Rightarrow> error + (bytes \<times> bytes)" where
  "readBytes r =
     bind_err (ReadFull 2 r) (\<lambda>(lenBuf, r).
       let n = frame_size (lenBuf ! 0) (lenBuf ! 1)
       in guard_err (n \<le> 0 \<or> 2 ^ 20 < n) ''invalid size''
         (bind_err (ReadFull (nat n) r) (\<lambda>(out, r). Inr (out, r))))"

text \<open>A writer that never fails: what was written so far.\<close>

definition append_write :: "bytes \<Rightarrow> bytes \<Rightarrow> error + bytes" where
  "append_write w b = Inr (w @ b)"

section \<open>Sessions\<close>

definition KeySize :: nat where "KeySize = 32"
definition NonceSize :: nat where "NonceSize = 12"

type_synonym peer_id = string

record session_lib =
  AEAD_Seal :: "bytes \<Rightarrow> bytes \<Rightarrow> bytes \<Rightarrow> bytes"
  AEAD_Open :: "bytes \<Rightarrow> bytes \<Rightarrow> bytes \<Rightarrow> error + bytes"
  HKDF :: "bytes \<Rightarrow> bytes \<Rightarrow> nat \<Rightarrow> error + bytes"

record p2p =
  p2p_sessions :: "peer_id \<rightharpoonup> bytes"

definition SessionKey :: "p2p \<Rightarrow> peer_id \<Rightarrow> bytes" where
  "SessionKey p i = (case p2p_sessions p i of None \<Rightarrow> [] | Some k \<Rightarrow> k)"

text \<open>\<open>chacha20poly1305.New\<close> fails for a key of another length only, which the test before it
  excludes. \<open>random\<close> is what \<open>rand.Read\<close> filled the nonce with, or its error.\<close>

definition EncryptForPeer ::
  "session_lib \<Rightarrow> (error + bytes) \<Rightarrow> p2p \<Rightarrow> peer_id \<Rightarrow> bytes \<Rightarrow> error + bytes"
where
  "EncryptForPeer sl random p i plaintext =
     (let key = SessionKey p i
      in guard_err (length key \<noteq> KeySize) ''missing session key''
        (bind_err random (\<lambda>nonce.
           let ct = AEAD_Seal sl key nonce plaintext
           in Inr (nonce @ ct))))"

definition DecryptFromPeer :: "session_lib \<Rightarrow> p2p \<Rightarrow> peer_id \<Rightarrow> bytes \<Rightarrow> error + bytes" where
  "DecryptFromPeer sl p i ciphertext =
     (let key = SessionKey p i
      in guard_err (length key \<noteq> KeySize) ''missing session key''
        (guard_err (length ciphertext < NonceSize) ''ciphertext too short''
          (let nonce = take NonceSize ciphertext;
               ct = drop NonceSize ciphertext
           in AEAD_Open sl key nonce ct)))"

definition storeSession :: "session_lib \<Rightarrow> peer_id \<Rightarrow> bytes \<Rightarrow> p2p \<Rightarrow> p2p" where
  "storeSession sl peerID secret p =
     (case HKDF sl secret (bytes_of ''opencoin-kyber'') KeySize of
        Inl _ \<Rightarrow> p
      | Inr key \<Rightarrow> p\<lparr>p2p_sessions := (p2p_sessions p)(peerID \<mapsto> key)\<rparr>)"

section \<open>The handshake\<close>

text \<open>\<open>initiateKyber\<close> up to the wait for the ciphertext: the private key it keeps on its stack and
  what it wrote. An error ends the handler.\<close>

definition initiate_hello :: "kyber \<Rightarrow> bytes \<Rightarrow> error + (bytes \<times> bytes)" where
  "initiate_hello ky coins =
     bind_err (GenerateKeyPairKyber768 ky coins) (\<lambda>kp.
     bind_err (writeBytes append_write [] (kyber_PublicKey kp)) (\<lambda>out.
     Inr (kyber_PrivateKey kp, out)))"

text \<open>The rest of it, on the bytes the peer answered.\<close>

definition initiate_finish ::
  "kyber \<Rightarrow> session_lib \<Rightarrow> peer_id \<Rightarrow> bytes \<Rightarrow> bytes \<Rightarrow> p2p \<Rightarrow> p2p c_call"
where
  "initiate_finish ky sl peerID sk reply p =
     (case readBytes reply of
        Inl _ \<Rightarrow> Safe p
      | Inr (ct, _) \<Rightarrow>
          (case DecapsulateKyber768 ky sk ct of
             OutOfBounds \<Rightarrow> OutOfBounds
           | Safe (Inl _) \<Rightarrow> Safe p
           | Safe (Inr ss) \<Rightarrow> Safe (storeSession sl peerID ss p)))"

text \<open>The other side up to \<open>storeSession\<close>: what it writes, and the secret if it gets that far. It
  does not look at the sessions, so other handlers may run before it stores.\<close>

definition kyber_answer :: "kyber \<Rightarrow> bytes \<Rightarrow> bytes \<Rightarrow> (bytes \<times> bytes option) c_call" where
  "kyber_answer ky coins hello =
     (case readBytes hello of
        Inl _ \<Rightarrow> Safe ([], None)
      | Inr (pk, _) \<Rightarrow>
          (case EncapsulateKyber768 ky coins pk of
             OutOfBounds \<Rightarrow> OutOfBounds
           | Safe (Inl _) \<Rightarrow> Safe ([], None)
           | Safe (Inr (ct, ss)) \<Rightarrow>
               (case writeBytes append_write [] ct of
                  Inl _ \<Rightarrow> Safe ([], None)
                | Inr out \<Rightarrow> Safe (out, Some ss))))"

text \<open>The whole of it, when nothing comes between.\<close>

definition handleKyberStream ::
  "kyber \<Rightarrow> session_lib \<Rightarrow> bytes \<Rightarrow> peer_id \<Rightarrow> bytes \<Rightarrow> p2p \<Rightarrow> (bytes \<times> p2p) c_call"
where
  "handleKyberStream ky sl coins remote hello p =
     (case kyber_answer ky coins hello of
        OutOfBounds \<Rightarrow> OutOfBounds
      | Safe (out, None) \<Rightarrow> Safe (out, p)
      | Safe (out, Some ss) \<Rightarrow> Safe (out, storeSession sl remote ss p))"

section \<open>Frames: lemmas\<close>

lemma frame_size_val: "frame_size hi lo = 256 * uint hi + uint lo"
proof -
  have "uint lo < 2 ^ 8" using uint_lt2p [of lo] by simp
  then have "push_bit 8 (uint hi) AND uint lo = 0"
    by (intro bit_eqI) (auto simp: bit_simps dest: bit_imp_le_length)
  then have "push_bit 8 (uint hi) OR uint lo = push_bit 8 (uint hi) + uint lo"
    by (simp add: disjunctive_add_eq_or)
  then show ?thesis by (simp add: frame_size_def push_bit_eq_mult)
qed

lemma frame_size_length:
  "frame_size (word_of_nat (drop_bit 8 n)) (word_of_nat n) = int (n mod 2 ^ 16)"
proof -
  have "uint (word_of_nat k :: u8) = int (k mod 256)" for k
    by (simp add: unsigned_of_nat take_bit_eq_mod of_nat_mod)
  then have "frame_size (word_of_nat (drop_bit 8 n)) (word_of_nat n)
      = int (256 * ((n div 256) mod 256) + n mod 256)"
    by (simp add: frame_size_val drop_bit_eq_div)
  also have "256 * ((n div 256) mod 256) + n mod 256 = n mod (256 * 256)"
    by (simp only: mod_mult2_eq)
  finally show ?thesis by simp
qed

lemma writeBytes_append:
  "writeBytes append_write w b = Inr w' \<longleftrightarrow>
     length b \<le> 2 ^ 20 \<and> w' = w @ [word_of_nat (drop_bit 8 (length b)), word_of_nat (length b)] @ b"
  by (auto simp: writeBytes_def append_write_def)

lemma read_frame:
  "readBytes ([word_of_nat (drop_bit 8 (length b)), word_of_nat (length b)] @ b @ rest)
   = (let n = length b mod 2 ^ 16
      in if n = 0 then Inl ''invalid size'' else Inr (take n b, drop n b @ rest))"
proof -
  let ?n = "length b mod 2 ^ 16"
  have le: "?n \<le> length b" by simp
  have "?n < 2 ^ 16" by simp
  then have small: "\<not> (2::int) ^ 20 < int ?n" by (simp del: of_nat_mod)
  show ?thesis
    using le small frame_size_length [of "length b"]
    by (simp add: readBytes_def ReadFull_def Let_def guard_err_def del: of_nat_mod)
qed

lemma readBytes_size: "readBytes r = Inr (b, rest) \<Longrightarrow> 0 < length b \<and> length b < 2 ^ 16"
proof -
  assume a: "readBytes r = Inr (b, rest)"
  then obtain hd tl where r: "ReadFull 2 r = Inr (hd, tl)"
      "\<not> frame_size (hd ! 0) (hd ! 1) \<le> 0"
      "ReadFull (nat (frame_size (hd ! 0) (hd ! 1))) tl = Inr (b, rest)"
    by (auto simp: readBytes_def Let_def guard_err_def split: if_splits)
  have "frame_size (hd ! 0) (hd ! 1) < 2 ^ 16"
    using uint_lt2p [of "hd ! 0"] uint_lt2p [of "hd ! 1"] by (simp add: frame_size_val)
  with r show ?thesis by (auto simp: ReadFull_def split: if_splits)
qed

section \<open>Handshakes: lemmas\<close>

definition frame :: "bytes \<Rightarrow> bytes" where
  "frame b = [word_of_nat (drop_bit 8 (length b)), word_of_nat (length b)] @ b"

lemma write_frame: "length b \<le> 2 ^ 20 \<Longrightarrow> writeBytes append_write [] b = Inr (frame b)"
  by (simp add: writeBytes_append frame_def)

lemma read_small_frame:
  assumes "0 < length b" and "length b < 2 ^ 16"
  shows "readBytes (frame b @ rest) = Inr (b, rest)"
  using assms read_frame [of b rest] by (simp add: frame_def)

text \<open>What is relied on of the libraries: HKDF fills the key it is asked for, and opening undoes
  sealing.\<close>

definition hkdf_fills :: "session_lib \<Rightarrow> bool" where
  "hkdf_fills sl \<longleftrightarrow> (\<forall>secret info. \<exists>k. HKDF sl secret info KeySize = Inr k)
     \<and> (\<forall>secret info n k. HKDF sl secret info n = Inr k \<longrightarrow> length k = n)"

definition aead_correct :: "session_lib \<Rightarrow> bool" where
  "aead_correct sl \<longleftrightarrow> (\<forall>k nonce m. length k = KeySize \<longrightarrow> length nonce = NonceSize \<longrightarrow>
     AEAD_Open sl k nonce (AEAD_Seal sl k nonce m) = Inr m)"

abbreviation derive :: "session_lib \<Rightarrow> bytes \<Rightarrow> error + bytes" where
  "derive sl ss \<equiv> HKDF sl ss (bytes_of ''opencoin-kyber'') KeySize"

lemma storeSession_key:
  "derive sl ss = Inr k \<Longrightarrow>
     SessionKey (storeSession sl i ss p) j = (if j = i then k else SessionKey p j)"
  by (simp add: storeSession_def SessionKey_def)

lemma handshake_steps:
  assumes sizes: "kem_sizes kc" "kem_correct kc"
    and keypair: "kem_keypair kc coins = (0, pk, sk)"
    and enc: "kem_enc kc coins' pk = (0, ct, ss)"
  shows "initiate_hello (kyber_cgo kc) coins = Inr (sk, frame pk)"
    and "handleKyberStream (kyber_cgo kc) sl coins' i (frame pk) p = Safe (frame ct, storeSession sl i ss p)"
    and "initiate_finish (kyber_cgo kc) sl j sk (frame ct) q = Safe (storeSession sl j ss q)"
proof -
  have gen: "GenerateKeyPairKyber768 (kyber_cgo kc) coins = Inr \<lparr>kyber_PublicKey = pk, kyber_PrivateKey = sk\<rparr>"
    using keypair by (simp add: GenerateKeyPairKyber768_def kyber_cgo_def cgo_keypair_def)
  have len: "length pk = 1184" "length ct = 1088"
    using sizes(1) keypair enc unfolding kem_sizes_def kyber_lens by blast+
  note kem = cgo_kem_agrees [OF sizes gen, of coins' ct ss, simplified, OF enc]
  show "initiate_hello (kyber_cgo kc) coins = Inr (sk, frame pk)"
    using gen len by (simp add: initiate_hello_def write_frame)
  show "handleKyberStream (kyber_cgo kc) sl coins' i (frame pk) p = Safe (frame ct, storeSession sl i ss p)"
    using kem len read_small_frame [of pk "[]"]
    by (simp add: handleKyberStream_def kyber_answer_def write_frame)
  show "initiate_finish (kyber_cgo kc) sl j sk (frame ct) q = Safe (storeSession sl j ss q)"
    using kem len read_small_frame [of ct "[]"] by (simp add: initiate_finish_def)
qed

lemma seal_open:
  assumes "aead_correct sl" and "length nonce = NonceSize"
    and "SessionKey q j = SessionKey p i" and "length (SessionKey p i) = KeySize"
  shows "EncryptForPeer sl (Inr nonce) p i m = Inr (nonce @ AEAD_Seal sl (SessionKey p i) nonce m)"
    and "DecryptFromPeer sl q j (nonce @ AEAD_Seal sl (SessionKey p i) nonce m) = Inr m"
  using assms by (simp_all add: EncryptForPeer_def DecryptFromPeer_def aead_correct_def)

text \<open>An authenticated cipher does not open under one key what was sealed under another.\<close>

definition aead_rejects :: "session_lib \<Rightarrow> bool" where
  "aead_rejects sl \<longleftrightarrow> (\<forall>k k' nonce m. length k = KeySize \<longrightarrow> length k' = KeySize \<longrightarrow> length nonce = NonceSize \<longrightarrow>
     k \<noteq> k' \<longrightarrow> (\<exists>e. AEAD_Open sl k' nonce (AEAD_Seal sl k nonce m) = Inl e))"


text \<open>The nodes a run of the handlers can lead to, whatever the other sides send. An answering
  handler stores its secret at any later time.\<close>

inductive reachable_p2p :: "kyber \<Rightarrow> session_lib \<Rightarrow> p2p \<Rightarrow> bool" for ky sl where
  fresh: "reachable_p2p ky sl \<lparr>p2p_sessions = Map.empty\<rparr>"
| answered: "reachable_p2p ky sl p \<Longrightarrow> kyber_answer ky coins hello = Safe (out, Some ss) \<Longrightarrow>
    reachable_p2p ky sl (storeSession sl i ss p)"
| finished: "reachable_p2p ky sl p \<Longrightarrow> initiate_finish ky sl i sk reply p = Safe p' \<Longrightarrow>
    reachable_p2p ky sl p'"

lemma storeSession_sized:
  assumes "hkdf_fills sl" and "\<forall>i k. p2p_sessions p i = Some k \<longrightarrow> length k = KeySize"
  shows "\<forall>i k. p2p_sessions (storeSession sl j ss p) i = Some k \<longrightarrow> length k = KeySize"
  using assms by (auto simp: storeSession_def hkdf_fills_def split: sum.splits)

lemma handleKyberStream_reachable:
  assumes "reachable_p2p ky sl p" and "handleKyberStream ky sl coins i hello p = Safe (out, p')"
  shows "reachable_p2p ky sl p'"
  using assms by (auto simp: handleKyberStream_def split: prod.splits c_call.splits option.splits
      intro: reachable_p2p.answered)

lemma initiate_finish_cases:
  assumes "initiate_finish ky sl i sk reply p = Safe p'"
  shows "p' = p \<or> (\<exists>ss. p' = storeSession sl i ss p)"
  using assms by (auto simp: initiate_finish_def split: sum.splits prod.splits c_call.splits)

lemma reachable_p2p_sized:
  assumes "hkdf_fills sl" and "reachable_p2p ky sl p"
  shows "\<forall>i k. p2p_sessions p i = Some k \<longrightarrow> length k = KeySize"
  using assms(2)
proof (induction rule: reachable_p2p.induct)
  case (answered p coins hello out ss i)
  then show ?case using storeSession_sized [OF assms(1)] by blast
next
  case (finished p i sk reply p')
  then show ?case
    using initiate_finish_cases [OF finished.hyps(2)] storeSession_sized [OF assms(1)] by blast
qed simp

section \<open>Properties\<close>

text \<open>Property C34. Frames: what \<open>writeBytes\<close> writes of up to 2^16 - 1 bytes is read back exactly and
  leaves the rest of the stream alone. It accepts up to 2^20 bytes, but the length has two bytes, so
  of a longer message only the remainder of its length by 2^16 is read, or an error when that is
  zero, and the rest stays in the stream to be taken for the next frame.\<close>

theorem frames_are_read_modulo_64k:
  assumes "writeBytes append_write w b = Inr w'"
  shows "\<exists>fr. w' = w @ fr \<and> readBytes (fr @ rest)
    = (if 0 < length b \<and> length b < 2 ^ 16 then Inr (b, rest)
       else if length b mod 2 ^ 16 = 0 then Inl ''invalid size''
       else Inr (take (length b mod 2 ^ 16) b, drop (length b mod 2 ^ 16) b @ rest))"
proof -
  from assms have "w' = w @ frame b" by (simp add: writeBytes_append frame_def)
  moreover have "readBytes (frame b @ rest)
    = (if 0 < length b \<and> length b < 2 ^ 16 then Inr (b, rest)
       else if length b mod 2 ^ 16 = 0 then Inl ''invalid size''
       else Inr (take (length b mod 2 ^ 16) b, drop (length b mod 2 ^ 16) b @ rest))"
    using read_frame [of b rest] by (auto simp: frame_def Let_def)
  ultimately show ?thesis by blast
qed

lemma frames_are_read_modulo_64k_witness:
  "\<exists>fr. [9, 0, 2, 7, 8] = [9] @ fr \<and> readBytes (fr @ [5]) = Inr ([7, 8], [5])"
proof -
  have "writeBytes append_write [9] [7, 8] = Inr [9, 0, 2, 7, 8]"
    by (simp add: writeBytes_append drop_bit_eq_div)
  from frames_are_read_modulo_64k [OF this, of "[5]"] show ?thesis by simp
qed

text \<open>Property C35. Session keys: in every node the handlers can lead to, whatever its peers send, each
  session key has the 32 bytes the cipher wants, so encryption for a peer fails exactly when there
  is no session with it.\<close>

theorem sessions_are_keys:
  assumes "hkdf_fills sl" and "reachable_p2p ky sl p"
  shows "EncryptForPeer sl (Inr nonce) p i m
    = (case p2p_sessions p i of
         None \<Rightarrow> Inl ''missing session key''
       | Some k \<Rightarrow> Inr (nonce @ AEAD_Seal sl k nonce m))"
  using reachable_p2p_sized [OF assms]
  by (auto simp: EncryptForPeer_def SessionKey_def KeySize_def split: option.split)

text \<open>Property C20. Agreement: when the C code succeeds, a handshake whose messages are delivered leaves
  the same 32-byte key on both sides, replacing any older one, and what either side encrypts for the
  other the other decrypts.\<close>

theorem handshake_agrees:
  assumes kem: "kem_sizes kc" "kem_correct kc" and lib: "hkdf_fills sl" "aead_correct sl"
    and ok: "kem_keypair kc coins = (0, pk, sk)" "kem_enc kc coins' pk = (0, ct, ss)"
  shows "\<exists>hello reply pA' pB'.
    initiate_hello (kyber_cgo kc) coins = Inr (sk, hello)
    \<and> handleKyberStream (kyber_cgo kc) sl coins' a hello pB = Safe (reply, pB')
    \<and> initiate_finish (kyber_cgo kc) sl b sk reply pA = Safe pA'
    \<and> SessionKey pA' b = SessionKey pB' a \<and> length (SessionKey pA' b) = 32
    \<and> (\<forall>nonce m. length nonce = 12 \<longrightarrow>
         (\<exists>c. EncryptForPeer sl (Inr nonce) pA' b m = Inr c \<and> DecryptFromPeer sl pB' a c = Inr m)
       \<and> (\<exists>c. EncryptForPeer sl (Inr nonce) pB' a m = Inr c \<and> DecryptFromPeer sl pA' b c = Inr m))"
proof -
  from lib(1) obtain k where k: "derive sl ss = Inr k" "length k = KeySize"
    unfolding hkdf_fills_def by blast
  let ?A = "storeSession sl b ss pA" and ?B = "storeSession sl a ss pB"
  have keys: "SessionKey ?A b = k" "SessionKey ?B a = k" using k(1) by (simp_all add: storeSession_key)
  have both: "(\<exists>c. EncryptForPeer sl (Inr nonce) ?A b m = Inr c \<and> DecryptFromPeer sl ?B a c = Inr m)
       \<and> (\<exists>c. EncryptForPeer sl (Inr nonce) ?B a m = Inr c \<and> DecryptFromPeer sl ?A b c = Inr m)"
    if "length nonce = 12" for nonce m
    using seal_open [OF lib(2), of nonce ?B a ?A b m] seal_open [OF lib(2), of nonce ?A b ?B a m]
      that keys k(2) by (auto simp: NonceSize_def)
  show ?thesis
    using handshake_steps(1) [OF kem ok] handshake_steps(2) [OF kem ok, of sl a pB]
      handshake_steps(3) [OF kem ok, of sl b pA] both keys k(2)
    by (intro exI [of _ "frame pk"] exI [of _ "frame ct"] exI [of _ ?A] exI [of _ ?B])
      (simp add: KeySize_def)
qed


text \<open>Property C36. Memory safety of the handler: with cgo, the answering side passes the public key it
  received to the C code having checked only that it is not empty. Any framed key of 1 to 1183 bytes
  makes the C code read beyond the slice, and nothing else a peer can frame does.\<close>

theorem short_public_keys_are_read_out_of_bounds:
  assumes "0 < length pk" and "length pk < 2 ^ 16"
  shows "handleKyberStream (kyber_cgo kc) sl coins i (frame pk) p = OutOfBounds \<longleftrightarrow> length pk < 1184"
proof -
  have rd: "readBytes (frame pk) = Inr (pk, [])"
    using read_small_frame [OF assms(1,2), of "[]"] by simp
  show ?thesis
  proof (cases "EncapsulateKyber768 (kyber_cgo kc) coins pk")
    case OutOfBounds
    with rd show ?thesis using cgo_encapsulate_bounds [of kc coins pk]
      by (simp add: handleKyberStream_def kyber_answer_def kyber_lens)
  next
    case (Safe r)
    then have "1184 \<le> length pk"
      using cgo_encapsulate_bounds [of kc coins pk] assms(1) by (auto simp: kyber_lens)
    with rd Safe show ?thesis
      by (auto simp: handleKyberStream_def kyber_answer_def split: sum.split prod.split)
  qed
qed

section \<open>A concrete session library\<close>

text \<open>Instances for the witnesses: a key encapsulation whose secret is the sum of one byte of each
  side, and a cipher that only prepends the key.\<close>

definition first_byte :: "bytes \<Rightarrow> u8" where
  "first_byte b = (case b of [] \<Rightarrow> 0 | x # _ \<Rightarrow> x)"

definition toy_kyber :: kyber_c where
  "toy_kyber =
     \<lparr>kem_keypair = (\<lambda>coins. (0, replicate 1184 (first_byte coins), replicate 2400 (first_byte coins))),
      kem_enc = (\<lambda>coins pk. (0, replicate 1088 (first_byte coins),
        replicate 32 (first_byte pk + first_byte coins))),
      kem_dec = (\<lambda>ct sk. (0, replicate 32 (first_byte sk + first_byte ct)))\<rparr>"

definition toy_session_lib :: session_lib where
  "toy_session_lib =
     \<lparr>AEAD_Seal = (\<lambda>k nonce m. k @ m),
      AEAD_Open = (\<lambda>k nonce c. if take (length k) c = k then Inr (drop (length k) c) else Inl ''authentication failed''),
      HKDF = (\<lambda>ss info n. Inr (take n (ss @ replicate n 0)))\<rparr>"

lemma first_byte_replicate: "first_byte (replicate n x) = (if n = 0 then 0 else x)"
  by (cases n) (simp_all add: first_byte_def)

lemma toy_kyber_ok: "kem_sizes toy_kyber" "kem_correct toy_kyber"
  by (auto simp: kem_sizes_def kem_correct_def toy_kyber_def kyber_lens first_byte_replicate)

lemma toy_session_ok:
  "hkdf_fills toy_session_lib" "aead_correct toy_session_lib" "aead_rejects toy_session_lib"
  by (auto simp: hkdf_fills_def aead_correct_def aead_rejects_def toy_session_lib_def)

lemma toy_runs:
  "kem_keypair toy_kyber [x] = (0, replicate 1184 x, replicate 2400 x)"
  "kem_enc toy_kyber [y] (replicate 1184 x) = (0, replicate 1088 y, replicate 32 (x + y))"
  by (simp_all add: toy_kyber_def first_byte_replicate) (simp_all add: first_byte_def)

lemma toy_derive: "HKDF toy_session_lib (replicate 32 x) info 32 = Inr (replicate 32 x)"
  by (simp add: toy_session_lib_def)

lemma sessions_are_keys_witness:
  "\<exists>p out. handleKyberStream (kyber_cgo toy_kyber) toy_session_lib [4] ''a'' (frame (replicate 1184 3))
       \<lparr>p2p_sessions = Map.empty\<rparr> = Safe (out, p)
     \<and> EncryptForPeer toy_session_lib (Inr [1]) p ''a'' [2] = Inr ([1] @ replicate 32 7 @ [2])
     \<and> EncryptForPeer toy_session_lib (Inr [1]) p ''b'' [2] = Inl ''missing session key''"
proof -
  let ?p = "storeSession toy_session_lib ''a'' (replicate 32 7) \<lparr>p2p_sessions = Map.empty\<rparr>"
  have run: "handleKyberStream (kyber_cgo toy_kyber) toy_session_lib [4] ''a'' (frame (replicate 1184 3))
      \<lparr>p2p_sessions = Map.empty\<rparr> = Safe (frame (replicate 1088 4), ?p)"
    using handshake_steps(2) [OF toy_kyber_ok toy_runs(1) [of 3] toy_runs(2) [of 4 3]] by simp
  have sessions: "p2p_sessions ?p = [''a'' \<mapsto> replicate 32 7]"
    using toy_derive by (simp add: storeSession_def KeySize_def)
  note keys = sessions_are_keys [OF toy_session_ok(1) handleKyberStream_reachable [OF reachable_p2p.fresh run],
      of "[1]" _ "[2]", unfolded sessions]
  have "AEAD_Seal toy_session_lib k n m = k @ m" for k n m by (simp add: toy_session_lib_def)
  with keys [of "''a''"] keys [of "''b''"] run show ?thesis by auto
qed

lemma handshake_agrees_witness:
  "\<exists>hello reply pA' pB'. initiate_hello (kyber_cgo toy_kyber) [3] = Inr (replicate 2400 3, hello)
    \<and> handleKyberStream (kyber_cgo toy_kyber) toy_session_lib [4] ''a'' hello \<lparr>p2p_sessions = Map.empty\<rparr>
        = Safe (reply, pB')
    \<and> initiate_finish (kyber_cgo toy_kyber) toy_session_lib ''b'' (replicate 2400 3) reply \<lparr>p2p_sessions = Map.empty\<rparr>
        = Safe pA'
    \<and> SessionKey pA' ''b'' = SessionKey pB' ''a''"
  using handshake_agrees [OF toy_kyber_ok toy_session_ok(1,2) toy_runs(1) [of 3] toy_runs(2) [of 4 3],
      of "''a''" "\<lparr>p2p_sessions = Map.empty\<rparr>" "''b''" "\<lparr>p2p_sessions = Map.empty\<rparr>"]
  by blast


lemma short_public_keys_are_read_out_of_bounds_witness:
  "handleKyberStream (kyber_cgo toy_kyber) toy_session_lib [1] ''a'' (frame [7]) \<lparr>p2p_sessions = Map.empty\<rparr>
     = OutOfBounds"
  using short_public_keys_are_read_out_of_bounds [of "[7]" toy_kyber toy_session_lib "[1]" "''a''"
      "\<lparr>p2p_sessions = Map.empty\<rparr>"] by simp

end
