(* ===== verification/Genesis.thy ===== *)
theory Genesis
  imports Types RC Native
begin

text \<open>
  Configuration and genesis, \<open>pkg/config/config.go\<close>, \<open>io.go\<close>, \<open>pkg/genesis/genesis.go\<close> and the key
  files of \<open>pkg/crypto/keystore.go\<close>: the structs with their defaults, the validation of a genesis,
  and how they are saved to files and loaded again.

  A \<open>time.Duration\<close> is its \<open>int64\<close> of nanoseconds, a Go \<open>int\<close> an integer. The genesis time is only
  ever read with \<open>Unix()\<close>, so the model keeps those seconds. The operating system and the JSON and
  base64 codecs of Go's library are the record \<open>files\<close> over file systems \<open>'fs\<close>.
\<close>

section \<open>Files\<close>

record key_file =
  kf_PublicKey :: string
  kf_PrivateKey :: string

text \<open>\<open>os.ReadFile\<close>, \<open>os.WriteFile\<close>, \<open>os.MkdirAll\<close>, \<open>filepath.Join\<close>, and base64.\<close>

record 'fs files =
  os_ReadFile :: "'fs \<Rightarrow> string \<Rightarrow> error + bytes"
  os_WriteFile :: "'fs \<Rightarrow> string \<Rightarrow> bytes \<Rightarrow> error + 'fs"
  os_MkdirAll :: "'fs \<Rightarrow> string \<Rightarrow> error + 'fs"
  path_Join :: "string list \<Rightarrow> string"
  base64_Encode :: "bytes \<Rightarrow> string"
  base64_Decode :: "string \<Rightarrow> error + bytes"

text \<open>\<open>json.MarshalIndent\<close> and \<open>json.Unmarshal\<close> at one type.\<close>

record 'a json =
  json_Marshal :: "'a \<Rightarrow> error + bytes"
  json_Unmarshal :: "bytes \<Rightarrow> error + 'a"

text \<open>What is relied on: a file reads as it was written, writing one file or making a directory
  changes no other file, and the codecs undo their encoding.\<close>

definition files_ok :: "'fs files \<Rightarrow> bool" where
  "files_ok os \<longleftrightarrow>
     (\<forall>fs path data fs'. os_WriteFile os fs path data = Inr fs' \<longrightarrow> os_ReadFile os fs' path = Inr data) \<and>
     (\<forall>fs path data fs' other. os_WriteFile os fs path data = Inr fs' \<longrightarrow> other \<noteq> path \<longrightarrow>
        os_ReadFile os fs' other = os_ReadFile os fs other) \<and>
     (\<forall>b. base64_Decode os (base64_Encode os b) = Inr b)"

definition json_ok :: "'a json \<Rightarrow> bool" where
  "json_ok js \<longleftrightarrow> (\<forall>x b. json_Marshal js x = Inr b \<longrightarrow> json_Unmarshal js b = Inr x)"

text \<open>\<open>config.Save\<close> and \<open>config.Load\<close>, and the tail of the other writers and readers.\<close>

definition save_json :: "'fs files \<Rightarrow> 'a json \<Rightarrow> string \<Rightarrow> 'a \<Rightarrow> 'fs \<Rightarrow> error + 'fs" where
  "save_json os js path x fs = bind_err (json_Marshal js x) (\<lambda>data. os_WriteFile os fs path data)"

definition load_json :: "'fs files \<Rightarrow> 'a json \<Rightarrow> string \<Rightarrow> 'fs \<Rightarrow> error + 'a" where
  "load_json os js path fs = bind_err (os_ReadFile os fs path) (\<lambda>data. json_Unmarshal js data)"

lemma load_saved:
  "files_ok os \<Longrightarrow> json_ok js \<Longrightarrow> save_json os js path x fs = Inr fs' \<Longrightarrow> load_json os js path fs' = Inr x"
  by (auto simp: files_ok_def json_ok_def save_json_def load_json_def)

lemma load_other:
  "files_ok os \<Longrightarrow> save_json os js path x fs = Inr fs' \<Longrightarrow> other \<noteq> path \<Longrightarrow>
     load_json os js' other fs' = load_json os js' other fs"
  by (auto simp: files_ok_def save_json_def load_json_def)

section \<open>Key files\<close>

text \<open>The Dilithium and the Ed25519 functions differ in the type of the key pair only.\<close>

definition SaveKeyPair :: "'fs files \<Rightarrow> key_file json \<Rightarrow> string \<Rightarrow> key_pair option \<Rightarrow> 'fs \<Rightarrow> error + 'fs" where
  "SaveKeyPair os js path kp fs =
     (case kp of
        None \<Rightarrow> Inl ''keypair is nil''
      | Some k \<Rightarrow> save_json os js path
          \<lparr>kf_PublicKey = base64_Encode os (kp_PublicKey k), kf_PrivateKey = base64_Encode os (kp_PrivateKey k)\<rparr> fs)"

definition LoadKeyPair :: "'fs files \<Rightarrow> key_file json \<Rightarrow> string \<Rightarrow> 'fs \<Rightarrow> error + key_pair" where
  "LoadKeyPair os js path fs =
     bind_err (load_json os js path fs) (\<lambda>data.
     bind_err (base64_Decode os (kf_PublicKey data)) (\<lambda>pub.
     bind_err (base64_Decode os (kf_PrivateKey data)) (\<lambda>priv.
     Inr \<lparr>kp_PublicKey = pub, kp_PrivateKey = priv\<rparr>)))"

definition SaveEd25519 ::
  "'fs files \<Rightarrow> key_file json \<Rightarrow> string \<Rightarrow> ed25519_key_pair option \<Rightarrow> 'fs \<Rightarrow> error + 'fs"
where
  "SaveEd25519 os js path kp fs =
     (case kp of
        None \<Rightarrow> Inl ''keypair is nil''
      | Some k \<Rightarrow> save_json os js path
          \<lparr>kf_PublicKey = base64_Encode os (ed_PublicKey k), kf_PrivateKey = base64_Encode os (ed_PrivateKey k)\<rparr> fs)"

definition LoadEd25519 :: "'fs files \<Rightarrow> key_file json \<Rightarrow> string \<Rightarrow> 'fs \<Rightarrow> error + ed25519_key_pair" where
  "LoadEd25519 os js path fs =
     bind_err (load_json os js path fs) (\<lambda>data.
     bind_err (base64_Decode os (kf_PublicKey data)) (\<lambda>pub.
     bind_err (base64_Decode os (kf_PrivateKey data)) (\<lambda>priv.
     Inr \<lparr>ed_PublicKey = pub, ed_PrivateKey = priv\<rparr>)))"

lemma load_saved_keys:
  assumes "files_ok os" and "json_ok js"
  shows "SaveKeyPair os js path (Some k) fs = Inr fs' \<Longrightarrow> LoadKeyPair os js path fs' = Inr k"
    and "SaveEd25519 os js path (Some e) fs = Inr fs' \<Longrightarrow> LoadEd25519 os js path fs' = Inr e"
  using assms load_saved [OF assms]
  by (simp_all add: SaveKeyPair_def LoadKeyPair_def SaveEd25519_def LoadEd25519_def files_ok_def)

section \<open>Configuration\<close>

record p2p_config =
  p2c_ListenAddr :: string
  p2c_MaxConnInbound :: u16
  p2c_MaxConnOutbound :: u16
  p2c_MaxPeers :: u16
  p2c_PersistentPeers :: string
  p2c_Seeds :: string
  p2c_PrivateKeyFile :: string
  p2c_BootstrapPeers :: "string list"

record rpc_config =
  rpc_Addr :: string
  rpc_Port :: u16
  rpc_MaxBodyBytes :: i64
  rpc_MaxOpenConnections :: int

record consensus_params =
  cp_TimeoutPropose :: i64
  cp_TimeoutPrevote :: i64
  cp_TimeoutPrecommit :: i64
  cp_TimeoutCommit :: i64
  cp_MinStake :: u64
  cp_MaxValidators :: u32
  cp_EpochLength :: u64
  cp_BlockReward :: u64
  cp_UnbondingPeriod :: u64
  cp_SlashDoubleBps :: u64
  cp_JailDouble :: u64
  cp_SlashOfflineBps :: u64
  cp_JailOffline :: u64

record validator_config =
  vc_Enabled :: bool
  vc_PrivateKeyFile :: string
  vc_OperatorAddress :: string
  vc_Stake :: u64
  vc_Commission :: u16

record rc_config =
  rcc_Alpha :: u64
  rcc_Beta :: u64
  rcc_CSize :: u64
  rcc_CCompute :: u64
  rcc_CStorage :: u64
  rcc_MaxSkewSec :: i64
  rcc_WindowN :: int

record governance_config =
  gc_VotingPeriodEpochs :: u64
  gc_QuorumPercent :: u64
  gc_ThresholdPercent :: u64
  gc_TimelockEpochs :: u64

record node_config =
  nc_Moniker :: string
  nc_ChainID :: string
  nc_HomeDir :: string
  nc_LogLevel :: string
  nc_LogFormat :: string
  nc_P2P :: p2p_config
  nc_RPC :: rpc_config
  nc_Consensus :: consensus_params
  nc_Validator :: validator_config
  nc_RC :: rc_config
  nc_Governance :: governance_config

definition Second :: i64 where
  "Second = 1000000000"

definition DefaultConfig :: node_config where
  "DefaultConfig =
     \<lparr>nc_Moniker = ''opencoin-node'',
      nc_ChainID = ''opencoin-1'',
      nc_HomeDir = ''$HOME/.opencoin'',
      nc_LogLevel = ''info'',
      nc_LogFormat = ''json'',
      nc_P2P = \<lparr>p2c_ListenAddr = ''0.0.0.0:26656'', p2c_MaxConnInbound = 100, p2c_MaxConnOutbound = 32,
        p2c_MaxPeers = 200, p2c_PersistentPeers = [], p2c_Seeds = [],
        p2c_PrivateKeyFile = ''config/node_key.json'', p2c_BootstrapPeers = []\<rparr>,
      nc_RPC = \<lparr>rpc_Addr = ''0.0.0.0'', rpc_Port = 26657, rpc_MaxBodyBytes = 1000000,
        rpc_MaxOpenConnections = 900\<rparr>,
      nc_Consensus = \<lparr>cp_TimeoutPropose = 3 * Second, cp_TimeoutPrevote = 1 * Second,
        cp_TimeoutPrecommit = 1 * Second, cp_TimeoutCommit = 1 * Second, cp_MinStake = 100000000,
        cp_MaxValidators = 100, cp_EpochLength = 10000, cp_BlockReward = 1000000,
        cp_UnbondingPeriod = 259200, cp_SlashDoubleBps = 500, cp_JailDouble = 10,
        cp_SlashOfflineBps = 10, cp_JailOffline = 2\<rparr>,
      nc_Validator = \<lparr>vc_Enabled = False, vc_PrivateKeyFile = ''config/validator_key.json'',
        vc_OperatorAddress = [], vc_Stake = 1000000000, vc_Commission = 1000\<rparr>,
      nc_RC = \<lparr>rcc_Alpha = 1000, rcc_Beta = 1, rcc_CSize = 1, rcc_CCompute = 1, rcc_CStorage = 50,
        rcc_MaxSkewSec = 30, rcc_WindowN = 11\<rparr>,
      nc_Governance = \<lparr>gc_VotingPeriodEpochs = 2, gc_QuorumPercent = 33, gc_ThresholdPercent = 50,
        gc_TimelockEpochs = 1\<rparr>\<rparr>"

definition Config_Save :: "'fs files \<Rightarrow> node_config json \<Rightarrow> string \<Rightarrow> node_config \<Rightarrow> 'fs \<Rightarrow> error + 'fs" where
  "Config_Save os js path cfg fs = save_json os js path cfg fs"

definition Config_Load :: "'fs files \<Rightarrow> node_config json \<Rightarrow> string \<Rightarrow> 'fs \<Rightarrow> error + node_config" where
  "Config_Load os js path fs = load_json os js path fs"

section \<open>Genesis\<close>

record genesis_validator =
  gv_OperatorAddress :: address
  gv_ConsensusPubKey :: bytes
  gv_Stake :: u64
  gv_Commission :: u16

record genesis_account =
  ga_Address :: address
  ga_Balance :: u64
  ga_Stake :: u64

record genesis =
  gen_ChainID :: string
  gen_GenesisTime :: i64
  gen_RCParams :: params
  gen_MinStake :: u64
  gen_Validators :: "genesis_validator list"
  gen_Accounts :: "genesis_account list"

text \<open>\<open>now\<close> is \<open>time.Now().UTC()\<close>.\<close>

definition DefaultGenesis :: "i64 \<Rightarrow> genesis" where
  "DefaultGenesis now =
     \<lparr>gen_ChainID = ''opencoin-1'', gen_GenesisTime = now,
      gen_RCParams = \<lparr>Alpha = 1000, Beta = 1, CSize = 1, CCompute = 1, CStorage = 50,
        MaxSkewSec = 30, WindowN = 11\<rparr>,
      gen_MinStake = 1000000, gen_Validators = [], gen_Accounts = []\<rparr>"

text \<open>The loop over the validators.\<close>

fun validate_validators :: "crypto_lib \<Rightarrow> u64 \<Rightarrow> genesis_validator list \<Rightarrow> error + unit" where
  "validate_validators cl minStake [] = Inr ()"
| "validate_validators cl minStake (v # vs) =
     guard_err (gv_Stake v < minStake) ''validator stake below minimum''
    (guard_err (gv_OperatorAddress v = []) ''validator missing operator address''
    (case DecodeAddress cl (gv_OperatorAddress v) of
       Inl _ \<Rightarrow> Inl ''invalid operator address''
     | Inr _ \<Rightarrow>
         guard_err (gv_ConsensusPubKey v = []) ''validator missing consensus pubkey''
           (validate_validators cl minStake vs)))"

definition Genesis_Validate :: "crypto_lib \<Rightarrow> genesis \<Rightarrow> error + unit" where
  "Genesis_Validate cl g =
     guard_err (gen_ChainID g = []) ''chain_id required''
    (bind_err (ValidateGenesis (gen_RCParams g)) (\<lambda>_.
     guard_err (gen_MinStake g < 1000000 \<or> 1000000000000000000 < gen_MinStake g)
       ''min_validator_stake out of bounds''
    (validate_validators cl (gen_MinStake g) (gen_Validators g))))"

definition Genesis_Save ::
  "crypto_lib \<Rightarrow> 'fs files \<Rightarrow> genesis json \<Rightarrow> string \<Rightarrow> genesis \<Rightarrow> 'fs \<Rightarrow> error + 'fs"
where
  "Genesis_Save cl os js path g fs =
     bind_err (Genesis_Validate cl g) (\<lambda>_.
     bind_err (json_Marshal js g) (\<lambda>data. os_WriteFile os fs path data))"

definition Genesis_Load :: "crypto_lib \<Rightarrow> 'fs files \<Rightarrow> genesis json \<Rightarrow> string \<Rightarrow> 'fs \<Rightarrow> error + genesis" where
  "Genesis_Load cl os js path fs =
     bind_err (os_ReadFile os fs path) (\<lambda>data.
     bind_err (json_Unmarshal js data) (\<lambda>g.
     bind_err (Genesis_Validate cl g) (\<lambda>_. Inr g)))"

section \<open>Lemmas\<close>

lemma validate_validators_ok:
  "validate_validators cl minStake vs = Inr () \<longleftrightarrow>
     (\<forall>v \<in> set vs. minStake \<le> gv_Stake v \<and> gv_OperatorAddress v \<noteq> [] \<and>
        (\<exists>h. DecodeAddress cl (gv_OperatorAddress v) = Inr h) \<and> gv_ConsensusPubKey v \<noteq> [])"
proof (induction vs)
  case (Cons v vs)
  then show ?case by (auto split: sum.splits simp: not_less)
qed simp

lemma default_genesis_valid [simp]: "Genesis_Validate cl (DefaultGenesis now) = Inr ()"
  by (simp add: Genesis_Validate_def DefaultGenesis_def ValidateGenesis_def within_bounds_def
      word_less_nat_alt word_le_nat_alt word_sless_alt)

lemma Genesis_Save_json:
  "Genesis_Save cl os js path g fs = Inr fs' \<longleftrightarrow>
     Genesis_Validate cl g = Inr () \<and> save_json os js path g fs = Inr fs'"
  by (auto simp: Genesis_Save_def save_json_def)

lemma Genesis_Load_json:
  "Genesis_Load cl os js path fs = Inr g \<longleftrightarrow>
     load_json os js path fs = Inr g \<and> Genesis_Validate cl g = Inr ()"
  by (auto simp: Genesis_Load_def load_json_def)

section \<open>Properties\<close>

text \<open>Property. A genesis that was saved loads again as it was, and what loads, however the file
  came to be, has parameters in their bounds and validators with a decodable address, a key and
  at least the minimum stake.\<close>

theorem genesis_files_are_validated:
  assumes "files_ok os" and "json_ok js"
  shows "(Genesis_Save cl os js path g fs = Inr fs' \<longrightarrow> Genesis_Load cl os js path fs' = Inr g)
    \<and> (Genesis_Load cl os js path fs = Inr g \<longrightarrow>
         gen_ChainID g \<noteq> [] \<and> 1000000 \<le> gen_MinStake g \<and> gen_MinStake g \<le> 10 ^ 18
         \<and> 1 \<le> Alpha (gen_RCParams g) \<and> 1 \<le> CSize (gen_RCParams g) \<and> 1 \<le> WindowN (gen_RCParams g)
         \<and> (\<forall>v \<in> set (gen_Validators g). gen_MinStake g \<le> gv_Stake v \<and> gv_ConsensusPubKey v \<noteq> []
              \<and> (\<exists>h. DecodeAddress cl (gv_OperatorAddress v) = Inr h)))"
proof (intro conjI impI)
  assume "Genesis_Save cl os js path g fs = Inr fs'"
  then show "Genesis_Load cl os js path fs' = Inr g"
    by (auto simp: Genesis_Save_json Genesis_Load_json intro: load_saved [OF assms])
qed (auto simp: Genesis_Load_json Genesis_Validate_def ValidateGenesis_def within_bounds_def
    validate_validators_ok not_less)

text \<open>Instances for the witnesses: files in memory, and a codec of one value.\<close>

fun join_slash :: "string list \<Rightarrow> string" where
  "join_slash [] = []"
| "join_slash [x] = x"
| "join_slash (x # y # zs) = x @ ''/'' @ join_slash (y # zs)"

definition memory_files :: "(string \<rightharpoonup> bytes) files" where
  "memory_files =
     \<lparr>os_ReadFile = (\<lambda>fs path. case fs path of None \<Rightarrow> Inl ''no such file'' | Some b \<Rightarrow> Inr b),
      os_WriteFile = (\<lambda>fs path b. Inr (fs(path \<mapsto> b))),
      os_MkdirAll = (\<lambda>fs path. Inr fs),
      path_Join = join_slash,
      base64_Encode = string_of,
      base64_Decode = (\<lambda>s. Inr (bytes_of s))\<rparr>"

definition json_of :: "'a \<Rightarrow> 'a json" where
  "json_of x =
     \<lparr>json_Marshal = (\<lambda>y. if y = x then Inr [1] else Inl ''unsupported value''),
      json_Unmarshal = (\<lambda>b. if b = [1] then Inr x else Inl ''invalid character'')\<rparr>"

lemma memory_files_ok: "files_ok memory_files"
  by (auto simp: files_ok_def memory_files_def)

lemma memory_files_simps [simp]:
  "os_MkdirAll memory_files fs path = Inr fs"
  "save_json memory_files (json_of x) path x fs = Inr (fs(path \<mapsto> [1]))"
  "Genesis_Validate cl g = Inr () \<Longrightarrow>
     Genesis_Save cl memory_files (json_of g) path g fs = Inr (fs(path \<mapsto> [1]))"
  by (simp_all add: memory_files_def json_of_def save_json_def Genesis_Save_def)

lemma json_of_ok: "json_ok (json_of x)"
  by (auto simp: json_ok_def json_of_def)

text \<open>Of the cryptographic library only the address decoder is asked.\<close>

definition sample_addresses :: crypto_lib where
  "sample_addresses = \<lparr>Sum256 = (\<lambda>b. b), Ed25519Verify = (\<lambda>pk msg sg. False), Ed25519Sign = (\<lambda>sk msg. []),
     ConvertBits = (\<lambda>b from_bits to_bits pad. Inr b), Bech32Encode = (\<lambda>hrp b. Inr (hrp @ string_of b)),
     Bech32Decode = (\<lambda>s. Inr (take 3 s, bytes_of (drop 3 s)))\<rparr>"

lemma genesis_files_are_validated_witness:
  "\<exists>fs'. Genesis_Save sample_addresses memory_files (json_of (DefaultGenesis 7)) ''g'' (DefaultGenesis 7) Map.empty = Inr fs'
     \<and> Genesis_Load sample_addresses memory_files (json_of (DefaultGenesis 7)) ''g'' fs' = Inr (DefaultGenesis 7)"
proof -
  obtain fs' where "Genesis_Save sample_addresses memory_files (json_of (DefaultGenesis 7)) ''g'' (DefaultGenesis 7)
      Map.empty = Inr fs'"
    by (simp add: Genesis_Save_def memory_files_def json_of_def)
  then show ?thesis
    using genesis_files_are_validated [OF memory_files_ok json_of_ok] by blast
qed

end
