(* ===== verification/Node.thy ===== *)
theory Node
  imports Genesis Finality Sample
begin

text \<open>
  The node, \<open>pkg/node/node.go\<close>: how \<open>Start\<close> opens the store, loads the genesis, builds the state,
  the contract engine, the validators, the mempool and, for a validator, the consensus engine.

  What the node gets from its host is the record \<open>host\<close>: the libraries of the other theories, the
  files and codecs, the order in which Go's \<open>range\<close> visits the validators, \<open>net.SplitHostPort\<close>, and
  whether the libp2p host comes up. A database is opened by its path. \<open>Start\<close> returns the database
  as it left it, also when it fails. The HTTP server and \<open>Stop\<close> are left out; \<open>n.store\<close> and the
  store of \<open>n.state\<close> are one, kept in the state.
\<close>

section \<open>Definitions\<close>

record ('kv, 'r, 'c, 'm, 'fs) host =
  ho_libs :: "('kv, 'r, 'c, 'm) libs"
  ho_runtime :: 'r
  ho_dilithium :: dilithium
  ho_files :: "'fs files"
  ho_genesis_json :: "genesis json"
  ho_key_json :: "key_file json"
  ho_config_json :: "node_config json"
  ho_open :: "string \<Rightarrow> error + 'kv"
  ho_order :: "address list"
  ho_SplitHostPort :: "string \<Rightarrow> error + (string \<times> string)"
  ho_p2p_New :: "string list \<Rightarrow> string list \<Rightarrow> error + unit"

record ('kv, 'r, 'c, 'm) node =
  nd_cfg :: node_config
  nd_state :: "'kv state"
  nd_contracts :: "('r, 'c, 'm) contract_engine"
  nd_mempool :: mempool
  nd_coster :: "('r, 'c, 'm) coster"
  nd_dpos :: dpos
  nd_consensus :: "('kv, 'r, 'c, 'm) engine option"
  nd_genesis :: genesis

definition OpenStore :: "('kv, 'r, 'c, 'm, 'fs) host \<Rightarrow> string \<Rightarrow> error + 'kv" where
  "OpenStore H home = wrap_err ''open pebble: '' (ho_open H (path_Join (ho_files H) [home, ''state'']))"

definition toMultiaddr :: "(string \<Rightarrow> error + (string \<times> string)) \<Rightarrow> string \<Rightarrow> string" where
  "toMultiaddr SplitHostPort addr =
     (if take 1 addr = ''/'' then addr
      else case SplitHostPort addr of
             Inl _ \<Rightarrow> ''/ip4/0.0.0.0/tcp/26656''
           | Inr (host, port) \<Rightarrow> ''/ip4/'' @ host @ ''/tcp/'' @ port)"

text \<open>The three parts of \<open>applyGenesis\<close>. The accounts go to the database one by one.\<close>

definition genesis_state_account :: "params \<Rightarrow> genesis_account \<Rightarrow> account" where
  "genesis_state_account rcp a =
     (zero_account (ga_Address a))
       \<lparr>acct_Balance := ga_Balance a, acct_Stake := ga_Stake a, acct_RC := 0,
        acct_RCMax := RCMax rcp (ga_Stake a)\<rparr>"

fun init_accounts ::
  "('kv, 'r, 'c, 'm) libs \<Rightarrow> params \<Rightarrow> genesis_account list \<Rightarrow> 'kv \<Rightarrow> 'kv \<times> (error + unit)"
where
  "init_accounts L rcp [] db = (db, Inr ())"
| "init_accounts L rcp (a # as) db =
     (case SetAccount (lib_pw L) (lib_pb L) db (Some (genesis_state_account rcp a)) of
        Inl e \<Rightarrow> (db, Inl e)
      | Inr db \<Rightarrow> init_accounts L rcp as db)"

fun init_validators :: "genesis_validator list \<Rightarrow> dpos \<Rightarrow> error + dpos" where
  "init_validators [] d = Inr d"
| "init_validators (v # vs) d =
     bind_err (RegisterValidator (gv_OperatorAddress v) (gv_ConsensusPubKey v) (gv_Stake v) (gv_Commission v) d)
       (init_validators vs)"

definition init_timestamps :: "('kv, 'r, 'c, 'm) libs \<Rightarrow> i64 \<Rightarrow> 'kv \<Rightarrow> 'kv" where
  "init_timestamps L time db =
     (case GetLastTimestamps (lib_pb L) db of
        Inl _ \<Rightarrow> db
      | Inr ts \<Rightarrow>
          if ts = [] then
            (case SetLastTimestamps (lib_pb L) db [time] of Inl _ \<Rightarrow> db | Inr db \<Rightarrow> db)
          else db)"

definition applyGenesis ::
  "('kv, 'r, 'c, 'm) libs \<Rightarrow> params \<Rightarrow> genesis \<Rightarrow> 'kv \<Rightarrow> dpos \<Rightarrow> 'kv \<times> (error + dpos)"
where
  "applyGenesis L rcp g db d =
     (let (db, r) = init_accounts L rcp (gen_Accounts g) db
      in case r of
           Inl e \<Rightarrow> (db, Inl e)
         | Inr _ \<Rightarrow>
             (case init_validators (gen_Validators g) d of
                Inl e \<Rightarrow> (db, Inl e)
              | Inr d \<Rightarrow> (init_timestamps L (gen_GenesisTime g) db, Inr d)))"

definition engine_config :: "consensus_params \<Rightarrow> consensus_config" where
  "engine_config c =
     \<lparr>cfg_EpochLength = cp_EpochLength c, cfg_MaxValidators = cp_MaxValidators c, cfg_BlockMaxTxs = 1000,
      cfg_MinStake = cp_MinStake c, cfg_SlashDouble = cp_SlashDoubleBps c, cfg_JailDouble = cp_JailDouble c,
      cfg_SlashOffline = cp_SlashOfflineBps c, cfg_JailOffline = cp_JailOffline c\<rparr>"

text \<open>The consensus part of \<open>Start\<close>: nothing for a node that is not a validator.\<close>

definition start_consensus ::
  "('kv, 'r, 'c, 'm, 'fs) host \<Rightarrow> 'fs \<Rightarrow> node_config \<Rightarrow> 'kv state \<Rightarrow> ('r, 'c, 'm) contract_engine
   \<Rightarrow> dpos \<Rightarrow> mempool \<Rightarrow> error + ('kv, 'r, 'c, 'm) engine option"
where
  "start_consensus H fs cfg st ce d mp =
     (if vc_Enabled (nc_Validator cfg) then
        let keyPath = path_Join (ho_files H) [nc_HomeDir cfg, vc_PrivateKeyFile (nc_Validator cfg)]
        in bind_err (LoadKeyPair (ho_files H) (ho_key_json H) keyPath fs) (\<lambda>kp.
           let sig_key = NewDilithiumSigner (ho_dilithium H) (kp_PublicKey kp) (kp_PrivateKey kp);
               ver = NewDilithiumVerifier (ho_dilithium H)
           in guard_err (vc_OperatorAddress (nc_Validator cfg) = []) ''validator operator_address required''
             (bind_err (NewEngine (ho_libs H) (ho_order H) (engine_config (nc_Consensus cfg)) st d mp (Some ce)
                (vc_OperatorAddress (nc_Validator cfg)) sig_key ver None) (\<lambda>e.
              Inr (Some e))))
      else Inr None)"

definition Start ::
  "('kv, 'r, 'c, 'm, 'fs) host \<Rightarrow> 'fs \<Rightarrow> node_config
   \<Rightarrow> 'kv option \<times> (error + ('kv, 'r, 'c, 'm) node)"
where
  "Start H fs cfg =
     (case OpenStore H (nc_HomeDir cfg) of
        Inl e \<Rightarrow> (None, Inl e)
      | Inr db \<Rightarrow>
          let genPath = path_Join (ho_files H) [nc_HomeDir cfg, ''config'', ''genesis.json'']
          in case wrap_err ''load genesis: ''
                 (Genesis_Load (lib_cl (ho_libs H)) (ho_files H) (ho_genesis_json H) genPath fs) of
               Inl e \<Rightarrow> (Some db, Inl e)
             | Inr gen \<Rightarrow>
                 let rcParams = gen_RCParams gen;
                     contracts = NewContractEngine (ho_runtime H);
                     d = NewDPoS (cp_MinStake (nc_Consensus cfg)) (cp_MaxValidators (nc_Consensus cfg))
                 in case applyGenesis (ho_libs H) rcParams gen db d of
                      (db, Inl e) \<Rightarrow> (Some db, Inl e)
                    | (db, Inr d) \<Rightarrow>
                        let st = NewState db NewDAG rcParams;
                            cst = \<lparr>co_Params = rcParams, co_Contracts = Some contracts\<rparr>;
                            mp = Mempool_New
                        in case start_consensus H fs cfg st contracts d mp of
                             Inl e \<Rightarrow> (Some db, Inl e)
                           | Inr eng \<Rightarrow>
                               (case ho_p2p_New H [toMultiaddr (ho_SplitHostPort H) (p2c_ListenAddr (nc_P2P cfg))]
                                       (p2c_BootstrapPeers (nc_P2P cfg)) of
                                  Inl e \<Rightarrow> (Some db, Inl e)
                                | Inr _ \<Rightarrow>
                                    (Some db, Inr \<lparr>nd_cfg = cfg, nd_state = st, nd_contracts = contracts,
                                       nd_mempool = mp, nd_coster = cst, nd_dpos = d, nd_consensus = eng,
                                       nd_genesis = gen\<rparr>)))"

section \<open>The genesis accounts\<close>

lemma map_of_find: "map_of (map (\<lambda>a. (f a, g a)) xs) x = map_option g (find (\<lambda>a. f a = x) xs)"
  by (induction xs) simp_all

context chain_env
begin

lemma init_accounts_read:
  assumes "init_accounts L rcp as db = (db', Inr u)"
  shows "GetAccount (lib_pw L) (lib_pb L) db' addr
       = (case map_of (rev (map (\<lambda>a. (ga_Address a, genesis_state_account rcp a)) as)) addr of
            Some a \<Rightarrow> Inr (Some a)
          | None \<Rightarrow> GetAccount (lib_pw L) (lib_pb L) db addr)"
  using assms
proof (induction as arbitrary: db)
  case (Cons a as)
  from Cons.prems obtain db1 where db1: "SetAccount (lib_pw L) (lib_pb L) db (Some (genesis_state_account rcp a)) = Inr db1"
    and rest: "init_accounts L rcp as db1 = (db', Inr u)"
    by (auto split: sum.splits)
  have "acct_Address (genesis_state_account rcp a) = ga_Address a"
    by (simp add: genesis_state_account_def zero_account_def)
  then have "GetAccount (lib_pw L) (lib_pb L) db1 addr
      = (if addr = ga_Address a then Inr (Some (genesis_state_account rcp a))
         else GetAccount (lib_pw L) (lib_pb L) db addr)"
    using account_read_after_write [OF db1 [unfolded SetAccount_def]] by (simp add: GetAccount_def)
  with Cons.IH [OF rest] show ?case
    by (auto simp: map_add_def split: option.split)
qed simp

lemma account_write_other:
  assumes "SetAccount (lib_pw L) (lib_pb L) db (Some a) = Inr db'"
    and "k \<noteq> bytes_of (accountPrefix @ acct_Address a)"
  shows "DbGet (lib_pb L) db' k = DbGet (lib_pb L) db k"
  using assms by (auto simp: SetAccount_def setAccountWithWriter_def get_set)

lemma init_accounts_other:
  assumes "init_accounts L rcp as db = (db', Inr u)"
    and "\<forall>a\<in>set as. k \<noteq> bytes_of (accountPrefix @ ga_Address a)"
  shows "DbGet (lib_pb L) db' k = DbGet (lib_pb L) db k"
  using assms
proof (induction as arbitrary: db)
  case (Cons a as)
  from Cons.prems obtain db1
    where db1: "SetAccount (lib_pw L) (lib_pb L) db (Some (genesis_state_account rcp a)) = Inr db1"
      and rest: "init_accounts L rcp as db1 = (db', Inr u)"
    by (auto split: sum.splits)
  have "acct_Address (genesis_state_account rcp a) = ga_Address a"
    by (simp add: genesis_state_account_def zero_account_def)
  then have "DbGet (lib_pb L) db1 k = DbGet (lib_pb L) db k"
    using account_write_other [OF db1, of k] Cons.prems(2) by simp
  then show ?case using Cons.IH [OF rest] Cons.prems(2) by simp
qed simp

lemma init_timestamps_other:
  assumes "k \<noteq> bytes_of metaLastTimestamps"
  shows "DbGet (lib_pb L) (init_timestamps L t db) k = DbGet (lib_pb L) db k"
  using assms by (auto simp: init_timestamps_def SetLastTimestamps_def get_set split: sum.split)

lemma init_timestamps_value:
  "GetLastTimestamps (lib_pb L) (init_timestamps L t db) = GetLastTimestamps (lib_pb L) db
   \<or> GetLastTimestamps (lib_pb L) db = Inr [] \<and> GetLastTimestamps (lib_pb L) (init_timestamps L t db) = Inr [t]"
proof -
  have "GetLastTimestamps (lib_pb L) db' = Inr [t]" if "SetLastTimestamps (lib_pb L) db [t] = Inr db'" for db'
    using that timestamps_after_write [of db "[t]" db']
    by (simp add: SetLastTimestamps_def setLastTimestampsWithWriter_def)
  then show ?thesis by (auto simp: init_timestamps_def split: sum.split)
qed

lemma init_timestamps_accounts:
  "GetAccount (lib_pw L) (lib_pb L) (init_timestamps L t db) addr = GetAccount (lib_pw L) (lib_pb L) db addr"
proof -
  have "bytes_of (accountPrefix @ addr) \<noteq> bytes_of metaLastTimestamps" by (simp add: key_defs)
  then show ?thesis
    by (simp add: GetAccount_def getAccountFromReader_def init_timestamps_other del: bytes_of_append)
qed

lemma consensus_keys:
  "bytes_of metaConsensusHeight \<noteq> bytes_of (accountPrefix @ addr)"
  "bytes_of metaConsensusRound \<noteq> bytes_of (accountPrefix @ addr)"
  "bytes_of metaConsensusLastFinalized \<noteq> bytes_of (accountPrefix @ addr)"
  "bytes_of metaConsensusHeight \<noteq> bytes_of metaLastTimestamps"
  "bytes_of metaConsensusRound \<noteq> bytes_of metaLastTimestamps"
  "bytes_of metaConsensusLastFinalized \<noteq> bytes_of metaLastTimestamps"
  by (simp_all add: key_defs)

lemma applyGenesis_read:
  assumes "applyGenesis L rcp g db d = (db', Inr d')"
  shows "GetAccount (lib_pw L) (lib_pb L) db' addr
       = (case find (\<lambda>a. ga_Address a = addr) (rev (gen_Accounts g)) of
            Some a \<Rightarrow> Inr (Some (genesis_state_account rcp a))
          | None \<Rightarrow> GetAccount (lib_pw L) (lib_pb L) db addr)"
    and "\<forall>a\<in>set (gen_Accounts g). k \<noteq> bytes_of (accountPrefix @ ga_Address a) \<Longrightarrow> k \<noteq> bytes_of metaLastTimestamps \<Longrightarrow>
      DbGet (lib_pb L) db' k = DbGet (lib_pb L) db k"
    and "GetLastTimestamps (lib_pb L) db' = GetLastTimestamps (lib_pb L) db
      \<or> GetLastTimestamps (lib_pb L) db = Inr [] \<and> GetLastTimestamps (lib_pb L) db' = Inr [gen_GenesisTime g]"
    and "GetConsensusState (lib_pb L) db' = GetConsensusState (lib_pb L) db"
    and "init_validators (gen_Validators g) d = Inr d'"
proof -
  obtain db1 where db1: "init_accounts L rcp (gen_Accounts g) db = (db1, Inr ())"
    and db': "db' = init_timestamps L (gen_GenesisTime g) db1"
    and val: "init_validators (gen_Validators g) d = Inr d'"
    using assms by (auto simp: applyGenesis_def Let_def split: prod.splits sum.splits)
  show "GetAccount (lib_pw L) (lib_pb L) db' addr
       = (case find (\<lambda>a. ga_Address a = addr) (rev (gen_Accounts g)) of
            Some a \<Rightarrow> Inr (Some (genesis_state_account rcp a))
          | None \<Rightarrow> GetAccount (lib_pw L) (lib_pb L) db addr)"
    by (simp add: db' init_timestamps_accounts init_accounts_read [OF db1] rev_map map_of_find split: option.split)
  show other: "DbGet (lib_pb L) db' k = DbGet (lib_pb L) db k"
    if "\<forall>a\<in>set (gen_Accounts g). k \<noteq> bytes_of (accountPrefix @ ga_Address a)" "k \<noteq> bytes_of metaLastTimestamps" for k
    using init_timestamps_other [OF that(2), of _ db1] init_accounts_other [OF db1 that(1)] by (simp add: db')
  have "GetLastTimestamps (lib_pb L) db1 = GetLastTimestamps (lib_pb L) db"
    using init_accounts_other [OF db1, of "bytes_of metaLastTimestamps"]
    by (simp add: GetLastTimestamps_def) (simp add: key_defs)
  then show "GetLastTimestamps (lib_pb L) db' = GetLastTimestamps (lib_pb L) db
      \<or> GetLastTimestamps (lib_pb L) db = Inr [] \<and> GetLastTimestamps (lib_pb L) db' = Inr [gen_GenesisTime g]"
    using init_timestamps_value [of "gen_GenesisTime g" db1] by (simp add: db')
  have "DbGet (lib_pb L) db' k = DbGet (lib_pb L) db k"
    if "k \<in> {bytes_of metaConsensusHeight, bytes_of metaConsensusRound, bytes_of metaConsensusLastFinalized}" for k
  proof -
    have acct: "k \<noteq> bytes_of (accountPrefix @ addr)" for addr
      using that by (elim insertE emptyE) (simp_all only: consensus_keys simp_thms)
    have "k \<noteq> bytes_of metaLastTimestamps" using that
      by (elim insertE emptyE) (simp_all only: consensus_keys simp_thms)
    then show ?thesis by (intro other ballI acct)
  qed
  then show "GetConsensusState (lib_pb L) db' = GetConsensusState (lib_pb L) db"
    by (simp add: GetConsensusState_def)
  show "init_validators (gen_Validators g) d = Inr d'" by (rule val)
qed

end

section \<open>What a start has done\<close>

lemma Start_ok:
  assumes "Start H fs cfg = (dbo, Inr n)"
  obtains db db' gen d eng where
    "OpenStore H (nc_HomeDir cfg) = Inr db"
    "Genesis_Load (lib_cl (ho_libs H)) (ho_files H) (ho_genesis_json H)
       (path_Join (ho_files H) [nc_HomeDir cfg, ''config'', ''genesis.json'']) fs = Inr gen"
    "applyGenesis (ho_libs H) (gen_RCParams gen) gen db
       (NewDPoS (cp_MinStake (nc_Consensus cfg)) (cp_MaxValidators (nc_Consensus cfg))) = (db', Inr d)"
    "start_consensus H fs cfg (NewState db' NewDAG (gen_RCParams gen)) (NewContractEngine (ho_runtime H))
       d Mempool_New = Inr eng"
    "dbo = Some db'"
    "n = \<lparr>nd_cfg = cfg, nd_state = NewState db' NewDAG (gen_RCParams gen),
       nd_contracts = NewContractEngine (ho_runtime H), nd_mempool = Mempool_New,
       nd_coster = \<lparr>co_Params = gen_RCParams gen, co_Contracts = Some (NewContractEngine (ho_runtime H))\<rparr>,
       nd_dpos = d, nd_consensus = eng, nd_genesis = gen\<rparr>"
  using assms by (auto simp: Start_def Let_def split: sum.splits prod.splits)

text \<open>Registering the validators of the genesis: they all meet the minimum of the manager, and the
  manager holds exactly them.\<close>

definition genesis_validator_entry :: "genesis_validator \<Rightarrow> validator" where
  "genesis_validator_entry v =
     \<lparr>val_OperatorAddress = gv_OperatorAddress v, val_ConsensusPubKey = gv_ConsensusPubKey v,
      val_Power = gv_Stake v, val_Stake = gv_Stake v, val_Delegations = Map.empty,
      val_Commission = gv_Commission v, val_Index = 0, val_JailedUntilEpoch = 0\<rparr>"

lemma RegisterValidator_ok:
  "RegisterValidator a k stake c d = Inr d' \<longleftrightarrow>
     dp_minStake d \<le> stake \<and> fmlookup (dp_validators d) a = None
     \<and> word_of_nat (fcard (fmdom (dp_validators d))) < dp_maxValidators d
     \<and> d' = set_validator a (genesis_validator_entry \<lparr>gv_OperatorAddress = a, gv_ConsensusPubKey = k,
         gv_Stake = stake, gv_Commission = c\<rparr>) d"
  by (auto simp: RegisterValidator_def genesis_validator_entry_def not_less not_le)

lemma init_validators_ok:
  assumes "init_validators vs d = Inr d'" and "fcard (fmdom (dp_validators d)) \<le> unat (dp_maxValidators d)"
  shows "dp_minStake d' = dp_minStake d \<and> dp_maxValidators d' = dp_maxValidators d
    \<and> (\<forall>v \<in> set vs. dp_minStake d \<le> gv_Stake v)
    \<and> distinct (map gv_OperatorAddress vs)
    \<and> (\<forall>v \<in> set vs. fmlookup (dp_validators d) (gv_OperatorAddress v) = None)
    \<and> fcard (fmdom (dp_validators d)) + length vs \<le> unat (dp_maxValidators d)
    \<and> (\<forall>addr. fmlookup (dp_validators d') addr
         = (case map_of (map (\<lambda>v. (gv_OperatorAddress v, genesis_validator_entry v)) vs) addr of
              Some v \<Rightarrow> Some v | None \<Rightarrow> fmlookup (dp_validators d) addr))"
  using assms
proof (induction vs arbitrary: d)
  case (Cons v vs)
  let ?d = "set_validator (gv_OperatorAddress v) (genesis_validator_entry v) d"
  have v: "\<lparr>gv_OperatorAddress = gv_OperatorAddress v, gv_ConsensusPubKey = gv_ConsensusPubKey v,
      gv_Stake = gv_Stake v, gv_Commission = gv_Commission v\<rparr> = v" by simp
  from Cons.prems(1) have reg: "dp_minStake d \<le> gv_Stake v"
      "fmlookup (dp_validators d) (gv_OperatorAddress v) = None"
      "word_of_nat (fcard (fmdom (dp_validators d))) < dp_maxValidators d"
    and rest: "init_validators vs ?d = Inr d'"
    by (auto simp: RegisterValidator_ok v)
  let ?n = "fcard (fmdom (dp_validators d))"
  have "?n < 2 ^ 32" using Cons.prems(2) unsigned_less [of "dp_maxValidators d", where ?'a = nat] by simp
  then have "unat (word_of_nat ?n :: u32) = ?n" by (simp add: unat_of_nat take_bit_nat_eq_self)
  with reg(3) have less: "?n < unat (dp_maxValidators d)" by (simp add: word_less_nat_alt)
  have card: "fcard (fmdom (dp_validators ?d)) = Suc ?n"
    using reg(2) by (simp add: set_validator_def fcard_finsert_disjoint fmdom_notI)
  have "fcard (fmdom (dp_validators ?d)) \<le> unat (dp_maxValidators ?d)"
    using card less by (simp add: set_validator_def)
  from Cons.IH [OF rest this] card reg show ?case
    by (auto simp: set_validator_def map_of_eq_None_iff image_image split: option.splits if_splits)
qed simp

section \<open>Properties\<close>

text \<open>Property C18. Every start writes the accounts of the genesis over the stored ones: whatever blocks
  had been applied, an account that the genesis names (by its last entry, if several have its
  address) is back at its first balance and stake, with nonce zero, no credits and no key. A stored
  timestamp window stays, and a node without one may get the genesis time as its window. Nothing
  else changes under any key of the store: not the other accounts, the blocks, nor the height, round
  and last finalized hash of the consensus. The accounts are then no longer those of the last block.\<close>

theorem start_rewrites_genesis_accounts:
  assumes "chain_env (ho_libs H)" and "Start H fs cfg = (Some db', Inr n)"
  shows "\<exists>db. OpenStore H (nc_HomeDir cfg) = Inr db
    \<and> (\<forall>addr. GetAccount (lib_pw (ho_libs H)) (lib_pb (ho_libs H)) db' addr
         = (case find (\<lambda>a. ga_Address a = addr) (rev (gen_Accounts (nd_genesis n))) of
              Some a \<Rightarrow> Inr (Some \<lparr>acct_Address = ga_Address a, acct_Balance = ga_Balance a, acct_Nonce = 0,
                acct_Stake = ga_Stake a, acct_RC = 0, acct_RCMax = RCMax (gen_RCParams (nd_genesis n)) (ga_Stake a),
                acct_LastRCEffectiveTime = 0, acct_Code = [], acct_PubKey = []\<rparr>)
            | None \<Rightarrow> GetAccount (lib_pw (ho_libs H)) (lib_pb (ho_libs H)) db addr))
    \<and> (GetLastTimestamps (lib_pb (ho_libs H)) db' = GetLastTimestamps (lib_pb (ho_libs H)) db
       \<or> GetLastTimestamps (lib_pb (ho_libs H)) db = Inr []
         \<and> GetLastTimestamps (lib_pb (ho_libs H)) db' = Inr [gen_GenesisTime (nd_genesis n)])
    \<and> (\<forall>k. (\<forall>a\<in>set (gen_Accounts (nd_genesis n)). k \<noteq> bytes_of (accountPrefix @ ga_Address a))
         \<longrightarrow> k \<noteq> bytes_of metaLastTimestamps
         \<longrightarrow> DbGet (lib_pb (ho_libs H)) db' k = DbGet (lib_pb (ho_libs H)) db k)
    \<and> GetConsensusState (lib_pb (ho_libs H)) db' = GetConsensusState (lib_pb (ho_libs H)) db"
  using assms(2)
proof (rule Start_ok)
  fix db db1 gen d eng
  assume open_db: "OpenStore H (nc_HomeDir cfg) = Inr db"
    and applied: "applyGenesis (ho_libs H) (gen_RCParams gen) gen db
       (NewDPoS (cp_MinStake (nc_Consensus cfg)) (cp_MaxValidators (nc_Consensus cfg))) = (db1, Inr d)"
    and db1: "Some db' = Some db1"
    and n: "n = \<lparr>nd_cfg = cfg, nd_state = NewState db1 NewDAG (gen_RCParams gen),
       nd_contracts = NewContractEngine (ho_runtime H), nd_mempool = Mempool_New,
       nd_coster = \<lparr>co_Params = gen_RCParams gen, co_Contracts = Some (NewContractEngine (ho_runtime H))\<rparr>,
       nd_dpos = d, nd_consensus = eng, nd_genesis = gen\<rparr>"
  have gen: "nd_genesis n = gen" by (simp add: n)
  have entry: "genesis_state_account rcp a = \<lparr>acct_Address = ga_Address a, acct_Balance = ga_Balance a, acct_Nonce = 0,
      acct_Stake = ga_Stake a, acct_RC = 0, acct_RCMax = RCMax rcp (ga_Stake a),
      acct_LastRCEffectiveTime = 0, acct_Code = [], acct_PubKey = []\<rparr>" for rcp a
    by (simp add: genesis_state_account_def zero_account_def)
  note rd = chain_env.applyGenesis_read [OF assms(1) applied [folded db1 [simplified]], unfolded entry]
  show ?thesis
    unfolding gen by (intro exI [of _ db] conjI allI impI open_db rd)
qed

text \<open>Property C19. The validators of a started node are those of the genesis, each with its genesis
  stake as its power, no delegations and not jailed, whatever had been delegated or slashed before.
  A start needs every one of them to meet the minimum stake of the configuration, which is not the
  minimum the genesis was validated against, no operator twice, and room for all of them.\<close>

theorem started_validators_are_the_genesis:
  assumes "Start H fs cfg = (dbo, Inr n)"
  shows "(\<forall>addr. GetValidator addr (nd_dpos n)
       = map_option (\<lambda>v. \<lparr>val_OperatorAddress = gv_OperatorAddress v, val_ConsensusPubKey = gv_ConsensusPubKey v,
           val_Power = gv_Stake v, val_Stake = gv_Stake v, val_Delegations = Map.empty,
           val_Commission = gv_Commission v, val_Index = 0, val_JailedUntilEpoch = 0\<rparr>)
         (find (\<lambda>v. gv_OperatorAddress v = addr) (gen_Validators (nd_genesis n))))
    \<and> (\<forall>v \<in> set (gen_Validators (nd_genesis n)). cp_MinStake (nc_Consensus cfg) \<le> gv_Stake v)
    \<and> distinct (map gv_OperatorAddress (gen_Validators (nd_genesis n)))
    \<and> length (gen_Validators (nd_genesis n)) \<le> unat (cp_MaxValidators (nc_Consensus cfg))"
  using assms
proof (rule Start_ok)
  fix db db1 gen d eng
  assume applied: "applyGenesis (ho_libs H) (gen_RCParams gen) gen db
       (NewDPoS (cp_MinStake (nc_Consensus cfg)) (cp_MaxValidators (nc_Consensus cfg))) = (db1, Inr d)"
    and n: "n = \<lparr>nd_cfg = cfg, nd_state = NewState db1 NewDAG (gen_RCParams gen),
       nd_contracts = NewContractEngine (ho_runtime H), nd_mempool = Mempool_New,
       nd_coster = \<lparr>co_Params = gen_RCParams gen, co_Contracts = Some (NewContractEngine (ho_runtime H))\<rparr>,
       nd_dpos = d, nd_consensus = eng, nd_genesis = gen\<rparr>"
  let ?d = "NewDPoS (cp_MinStake (nc_Consensus cfg)) (cp_MaxValidators (nc_Consensus cfg))"
  have reg: "init_validators (gen_Validators gen) ?d = Inr d"
    using applied by (auto simp: applyGenesis_def Let_def split: prod.splits sum.splits)
  have entry: "map_of (map (\<lambda>v. (gv_OperatorAddress v, genesis_validator_entry v)) vs) addr
      = map_option genesis_validator_entry (find (\<lambda>v. gv_OperatorAddress v = addr) vs)" for vs addr
    by (induction vs) simp_all
  have "fcard (fmdom (dp_validators ?d)) \<le> unat (dp_maxValidators ?d)" by (simp add: NewDPoS_def fcard.rep_eq)
  note ok = init_validators_ok [OF reg this]
  have empty: "fmlookup (dp_validators ?d) addr = None" "fcard (fmdom (dp_validators ?d)) = 0"
    "dp_minStake ?d = cp_MinStake (nc_Consensus cfg)" "dp_maxValidators ?d = cp_MaxValidators (nc_Consensus cfg)"
    for addr by (simp_all add: NewDPoS_def fcard.rep_eq)
  have "fmlookup (dp_validators d) addr
      = map_option genesis_validator_entry (find (\<lambda>v. gv_OperatorAddress v = addr) (gen_Validators gen))" for addr
    using ok by (simp add: entry empty(1) split: option.split)
  with ok show ?thesis
    by (simp add: n GetValidator_def genesis_validator_entry_def [abs_def] empty)
qed

section \<open>A concrete host\<close>

definition sample_genesis :: genesis where
  "sample_genesis = (DefaultGenesis 1000)
     \<lparr>gen_Validators := [\<lparr>gv_OperatorAddress = toy_alice, gv_ConsensusPubKey = [1], gv_Stake = 200000000,
        gv_Commission = 0\<rparr>],
      gen_Accounts := [\<lparr>ga_Address = toy_alice, ga_Balance = 50, ga_Stake = 60\<rparr>]\<rparr>"

definition sample_host ::
  "((bytes, bytes) RBT.rbt, unit, nat, nat, string \<rightharpoonup> bytes) host"
where
  "sample_host = \<lparr>ho_libs = toy_libs, ho_runtime = (), ho_dilithium = dilithium_nocgo,
     ho_files = memory_files, ho_genesis_json = json_of sample_genesis,
     ho_key_json = json_of \<lparr>kf_PublicKey = [], kf_PrivateKey = []\<rparr>, ho_config_json = json_of DefaultConfig,
     ho_open = (\<lambda>path. Inr toy_db), ho_order = [toy_alice], ho_SplitHostPort = (\<lambda>a. Inr (a, a)),
     ho_p2p_New = (\<lambda>listen boot. Inr ())\<rparr>"

lemma sample_host_simps [simp]:
  "ho_libs sample_host = toy_libs" "ho_files sample_host = memory_files"
  "ho_genesis_json sample_host = json_of sample_genesis" "ho_open sample_host path = Inr toy_db"
  "ho_p2p_New sample_host listen boot = Inr ()"
  by (simp_all add: sample_host_def)

lemma sample_genesis_simps [simp]:
  "gen_Accounts sample_genesis = [\<lparr>ga_Address = toy_alice, ga_Balance = 50, ga_Stake = 60\<rparr>]"
  "gen_Validators sample_genesis = [\<lparr>gv_OperatorAddress = toy_alice, gv_ConsensusPubKey = [1],
     gv_Stake = 200000000, gv_Commission = 0\<rparr>]"
  by (simp_all add: sample_genesis_def)

definition sample_genesis_path :: string where
  "sample_genesis_path = path_Join memory_files [nc_HomeDir DefaultConfig, ''config'', ''genesis.json'']"

lemma sample_genesis_valid: "Genesis_Validate toy_crypto sample_genesis = Inr ()"
  by code_simp

lemma sample_load:
  "Genesis_Load toy_crypto memory_files (json_of sample_genesis) sample_genesis_path [sample_genesis_path \<mapsto> [1]]
   = Inr sample_genesis"
  using sample_genesis_valid by (simp add: Genesis_Load_def json_of_def memory_files_def)

lemma sample_start:
  obtains db n where "Start sample_host [sample_genesis_path \<mapsto> [1]] DefaultConfig = (Some db, Inr n)"
    "nd_genesis n = sample_genesis"
proof -
  let ?rcp = "gen_RCParams sample_genesis"
  obtain v where v: "marshalAccount wire_format
      (Some (genesis_state_account ?rcp \<lparr>ga_Address = toy_alice, ga_Balance = 50, ga_Stake = 60\<rparr>)) = Inr v"
    using marshalAccount_Some by blast
  have acct: "\<exists>db. init_accounts toy_libs ?rcp (gen_Accounts sample_genesis) toy_db = (db, Inr ())"
    by (simp add: SetAccount_def setAccountWithWriter_def v) (simp add: memory_store_def)
  have val: "\<exists>d. init_validators (gen_Validators sample_genesis) (NewDPoS 100000000 100) = Inr d"
    by (simp add: RegisterValidator_ok NewDPoS_def fcard.rep_eq word_le_nat_alt word_less_nat_alt)
  have "\<exists>db d. applyGenesis toy_libs ?rcp sample_genesis toy_db (NewDPoS 100000000 100) = (db, Inr d)"
    using acct val by (auto simp: applyGenesis_def Let_def)
  then obtain db d where ap: "applyGenesis toy_libs ?rcp sample_genesis toy_db (NewDPoS 100000000 100) = (db, Inr d)"
    by blast
  have cfg: "cp_MinStake (nc_Consensus DefaultConfig) = 100000000"
      "cp_MaxValidators (nc_Consensus DefaultConfig) = 100" "vc_Enabled (nc_Validator DefaultConfig) = False"
    by (simp_all add: DefaultConfig_def)
  have "\<exists>n. Start sample_host [sample_genesis_path \<mapsto> [1]] DefaultConfig = (Some db, Inr n)
      \<and> nd_genesis n = sample_genesis"
    by (simp add: Start_def OpenStore_def wrap_err_def sample_load [unfolded sample_genesis_path_def]
        sample_genesis_path_def ap cfg start_consensus_def Let_def)
  then show ?thesis using that by blast
qed

lemma start_rewrites_genesis_accounts_witness:
  "\<exists>db' n. Start sample_host [sample_genesis_path \<mapsto> [1]] DefaultConfig = (Some db', Inr n)
     \<and> (\<exists>a. GetAccount wire_format memory_store db' toy_alice = Inr (Some a)
          \<and> acct_Balance a = 50 \<and> acct_Nonce a = 0 \<and> acct_PubKey a = [])
     \<and> GetAccount wire_format memory_store db' ''bob'' = GetAccount wire_format memory_store toy_db ''bob''"
proof -
  obtain db' n where st: "Start sample_host [sample_genesis_path \<mapsto> [1]] DefaultConfig = (Some db', Inr n)"
    and gen: "nd_genesis n = sample_genesis" by (rule sample_start)
  have env: "chain_env (ho_libs sample_host)" by (simp add: toy.chain_env_axioms)
  have acct: "GetAccount wire_format memory_store db' addr
      = (if toy_alice = addr then Inr (Some \<lparr>acct_Address = toy_alice, acct_Balance = 50, acct_Nonce = 0,
                acct_Stake = 60, acct_RC = 0, acct_RCMax = RCMax (gen_RCParams sample_genesis) 60,
                acct_LastRCEffectiveTime = 0, acct_Code = [], acct_PubKey = []\<rparr>)
         else GetAccount wire_format memory_store toy_db addr)" for addr
    using start_rewrites_genesis_accounts [OF env st] by (auto simp: gen OpenStore_def)
  have "toy_alice \<noteq> ''bob''" by (simp add: toy_alice_def)
  with acct st show ?thesis by auto
qed

lemma started_validators_are_the_genesis_witness:
  "\<exists>dbo n. Start sample_host [sample_genesis_path \<mapsto> [1]] DefaultConfig = (dbo, Inr n)
     \<and> map_option val_Power (GetValidator toy_alice (nd_dpos n)) = Some 200000000"
proof -
  obtain db' n where st: "Start sample_host [sample_genesis_path \<mapsto> [1]] DefaultConfig = (Some db', Inr n)"
    and gen: "nd_genesis n = sample_genesis" by (rule sample_start)
  from started_validators_are_the_genesis [OF st] st show ?thesis by (auto simp: gen)
qed

end
