(* ===== verification/Cli.thy ===== *)
theory Cli
  imports Node
begin

text \<open>
  The commands, \<open>cmd/opencoin/cmd/root.go\<close>: \<open>init\<close>, \<open>start\<close>, \<open>keys add\<close>, \<open>keys validator\<close>,
  \<open>query account\<close> and \<open>tx transfer\<close>. A command reads its flags and arguments, works on the files and
  prints; the model returns the files as it left them with what it prints, or with the message
  before \<open>os.Exit(1)\<close>. Cobra, which parses the command line, and \<open>main\<close> are left out.

  The properties go through the whole program: a home that \<open>init\<close> made starts, and a transfer that
  the wallet signs with a key it made is accepted by the state transition.
\<close>

section \<open>Definitions\<close>

definition initCmd ::
  "('kv, 'r, 'c, 'm, 'fs) host \<Rightarrow> i64 \<Rightarrow> string \<Rightarrow> 'fs \<Rightarrow> 'fs \<times> (error + unit)"
where
  "initCmd H now home fs =
     (let os = ho_files H
      in case os_MkdirAll os fs (path_Join os [home, ''config'']) of
           Inl e \<Rightarrow> (fs, Inl (''failed to create home: '' @ e))
         | Inr fs \<Rightarrow>
             let cfg = DefaultConfig\<lparr>nc_HomeDir := home\<rparr>;
                 cfgPath = path_Join os [home, ''config'', ''config.json'']
             in case Config_Save os (ho_config_json H) cfgPath cfg fs of
                  Inl e \<Rightarrow> (fs, Inl (''failed to save config: '' @ e))
                | Inr fs \<Rightarrow>
                    let gen = DefaultGenesis now;
                        genPath = path_Join os [home, ''config'', ''genesis.json'']
                    in case Genesis_Save (lib_cl (ho_libs H)) os (ho_genesis_json H) genPath gen fs of
                         Inl e \<Rightarrow> (fs, Inl (''failed to save genesis: '' @ e))
                       | Inr fs \<Rightarrow> (fs, Inr ()))"

text \<open>\<open>node.New\<close> only keeps the configuration.\<close>

definition startCmd ::
  "('kv, 'r, 'c, 'm, 'fs) host \<Rightarrow> string \<Rightarrow> 'fs \<Rightarrow> 'kv option \<times> (error + ('kv, 'r, 'c, 'm) node)"
where
  "startCmd H home fs =
     (let cfgPath = path_Join (ho_files H) [home, ''config'', ''config.json'']
      in case Config_Load (ho_files H) (ho_config_json H) cfgPath fs of
           Inl e \<Rightarrow> (None, Inl (''failed to load config: '' @ e))
         | Inr cfg \<Rightarrow>
             (case Start H fs cfg of
                (db, Inl e) \<Rightarrow> (db, Inl (''failed to start node: '' @ e))
              | (db, Inr n) \<Rightarrow> (db, Inr n)))"

text \<open>\<open>addr, _ := crypto.AddressFromPubKey(...)\<close>: on an error the address is empty.\<close>

definition address_or_empty :: "crypto_lib \<Rightarrow> bytes \<Rightarrow> address" where
  "address_or_empty cl pub = (case AddressFromPubKey cl pub of Inl _ \<Rightarrow> [] | Inr a \<Rightarrow> a)"

definition keysAddCmd ::
  "('kv, 'r, 'c, 'm, 'fs) host \<Rightarrow> (bytes \<Rightarrow> error + (bytes \<times> bytes)) \<Rightarrow> bytes \<Rightarrow> string \<Rightarrow> string \<Rightarrow> 'fs
   \<Rightarrow> 'fs \<times> (error + address)"
where
  "keysAddCmd H gen coins home name fs =
     (let os = ho_files H;
          keyDir = path_Join os [home, ''config'', ''keys'']
      in case os_MkdirAll os fs keyDir of
           Inl e \<Rightarrow> (fs, Inl (''failed to create key dir: '' @ e))
         | Inr fs \<Rightarrow>
             (case GenerateEd25519 gen coins of
                Inl e \<Rightarrow> (fs, Inl (''failed to generate key: '' @ e))
              | Inr kp \<Rightarrow>
                  let path = path_Join os [keyDir, name @ ''.json'']
                  in case SaveEd25519 os (ho_key_json H) path (Some kp) fs of
                       Inl e \<Rightarrow> (fs, Inl (''failed to save key: '' @ e))
                     | Inr fs \<Rightarrow> (fs, Inr (address_or_empty (lib_cl (ho_libs H)) (ed_PublicKey kp)))))"

definition keysValidatorCmd ::
  "('kv, 'r, 'c, 'm, 'fs) host \<Rightarrow> dilithium_c \<Rightarrow> bytes \<Rightarrow> string \<Rightarrow> string \<Rightarrow> 'fs \<Rightarrow> 'fs \<times> (error + bytes)"
where
  "keysValidatorCmd H dc coins home name fs =
     (let os = ho_files H;
          keyDir = path_Join os [home, ''config'', ''validator-keys'']
      in case os_MkdirAll os fs keyDir of
           Inl e \<Rightarrow> (fs, Inl (''failed to create key dir: '' @ e))
         | Inr fs \<Rightarrow>
             (case GenerateKeyPair dc coins of
                Inl e \<Rightarrow> (fs, Inl (''failed to generate validator key: '' @ e))
              | Inr kp \<Rightarrow>
                  let path = path_Join os [keyDir, name @ ''.json'']
                  in case SaveKeyPair os (ho_key_json H) path (Some kp) fs of
                       Inl e \<Rightarrow> (fs, Inl (''failed to save validator key: '' @ e))
                     | Inr fs \<Rightarrow> (fs, Inr (kp_PublicKey kp))))"

text \<open>\<open>query account\<close> prints the account, or that there is none.\<close>

definition queryAccountCmd ::
  "('kv, 'r, 'c, 'm, 'fs) host \<Rightarrow> string \<Rightarrow> address \<Rightarrow> error + account option"
where
  "queryAccountCmd H home addr =
     (case OpenStore H home of
        Inl e \<Rightarrow> Inl (''failed to open state: '' @ e)
      | Inr db \<Rightarrow> wrap_err ''query failed: '' (GetAccount (lib_pw (ho_libs H)) (lib_pb (ho_libs H)) db addr))"

text \<open>\<open>ParseUint\<close> is \<open>strconv.ParseUint(s, 10, 64)\<close>. The command prints a summary of the transaction;
  it neither stores nor broadcasts it, so the transaction itself is what is returned here.\<close>

definition txTransferCmd ::
  "('kv, 'r, 'c, 'm, 'fs) host \<Rightarrow> (string \<Rightarrow> error + u64) \<Rightarrow> string \<Rightarrow> string \<Rightarrow> u64 \<Rightarrow> string \<Rightarrow> string \<Rightarrow> 'fs
   \<Rightarrow> error + transaction"
where
  "txTransferCmd H ParseUint home fromKey nonce to amount_arg fs =
     (let os = ho_files H; pw = lib_pw (ho_libs H); cl = lib_cl (ho_libs H)
      in guard_err (fromKey = []) ''missing --from''
        (let keyPath = path_Join os [home, ''config'', ''keys'', fromKey @ ''.json'']
         in bind_err (wrap_err ''failed to load key: '' (LoadEd25519 os (ho_key_json H) keyPath fs)) (\<lambda>kp.
            bind_err (wrap_err ''invalid amount: '' (ParseUint amount_arg)) (\<lambda>amount.
            bind_err (wrap_err ''failed to encode payload: ''
                (EncodePayload pw (Some (Transfer \<lparr>tr_To = to, tr_Amount = amount\<rparr>)) (ed_PublicKey kp))) (\<lambda>payload.
            let fromAddr = address_or_empty cl (ed_PublicKey kp);
                txn = \<lparr>tx_From = fromAddr, tx_To = to, tx_Nonce = nonce, tx_Payload = payload, tx_Signature = []\<rparr>
            in bind_err (wrap_err ''failed to sign: '' (SigningBytes pw (Some txn))) (\<lambda>signBytes.
               bind_err (wrap_err ''failed to sign: '' (SignEd25519 cl (ed_PrivateKey kp) signBytes)) (\<lambda>sig.
               Inr (txn\<lparr>tx_Signature := sig\<rparr>))))))))"

section \<open>Init and start\<close>

lemma initCmd_ok:
  assumes "initCmd H now home fs = (fs', Inr ())"
  obtains fs1 fs2 where
    "save_json (ho_files H) (ho_config_json H) (path_Join (ho_files H) [home, ''config'', ''config.json''])
       (DefaultConfig\<lparr>nc_HomeDir := home\<rparr>) fs1 = Inr fs2"
    "Genesis_Save (lib_cl (ho_libs H)) (ho_files H) (ho_genesis_json H)
       (path_Join (ho_files H) [home, ''config'', ''genesis.json'']) (DefaultGenesis now) fs2 = Inr fs'"
  using assms by (auto simp: initCmd_def Config_Save_def Let_def split: sum.splits)

lemma init_files:
  assumes os: "files_ok (ho_files H)" and js: "json_ok (ho_config_json H)" "json_ok (ho_genesis_json H)"
    and paths: "path_Join (ho_files H) [home, ''config'', ''config.json'']
      \<noteq> path_Join (ho_files H) [home, ''config'', ''genesis.json'']"
    and init: "initCmd H now home fs = (fs', Inr ())"
  shows "Config_Load (ho_files H) (ho_config_json H) (path_Join (ho_files H) [home, ''config'', ''config.json'']) fs'
      = Inr (DefaultConfig\<lparr>nc_HomeDir := home\<rparr>)"
    and "Genesis_Load (lib_cl (ho_libs H)) (ho_files H) (ho_genesis_json H)
      (path_Join (ho_files H) [home, ''config'', ''genesis.json'']) fs' = Inr (DefaultGenesis now)"
proof -
  obtain fs1 fs2 where
    cfg: "save_json (ho_files H) (ho_config_json H) (path_Join (ho_files H) [home, ''config'', ''config.json''])
       (DefaultConfig\<lparr>nc_HomeDir := home\<rparr>) fs1 = Inr fs2"
    and gen: "save_json (ho_files H) (ho_genesis_json H)
       (path_Join (ho_files H) [home, ''config'', ''genesis.json'']) (DefaultGenesis now) fs2 = Inr fs'"
    using init by (rule initCmd_ok) (auto simp: Genesis_Save_json)
  show "Config_Load (ho_files H) (ho_config_json H) (path_Join (ho_files H) [home, ''config'', ''config.json'']) fs'
      = Inr (DefaultConfig\<lparr>nc_HomeDir := home\<rparr>)"
    using load_other [OF os gen paths, of "ho_config_json H"] load_saved [OF os js(1) cfg] by (simp add: Config_Load_def)
  show "Genesis_Load (lib_cl (ho_libs H)) (ho_files H) (ho_genesis_json H)
      (path_Join (ho_files H) [home, ''config'', ''genesis.json'']) fs' = Inr (DefaultGenesis now)"
    using load_saved [OF os js(2) gen] by (simp add: Genesis_Load_json)
qed

text \<open>Property C17. A home that \<open>init\<close> made starts: when the database opens and the network comes up,
  \<open>start\<close> loads the files that \<open>init\<close> wrote and the node runs. It runs with no validator and no
  consensus engine, so until the files are edited the chain has nobody to propose a block.\<close>

theorem initialized_home_starts:
  assumes "files_ok (ho_files H)" and "json_ok (ho_config_json H)" and "json_ok (ho_genesis_json H)"
    and "path_Join (ho_files H) [home, ''config'', ''config.json'']
      \<noteq> path_Join (ho_files H) [home, ''config'', ''genesis.json'']"
    and "initCmd H now home fs = (fs', Inr ())"
    and open_db: "ho_open H (path_Join (ho_files H) [home, ''state'']) = Inr db"
    and net: "\<And>listen boot. ho_p2p_New H listen boot = Inr ()"
  shows "\<exists>db' n. startCmd H home fs' = (Some db', Inr n) \<and> nd_consensus n = None
    \<and> nd_genesis n = DefaultGenesis now \<and> GetValidator addr (nd_dpos n) = None"
proof -
  note files = init_files [OF assms(1-5)]
  have gen: "gen_Accounts (DefaultGenesis now) = []" "gen_Validators (DefaultGenesis now) = []"
    by (simp_all add: DefaultGenesis_def)
  have ap: "applyGenesis (ho_libs H) rcp (DefaultGenesis now) db d
      = (init_timestamps (ho_libs H) (gen_GenesisTime (DefaultGenesis now)) db, Inr d)" for rcp d
    by (simp add: applyGenesis_def gen)
  have off: "vc_Enabled (nc_Validator DefaultConfig) = False" by (simp add: DefaultConfig_def)
  show ?thesis
    using files by (simp add: startCmd_def Let_def Start_def OpenStore_def open_db wrap_err_def ap
        start_consensus_def off net GetValidator_def NewDPoS_def)
qed

section \<open>Wallet\<close>

text \<open>What is relied on of Ed25519: key and signature sizes, and that signatures verify.\<close>

definition ed25519_correct :: "crypto_lib \<Rightarrow> (bytes \<Rightarrow> error + (bytes \<times> bytes)) \<Rightarrow> bool" where
  "ed25519_correct cl gen \<longleftrightarrow>
     (\<forall>coins pub priv msg. gen coins = Inr (pub, priv) \<longrightarrow>
        length pub = Ed25519PublicKeySize \<and> length priv = Ed25519PrivateKeySize \<and>
        length (Ed25519Sign cl priv msg) = Ed25519SignatureSize \<and>
        Ed25519Verify cl pub msg (Ed25519Sign cl priv msg))"

lemma keysAddCmd_ok:
  assumes "keysAddCmd H gen coins home name fs = (fs', Inr addr)"
  obtains pub priv fs1 where
    "gen coins = Inr (pub, priv)"
    "SaveEd25519 (ho_files H) (ho_key_json H)
       (path_Join (ho_files H) [path_Join (ho_files H) [home, ''config'', ''keys''], name @ ''.json''])
       (Some \<lparr>ed_PublicKey = pub, ed_PrivateKey = priv\<rparr>) fs1 = Inr fs'"
    "addr = address_or_empty (lib_cl (ho_libs H)) pub"
  using assms by (auto simp: keysAddCmd_def GenerateEd25519_def Let_def split: sum.splits prod.splits)

lemma txTransferCmd_ok:
  assumes "txTransferCmd H ParseUint home fromKey nonce to amount_arg fs = Inr txn"
    and "LoadEd25519 (ho_files H) (ho_key_json H)
      (path_Join (ho_files H) [home, ''config'', ''keys'', fromKey @ ''.json'']) fs
      = Inr \<lparr>ed_PublicKey = pub, ed_PrivateKey = priv\<rparr>"
  obtains amount payload msg where
    "ParseUint amount_arg = Inr amount"
    "EncodePayload (lib_pw (ho_libs H)) (Some (Transfer \<lparr>tr_To = to, tr_Amount = amount\<rparr>)) pub = Inr payload"
    "SigningBytes (lib_pw (ho_libs H)) (Some txn) = Inr msg"
    "txn = \<lparr>tx_From = address_or_empty (lib_cl (ho_libs H)) pub, tx_To = to, tx_Nonce = nonce,
       tx_Payload = payload, tx_Signature = Ed25519Sign (lib_cl (ho_libs H)) priv msg\<rparr>"
  using assms by (auto simp: txTransferCmd_def Let_def SignEd25519_def SigningBytes_Some)

text \<open>Property C16. Keys and transfers of the wallet are accepted: for a key that \<open>keys add\<close> made, the
  transaction that \<open>tx transfer\<close> signs with it is from the address that was printed, carries that
  transfer and that key, and passes every check of the state transition before execution in any view
  where the account has the nonce of the flag and no other key registered. The recipient is not
  checked by the command, so it has to be given.\<close>

theorem wallet_transfers_are_accepted:
  assumes pw: "protowire_laws (lib_pw (ho_libs H))"
    and os: "files_ok (ho_files H)" "json_ok (ho_key_json H)"
    and join: "\<And>x. path_Join (ho_files H) [path_Join (ho_files H) [home, ''config'', ''keys''], x]
      = path_Join (ho_files H) [home, ''config'', ''keys'', x]"
    and ed: "ed25519_correct (lib_cl (ho_libs H)) gen" "gen coins = Inr (pub, priv)"
    and created: "keysAddCmd H gen coins home name fs = (fs', Inr addr)" "addr \<noteq> []"
    and signed: "txTransferCmd H ParseUint home name nonce to amount_arg fs' = Inr txn" "to \<noteq> []"
    and account: "getA s addr = Inr acct" "acct_Nonce (or_zero addr acct) = nonce"
      "acct_PubKey (or_zero addr acct) \<in> {[], pub}"
  shows "tx_From txn = addr \<and> tx_To txn = to \<and> (\<exists>amount sender size_bytes. ParseUint amount_arg = Inr amount
    \<and> prepare_sender (lib_pw (ho_libs H)) (lib_cl (ho_libs H)) rcp getA s (Some txn) time
      = Inr (sender, \<lparr>env_Payload = Some (Transfer \<lparr>tr_To = to, tr_Amount = amount\<rparr>),
          env_SenderPubKey = pub\<rparr>, size_bytes)
    \<and> acct_PubKey sender = pub)"
proof -
  let ?pw = "lib_pw (ho_libs H)" and ?cl = "lib_cl (ho_libs H)"
  obtain fs1 where "SaveEd25519 (ho_files H) (ho_key_json H)
       (path_Join (ho_files H) [home, ''config'', ''keys'', name @ ''.json''])
       (Some \<lparr>ed_PublicKey = pub, ed_PrivateKey = priv\<rparr>) fs1 = Inr fs'"
    and addr: "addr = address_or_empty ?cl pub"
    using created(1) ed(2) by (auto elim: keysAddCmd_ok simp: join)
  from load_saved_keys(2) [OF os this(1)] obtain amount payload msg where
      amount: "ParseUint amount_arg = Inr amount"
    and enc: "EncodePayload ?pw (Some (Transfer \<lparr>tr_To = to, tr_Amount = amount\<rparr>)) pub = Inr payload"
    and msg: "SigningBytes ?pw (Some txn) = Inr msg"
    and txn: "txn = \<lparr>tx_From = addr, tx_To = to, tx_Nonce = nonce, tx_Payload = payload,
        tx_Signature = Ed25519Sign ?cl priv msg\<rparr>"
    using txTransferCmd_ok [OF signed(1)] addr by metis
  have keys: "length pub = Ed25519PublicKeySize" "length (Ed25519Sign ?cl priv msg) = Ed25519SignatureSize"
      "Ed25519Verify ?cl pub msg (Ed25519Sign ?cl priv msg)"
    using ed unfolding ed25519_correct_def by blast+
  then have "pub \<noteq> []" by (auto simp: Ed25519PublicKeySize_def)
  have from_key: "AddressFromPubKey ?cl pub = Inr addr"
    using addr created(2) by (auto simp: address_or_empty_def split: sum.splits)
  have dec: "DecodePayload ?pw payload
      = Inr \<lparr>env_Payload = Some (Transfer \<lparr>tr_To = to, tr_Amount = amount\<rparr>), env_SenderPubKey = pub\<rparr>"
    using protowire_laws.EncodePayload_decodes [OF pw enc] .
  have fld: "tx_From txn = addr" "tx_To txn = to" "tx_Nonce txn = nonce" "tx_Payload txn = payload"
      "tx_Signature txn = Ed25519Sign ?cl priv msg" by (simp_all add: txn)
  have res: "ResolveSenderPubKey ?cl (Some txn) (acct_PubKey (or_zero addr acct)) pub
      = Inr (pub, acct_PubKey (or_zero addr acct) = [])"
    using account(3) keys(1) from_key \<open>pub \<noteq> []\<close> by (auto simp: ResolveSenderPubKey_ok fld)
  have ver: "VerifySignature ?pw ?cl (Some txn) pub = Inr ()"
    using keys msg by (simp add: VerifySignature_ok fld)
  obtain size_bytes where sz: "MarshalTransaction ?pw (Some txn) = Inr size_bytes"
    using MarshalTransaction_Some by blast
  obtain rc t where R: "Regen rcp (acct_RC (or_zero addr acct)) (acct_Stake (or_zero addr acct))
      (acct_LastRCEffectiveTime (or_zero addr acct)) time = (rc, t)" by fastforce
  have "\<exists>sender. prepare_sender ?pw ?cl rcp getA s (Some txn) time
      = Inr (sender, \<lparr>env_Payload = Some (Transfer \<lparr>tr_To = to, tr_Amount = amount\<rparr>),
          env_SenderPubKey = pub\<rparr>, size_bytes) \<and> acct_PubKey sender = pub"
    using account created(2) signed(2) R
    by (auto simp: prepare_sender_def fld dec wrap_err_def res ver sz Let_def)
  then show ?thesis using amount fld by blast
qed

section \<open>A concrete home\<close>

definition cli_seed :: bytes where
  "cli_seed = replicate 64 0"

definition cli_host ::
  "((bytes, bytes) RBT.rbt, unit, nat, nat, string \<rightharpoonup> bytes) host"
where
  "cli_host = sample_host
     \<lparr>ho_config_json := json_of (DefaultConfig\<lparr>nc_HomeDir := ''h''\<rparr>),
      ho_genesis_json := json_of (DefaultGenesis 7),
      ho_key_json := json_of \<lparr>kf_PublicKey = string_of toy_key, kf_PrivateKey = string_of cli_seed\<rparr>\<rparr>"

lemma cli_host_simps [simp]:
  "ho_libs cli_host = toy_libs" "ho_files cli_host = memory_files" "ho_open cli_host path = Inr toy_db"
  "ho_config_json cli_host = json_of (DefaultConfig\<lparr>nc_HomeDir := ''h''\<rparr>)"
  "ho_genesis_json cli_host = json_of (DefaultGenesis 7)"
  "ho_key_json cli_host = json_of \<lparr>kf_PublicKey = string_of toy_key, kf_PrivateKey = string_of cli_seed\<rparr>"
  "ho_p2p_New cli_host listen boot = Inr ()"
  by (simp_all add: cli_host_def)

lemma initialized_home_starts_witness:
  "\<exists>fs' db' n. initCmd cli_host 7 ''h'' Map.empty = (fs', Inr ())
     \<and> startCmd cli_host ''h'' fs' = (Some db', Inr n) \<and> nd_consensus n = None"
proof -
  have "\<exists>fs'. initCmd cli_host 7 ''h'' Map.empty = (fs', Inr ())"
    by (simp add: initCmd_def Config_Save_def Let_def)
  then obtain fs' where init: "initCmd cli_host 7 ''h'' Map.empty = (fs', Inr ())" by blast
  have "path_Join memory_files [''h'', ''config'', ''config.json''] \<noteq> path_Join memory_files [''h'', ''config'', ''genesis.json'']"
    by (simp add: memory_files_def)
  with initialized_home_starts [of cli_host "''h''" 7 Map.empty fs' toy_db toy_alice] init show ?thesis
    by (auto simp: memory_files_ok json_of_ok)
qed

definition cli_keygen :: "bytes \<Rightarrow> error + (bytes \<times> bytes)" where
  "cli_keygen coins = Inr (toy_key, cli_seed)"

lemma cli_keygen_correct: "ed25519_correct toy_crypto cli_keygen"
  by (auto simp: ed25519_correct_def cli_keygen_def cli_seed_def toy_crypto_def toy_signature_def
      min_def Ed25519PublicKeySize_def Ed25519PrivateKeySize_def Ed25519SignatureSize_def)

lemma cli_key_created: "\<exists>fs'. keysAddCmd cli_host cli_keygen [] ''h'' ''k'' Map.empty = (fs', Inr toy_alice)"
proof -
  have enc: "base64_Encode memory_files = string_of" by (simp add: memory_files_def)
  show ?thesis
    by (simp add: keysAddCmd_def GenerateEd25519_def cli_keygen_def wrap_err_def SaveEd25519_def enc Let_def
        address_or_empty_def toy_address)
qed

definition cli_view :: "unit \<Rightarrow> address \<Rightarrow> error + account option" where
  "cli_view s a = Inr None"

lemma wallet_transfers_are_accepted_witness:
  "\<exists>fs' txn sender size_bytes. txTransferCmd cli_host (\<lambda>s. Inr 5) ''h'' ''k'' 0 ''bob'' ''5'' fs' = Inr txn
     \<and> prepare_sender wire_format toy_crypto test_params cli_view () (Some txn) 10
       = Inr (sender, \<lparr>env_Payload = Some (Transfer \<lparr>tr_To = ''bob'', tr_Amount = 5\<rparr>),
           env_SenderPubKey = toy_key\<rparr>, size_bytes)"
proof -
  obtain fs' where created: "keysAddCmd cli_host cli_keygen [] ''h'' ''k'' Map.empty = (fs', Inr toy_alice)"
    using cli_key_created by blast
  have gen: "cli_keygen [] = Inr (toy_key, cli_seed)" by (simp add: cli_keygen_def)
  have join: "path_Join memory_files [path_Join memory_files [''h'', ''config'', ''keys''], x]
      = path_Join memory_files [''h'', ''config'', ''keys'', x]" for x
    by (simp add: memory_files_def)
  have "LoadEd25519 memory_files (ho_key_json cli_host)
      (path_Join memory_files [''h'', ''config'', ''keys'', ''k.json'']) fs'
      = Inr \<lparr>ed_PublicKey = toy_key, ed_PrivateKey = cli_seed\<rparr>"
    using created gen load_saved_keys(2) [OF memory_files_ok json_of_ok]
    by (auto elim!: keysAddCmd_ok simp: join)
  then have "\<exists>txn. txTransferCmd cli_host (\<lambda>s. Inr 5) ''h'' ''k'' 0 ''bob'' ''5'' fs' = Inr txn"
    using EncodePayload_Some [of wire_format _ toy_key]
    by (auto simp: txTransferCmd_def Let_def SigningBytes_Some SignEd25519_def cli_seed_def
        Ed25519PrivateKeySize_def wrap_err_def MarshalTransaction_def EncodePayload_def)
  then obtain txn where txn: "txTransferCmd cli_host (\<lambda>s. Inr 5) ''h'' ''k'' 0 ''bob'' ''5'' fs' = Inr txn"
    by blast
  have hyps: "protowire_laws (lib_pw (ho_libs cli_host))" "files_ok (ho_files cli_host)"
      "json_ok (ho_key_json cli_host)" "ed25519_correct (lib_cl (ho_libs cli_host)) cli_keygen"
    by (simp_all add: wire.protowire_laws_axioms memory_files_ok json_of_ok cli_keygen_correct)
  have acct: "acct_Nonce (or_zero toy_alice None) = 0" "acct_PubKey (or_zero toy_alice None) \<in> {[], toy_key}"
    by (simp_all add: or_zero_def zero_account_def)
  have "cli_view () toy_alice = Inr None" by (simp add: cli_view_def)
  from wallet_transfers_are_accepted [where H = cli_host and getA = cli_view and s = "()",
      OF hyps(1-3) _ hyps(4) gen created toy_alice_nonempty txn _ this acct, of test_params 10] txn
  show ?thesis by (auto simp: join)
qed

end
