(* ===== verification/Spec2Isabelle.thy ===== *)
theory Spec2Isabelle
  imports Converge Replica Governance P2P Cli
begin

text \<open>
  A verification of opencoin, a delegated-stake blockchain node written in Go.

  \<^bold>\<open>The program.\<close> Accounts hold a balance, a stake, a nonce and resource credits that regenerate
  with time in proportion to the stake (\<open>pkg/rc\<close>). A signed transaction names a sender and
  carries one of seven payloads (\<open>pkg/tx\<close>, \<open>pkg/encoding\<close>, \<open>pkg/types\<close>); the state transition
  checks it, charges credits and moves the balances (\<open>pkg/state/state.go\<close>) over an ordered
  key-value store (\<open>store.go\<close>, \<open>codec.go\<close>), whose accounts are committed to by a Merkle root
  (\<open>merkle.go\<close>); applied blocks become nodes of a graph (\<open>dag.go\<close>). The mempool orders what
  waits (\<open>pkg/mempool\<close>), the contract engine deploys and calls WASM modules (\<open>pkg/contracts\<close>),
  the validators and their power are kept by \<open>pkg/consensus/dpos.go\<close>, and a HotStuff-like engine
  (\<open>hotstuff.go\<close>, \<open>qc.go\<close>, \<open>signing.go\<close>) proposes, votes, certifies and finalizes blocks:
  it previews a block on the state before it votes and applies it when it finalizes.
  \<open>pkg/node\<close> wires these together from a configuration and a genesis file (\<open>pkg/config\<close>,
  \<open>pkg/genesis\<close>), \<open>cmd/opencoin\<close> is its command line and wallet, \<open>pkg/p2p\<close> encrypts between
  peers under keys of a Kyber handshake, and \<open>pkg/crypto\<close> holds addresses, signatures, key files
  and the wrappers of the C code.

  \<^bold>\<open>The theories, in the order they build on each other.\<close>

  \<^item> \<open>OC_Prelude\<close>: errors as values (\<open>error + 'a\<close>, \<open>bind_err\<close>, \<open>guard_err\<close>, \<open>wrap_err\<close>), byte
    strings, the machine integers \<open>u8\<close> to \<open>u64\<close> and \<open>i64\<close> as words with the overflow tests that the
    code writes.
  \<^item> \<open>Types\<close> (\<open>pkg/types\<close>): a record per struct.
  \<^item> \<open>Wire\<close>: the interface to the package protowire, the locale \<open>protowire_laws\<close>, and the decoding
    loop that all decoders share; \<open>wire_format\<close> is an implementation that satisfies the laws.
  \<^item> \<open>Encoding\<close> (\<open>pkg/encoding\<close>) and \<open>Payload\<close> (\<open>pkg/tx/payload*.go\<close>): encoders, decoders and
    hashes. The lemmas show that decoding inverts encoding, that decoding returns on every
    input, and that a block hash determines the header and the transactions it was made from.
  \<^item> \<open>Crypto\<close>, \<open>Tx\<close> (\<open>pkg/crypto/address.go\<close>, \<open>ed25519.go\<close>, \<open>dilithium.go\<close>; \<open>pkg/tx/signing.go\<close>,
    \<open>verify.go\<close>): addresses and the authentication of transactions.
  \<^item> \<open>RC\<close>, \<open>Coster\<close> (\<open>pkg/rc\<close>, \<open>pkg/tx/coster.go\<close>): each 64-bit computation with its saturation,
    read as the exact formula on naturals cut off at the largest \<open>uint64\<close>.
  \<^item> \<open>Contracts\<close> (\<open>pkg/contracts\<close>): the engine as a state with a step relation; a panic of Go is
    a value of its own.
  \<^item> \<open>Store\<close>, \<open>Merkle\<close>, \<open>Dag\<close> (\<open>pkg/state\<close>): the store over the interface \<open>pebble_laws\<close>, the locale
    \<open>account_view\<close> (reading an account after writing it), the root and what it binds, the graph
    with its tips and its pruning.
  \<^item> \<open>State\<close> (\<open>state.go\<close>): \<open>applyTransactionWithKV\<close>, \<open>PreviewBlock\<close> and \<open>ApplyBlock\<close>. \<open>Ledger\<close> is
    the abstract specification, a total function on accounts per payload, with runs of
    transactions (\<open>ledger_run\<close>); \<open>Chain\<close> carries it to blocks over the store (\<open>chain_run\<close>), \<open>Preview\<close>
    compares previewing and applying a block, \<open>Transition\<close> states the properties and \<open>Converge\<close> that nodes applying the same blocks agree. \<open>Sample\<close> is the
    small chain of the witnesses.
  \<^item> \<open>DPoS\<close>: validators, delegation, slashing and the validator set.
  \<^item> \<open>Heap\<close> (container/heap, the locales \<open>weak_order\<close> and \<open>priority_queue\<close>) and \<open>Mempool\<close>
    (\<open>mempool.go\<close>): admission, and the selection of a block by priority.
  \<^item> \<open>Consensus\<close>: the engine, one definition per handler. \<open>Quorum\<close>: the proposer of a round and when
    votes become a certificate. \<open>Finality\<close>: what a vote means, that voted blocks finalize, and that
    an engine resumes from what it stored. \<open>Replica\<close>: everything an engine can come to through its
    handlers while the validators, the mempool and the contract engine it shares with the node change
    under it, and accountable safety of two engines.
  \<^item> \<open>Governance\<close> (\<open>pkg/governance\<close>): the manager refines the history of its successful calls.
  \<^item> \<open>Native\<close> (\<open>kyber*.go\<close>, \<open>dilithium_cgo.go\<close>) and \<open>P2P\<close> (\<open>pkg/p2p\<close>): calls into C with the
    buffers they read, frames, the handshake and sessions.
  \<^item> \<open>Genesis\<close> (\<open>pkg/config\<close>, \<open>pkg/genesis\<close>, \<open>keystore.go\<close>), \<open>Node\<close> (\<open>pkg/node\<close>) and \<open>Cli\<close>
    (\<open>cmd/opencoin\<close>): files, the start of a node and the commands, up to the properties that go
    through the whole program: a home that was initialized starts, and what the wallet signs is
    accepted by the state transition.

  \<^bold>\<open>How the model reads.\<close> Definitions have the names of the code. A method with a pointer receiver
  takes the object and returns it; an object that is shared and mutated (the contract engine, the
  batch, the mempool) is returned also when the call fails. A returned error is \<open>Inl\<close> of its
  message, a panic of Go is \<open>Panic\<close>. Mutexes make a method one step, so concurrency is the order of
  the steps, over which the inductive relations (\<open>engine_step\<close>, \<open>mempool_run\<close>, \<open>reachable_dpos\<close>,
  \<open>replica_run\<close>, \<open>reachable_p2p\<close>, \<open>chain_run\<close>) range. Where Go ranges over a map in an
  unspecified order, the order is an argument and the properties hold for each.

  \<^bold>\<open>Bounds and termination.\<close> No function runs on invented fuel. \<open>decode_loop\<close> recurses on the bytes
  left: a tag that consumes nothing, or a case that does not shrink the input, is its error
  value, and the laws of protowire make that branch unreachable. \<open>heap_up\<close>, \<open>heap_down\<close>,
  \<open>merkleRoot\<close> and \<open>tree_inputs\<close> have measures. \<open>select_loop\<close> counts the places left in the block,
  as the code does. \<open>prune_walk\<close>, the recursive closure of \<open>PruneNonFinal\<close>, is a partial function:
  that it returns on every graph that insertions and earlier prunes make is a theorem. Integers stay at their
  width; where a property needs them not to wrap, the bound is a hypothesis, and other properties
  show what happens beyond it.

  \<^bold>\<open>Parameters.\<close> Code outside of the repository is an argument: protowire, Pebble, wazero, the
  primitives of \<open>crypto_lib\<close> (SHA-256, Ed25519, bech32), the C functions of Kyber and Dilithium
  (submodules), HKDF and ChaCha20-Poly1305, the operating system with the JSON and base64 codecs,
  libp2p, the clock and randomness. What is relied on is stated as a locale or as a named
  hypothesis, and each is shown to be satisfiable by the concrete functions of the witnesses. Where
  a primitive is only secure by assumption, as a hash is, the conclusion names the collision
  instead of assuming that there is none.

  \<^bold>\<open>Not modelled.\<close> \<open>pkg/network/abci.go\<close>: it is behind a build tag and refers to types and fields
  that exist nowhere in the repository, so there is no code to translate it against. The libp2p
  host of \<open>p2p.go\<close> (\<open>New\<close>, \<open>connectPeer\<close>, \<open>Topic\<close>), the HTTP server of \<open>node.go\<close> with \<open>Stop\<close>, the
  declarations of cobra with \<open>main\<close>, and \<open>cmd/dilithium-demo\<close> are input and output of libraries
  without logic of their own. The guards of the consensus engine against nil parts are left out,
  since \<open>NewEngine\<close> is given none.
\<close>

end
